(* ===== verification/Lvs_Prelude.thy ===== *)
theory Lvs_Prelude
  imports Main "HOL-Library.Word" "HOL-Library.AList" "HOL-Library.Monad_Syntax"
    "HOL-Library.Multiset"
begin

text \<open>
  What every component of the development shares: the Go types the program uses
  (fixed-width integers, byte slices, maps, errors), the operations of the language on them,
  and the lemmas about these operations.

  A Go map is an association list with distinct keys. The order in which the language's
  \<open>range\<close> visits the keys is not determined by the map, so a function that ranges over maps
  takes the orders as an argument of type \<open>orders\<close>: the \<open>n\<close>-th range loop of the function
  visits the keys \<open>ks\<close> in the order \<open>port_order ord n ks\<close> (or \<open>name_order ord n ks\<close>), and
  \<open>fair_orders\<close> says that this is a permutation of the keys. Theorems hold for all orders.

  A computation that may panic has an \<open>option\<close> result, \<open>None\<close> being the panic; the Go
  idiom of a returned error is a value of type \<open>error option\<close>.
\<close>

type_synonym u8 = "8 word"
type_synonym u16 = "16 word"
type_synonym u32 = "32 word"
type_synonym bytes = "u8 list"

text \<open>A \<open>net.IP\<close> is a byte slice, which may be nil.\<close>

type_synonym net_IP = "bytes option"

text \<open>
  Errors: \<open>Errno\<close> is an error the kernel or the API server reports, \<open>Errorf\<close> one built by
  \<open>fmt.Errorf\<close> from a message and a cause, \<open>Errorp\<close> one built from a message alone.
\<close>

datatype error = Errno int | Errorf string error | Errorp string

named_theorems gomap_simps \<open>rewriting of Go map operations under map_of\<close>

section \<open>Go maps\<close>

type_synonym ('k, 'v) gomap = "('k \<times> 'v) list"

definition go_wf :: "('k, 'v) gomap \<Rightarrow> bool" where
  "go_wf m \<longleftrightarrow> distinct (map fst m)"

abbreviation go_keys :: "('k, 'v) gomap \<Rightarrow> 'k list" where
  "go_keys m \<equiv> map fst m"

definition go_has :: "('k, 'v) gomap \<Rightarrow> 'k \<Rightarrow> bool" where
  "go_has m k \<longleftrightarrow> map_of m k \<noteq> None"

definition go_put :: "'k \<Rightarrow> 'v \<Rightarrow> ('k, 'v) gomap \<Rightarrow> ('k, 'v) gomap" where
  "go_put k v m = AList.update k v m"

definition go_del :: "'k \<Rightarrow> ('k, 'v) gomap \<Rightarrow> ('k, 'v) gomap" where
  "go_del k m = AList.delete k m"

text \<open>Reading an absent key of a map of strings gives the empty string.\<close>

definition go_get_str :: "('k, string) gomap \<Rightarrow> 'k \<Rightarrow> string" where
  "go_get_str m k = (case map_of m k of None \<Rightarrow> [] | Some v \<Rightarrow> v)"

text \<open>\<open>reflect.DeepEqual\<close> on two non-nil maps: same length, and each entry of one in the other.\<close>

definition go_map_eq :: "('k, 'v) gomap \<Rightarrow> ('k, 'v) gomap \<Rightarrow> bool" where
  "go_map_eq a b \<longleftrightarrow> length a = length b \<and> (\<forall>(k, v) \<in> set a. map_of b k = Some v)"

lemma go_wf_Nil [simp]: "go_wf []"
  by (simp add: go_wf_def)

lemma go_wf_put [simp]: "go_wf m \<Longrightarrow> go_wf (go_put k v m)"
  by (simp add: go_wf_def go_put_def distinct_update)

lemma go_wf_del [simp]: "go_wf m \<Longrightarrow> go_wf (go_del k m)"
  by (simp add: go_wf_def go_del_def distinct_delete)

lemma map_of_go_put [gomap_simps, simp]: "map_of (go_put k v m) = (map_of m)(k \<mapsto> v)"
  by (simp add: go_put_def update_conv')

lemma map_of_go_del [gomap_simps, simp]: "map_of (go_del k m) = (map_of m)(k := None)"
  by (simp add: go_del_def delete_conv')

lemma set_go_keys [simp]: "fst ` set m = dom (map_of m)"
  by (simp add: dom_map_of_conv_image_fst)

lemma go_has_dom: "go_has m k \<longleftrightarrow> k \<in> dom (map_of m)"
  by (simp add: go_has_def domIff)

lemma go_get_str_Some: "map_of m k = Some v \<Longrightarrow> go_get_str m k = v"
  by (simp add: go_get_str_def)

lemma map_of_empty_iff [simp]: "map_of m = Map.empty \<longleftrightarrow> m = []"
  by (cases m) (auto simp: fun_eq_iff)

lemma go_wf_Cons: "go_wf ((k, v) # m) \<longleftrightarrow> k \<notin> dom (map_of m) \<and> go_wf m"
  by (simp add: go_wf_def)

lemma card_dom_map_of: "go_wf m \<Longrightarrow> card (dom (map_of m)) = length m"
  by (induction m) (auto simp: go_wf_Cons finite_dom_map_of)

text \<open>On well-formed maps, \<open>DeepEqual\<close> is equality of the finite functions.\<close>

lemma go_map_eq_iff:
  assumes "go_wf a" and "go_wf b"
  shows "go_map_eq a b \<longleftrightarrow> map_of a = map_of b"
proof
  assume eq: "go_map_eq a b"
  have sub: "map_of a \<subseteq>\<^sub>m map_of b"
    using eq by (fastforce simp: go_map_eq_def map_le_def dest: map_of_SomeD)
  have card: "card (dom (map_of a)) = card (dom (map_of b))"
    using eq assms by (simp add: go_map_eq_def card_dom_map_of)
  have "dom (map_of a) = dom (map_of b)"
    using map_le_implies_dom_le [OF sub] card by (simp add: card_subset_eq finite_dom_map_of)
  with sub show "map_of a = map_of b"
    by (intro map_le_antisym) (auto simp: map_le_def)
next
  assume eq: "map_of a = map_of b"
  then have "length a = length b"
    using assms by (metis card_dom_map_of)
  with eq assms show "go_map_eq a b"
    by (auto simp: go_map_eq_def go_wf_def simp flip: eq)
qed

section \<open>Range loops\<close>

record orders =
  port_order :: "nat \<Rightarrow> u16 list \<Rightarrow> u16 list"
  name_order :: "nat \<Rightarrow> string list \<Rightarrow> string list"

definition fair_orders :: "orders \<Rightarrow> bool" where
  "fair_orders ord \<longleftrightarrow> (\<forall>n ks. mset (port_order ord n ks) = mset ks)
     \<and> (\<forall>n ks. mset (name_order ord n ks) = mset ks)"

text \<open>The orders that visit the keys as they are stored, for concrete runs.\<close>

definition id_orders :: orders where
  "id_orders = \<lparr>port_order = (\<lambda>_ ks. ks), name_order = (\<lambda>_ ks. ks)\<rparr>"

lemma fair_id_orders: "fair_orders id_orders"
  by (simp add: fair_orders_def id_orders_def)

lemma fair_set [simp]:
  assumes "fair_orders ord"
  shows "set (port_order ord n ks) = set ks" "set (name_order ord n ls) = set ls"
  using assms by (metis fair_orders_def mset_eq_setD)+

lemma fair_distinct [simp]:
  assumes "fair_orders ord"
  shows "distinct (port_order ord n ks) = distinct ks" "distinct (name_order ord n ls) = distinct ls"
  using assms by (metis fair_orders_def mset_eq_imp_distinct_iff)+

text \<open>\<open>for key := range m { delete(m, key) }\<close> over the keys in the given order.\<close>

definition delete_keys :: "'k list \<Rightarrow> ('k, 'v) gomap \<Rightarrow> ('k, 'v) gomap" where
  "delete_keys ks m = fold go_del ks m"

lemma go_wf_delete_keys [simp]: "go_wf m \<Longrightarrow> go_wf (delete_keys ks m)"
  unfolding delete_keys_def by (induction ks arbitrary: m) simp_all

lemma map_of_delete_keys [gomap_simps]:
  "map_of (delete_keys ks m) = (\<lambda>k. if k \<in> set ks then None else map_of m k)"
  unfolding delete_keys_def by (induction ks arbitrary: m) (auto simp: fun_eq_iff)

lemma delete_all_keys: "set ks = dom (map_of m) \<Longrightarrow> delete_keys ks m = []"
proof -
  assume "set ks = dom (map_of m)"
  then have "map_of (delete_keys ks m) = Map.empty"
    by (auto simp: map_of_delete_keys fun_eq_iff domIff)
  then show ?thesis by simp
qed

text \<open>\<open>for key := range ks { m[key] = v }\<close>.\<close>

definition put_keys :: "'k list \<Rightarrow> 'v \<Rightarrow> ('k, 'v) gomap \<Rightarrow> ('k, 'v) gomap" where
  "put_keys ks v m = fold (\<lambda>k. go_put k v) ks m"

lemma go_wf_put_keys [simp]: "go_wf m \<Longrightarrow> go_wf (put_keys ks v m)"
  unfolding put_keys_def by (induction ks arbitrary: m) simp_all

lemma map_of_put_keys [gomap_simps]:
  "map_of (put_keys ks v m) = (\<lambda>k. if k \<in> set ks then Some v else map_of m k)"
  unfolding put_keys_def by (induction ks arbitrary: m) (auto simp: fun_eq_iff)

section \<open>Strings and bytes\<close>

text \<open>\<open>[]byte(s)\<close> and \<open>string(b)\<close>.\<close>

definition bytes_of_string :: "string \<Rightarrow> bytes" where
  "bytes_of_string s = map (\<lambda>c. of_nat (of_char c)) s"

definition string_of_bytes :: "bytes \<Rightarrow> string" where
  "string_of_bytes b = map (\<lambda>w. char_of (unat w)) b"

lemma of_char_less: "of_char c < (256 :: nat)"
proof -
  have "of_char c mod (256 :: nat) < 256" by simp
  then show ?thesis by simp
qed

lemma string_of_bytes_of_string [simp]: "string_of_bytes (bytes_of_string s) = s"
  by (simp add: string_of_bytes_def bytes_of_string_def comp_def unat_of_nat
      take_bit_eq_mod of_char_less map_idI)

lemma ip_bytes_length [simp]: "length (bytes_of_string s) = length s"
  by (simp add: bytes_of_string_def)

end
