(* ===== verification/Go_Lib.thy ===== *)
theory Go_Lib
  imports Lvs_Prelude
begin

text \<open>
  The functions of Go's standard library the program calls, as Go 1.10 (the compiler of
  \<open>build/build-image.sh\<close>) defines them: \<open>strconv.Atoi\<close>, \<open>strings.Split\<close>,
  \<open>strings.Contains\<close>, \<open>strings.Replace\<close> of a newline by nothing, the conversion
  \<open>string(r)\<close> of an integer, \<open>net.ParseIP\<close>, \<open>IP.To4\<close>, \<open>IP.To16\<close> and \<open>IP.Equal\<close>,
  with the facts about them the components use. They model no file of the repository.
\<close>

section \<open>strconv\<close>

datatype num_error = ErrSyntax | ErrRange

definition char_code :: "char \<Rightarrow> nat" where
  "char_code c = of_char c"

definition is_digit :: "char \<Rightarrow> bool" where
  "is_digit c \<longleftrightarrow> 48 \<le> char_code c \<and> char_code c \<le> 57"

definition digit_val :: "char \<Rightarrow> int" where
  "digit_val c = int (char_code c) - 48"

text \<open>The digit loop of \<open>ParseUint(s, 10, 64)\<close>, with the value it has read so far.\<close>

fun parse_uint_loop :: "string \<Rightarrow> int \<Rightarrow> int \<times> num_error option" where
  "parse_uint_loop [] n = (n, None)"
| "parse_uint_loop (c # cs) n =
     (if \<not> is_digit c then (0, Some ErrSyntax)
      else let n1 = n * 10 + digit_val c
           in if n1 \<ge> 2 ^ 64 then (2 ^ 64 - 1, Some ErrRange) else parse_uint_loop cs n1)"

definition parse_uint :: "string \<Rightarrow> int \<times> num_error option" where
  "parse_uint s = (if s = [] then (0, Some ErrSyntax) else parse_uint_loop s 0)"

text \<open>
  \<open>Atoi\<close> is \<open>ParseInt(s, 10, 0)\<close>: an optional sign, then \<open>ParseUint\<close>, then the range of
  a 64-bit \<open>int\<close>. On a range error the value is the nearest end of the range.
\<close>

definition Atoi :: "string \<Rightarrow> int \<times> num_error option" where
  "Atoi s0 =
     (if s0 = [] then (0, Some ErrSyntax)
      else let neg = (hd s0 = CHR ''-'');
               s = (if hd s0 = CHR ''+'' \<or> hd s0 = CHR ''-'' then tl s0 else s0);
               (un, err) = parse_uint s
           in if err = Some ErrSyntax then (0, err)
              else if \<not> neg \<and> un \<ge> 2 ^ 63 then (2 ^ 63 - 1, Some ErrRange)
              else if neg \<and> un > 2 ^ 63 then (- (2 ^ 63), Some ErrRange)
              else ((if neg then - un else un), None))"

text \<open>The decimal notation of a natural number, as the \<open>%v\<close> and \<open>%d\<close> verbs print it.\<close>

fun dec :: "nat \<Rightarrow> string" where
  "dec n = (if n < 10 then [char_of (48 + n)] else dec (n div 10) @ [char_of (48 + n mod 10)])"

declare dec.simps [simp del]

lemma char_code_of_digit [simp]: "(n :: nat) < 10 \<Longrightarrow> char_code (char_of (48 + n)) = 48 + n"
  by (simp add: char_code_def)

lemma is_digit_of_digit [simp]: "(n :: nat) < 10 \<Longrightarrow> is_digit (char_of (48 + n))"
  by (simp add: is_digit_def)

lemma digit_val_of_digit [simp]: "(n :: nat) < 10 \<Longrightarrow> digit_val (char_of (48 + n)) = int n"
  by (simp add: digit_val_def)

lemma dec_nonempty [simp]: "dec n \<noteq> []"
  by (subst dec.simps) simp

lemma dec_digits: "c \<in> set (dec n) \<Longrightarrow> is_digit c"
proof (induction n rule: dec.induct)
  case (1 n)
  then show ?case
    by (cases "n < 10") (auto simp: dec.simps [of n])
qed

text \<open>The value of a string of digits, and what the digit loop does on one.\<close>

definition digits_val :: "int \<Rightarrow> string \<Rightarrow> int" where
  "digits_val n s = foldl (\<lambda>m c. m * 10 + digit_val c) n s"

lemma digits_val_ge: "0 \<le> n \<Longrightarrow> list_all is_digit s \<Longrightarrow> n \<le> digits_val n s"
proof (induction s arbitrary: n)
  case (Cons c s)
  have d: "0 \<le> digit_val c" using Cons.prems by (simp add: digit_val_def is_digit_def)
  then have "n \<le> n * 10 + digit_val c" using Cons.prems by simp
  also have "\<dots> \<le> digits_val (n * 10 + digit_val c) s"
    using Cons d by simp
  finally show ?case by (simp add: digits_val_def)
qed (simp add: digits_val_def)

lemma digits_val_dec: "digits_val 0 (dec n) = int n"
proof (induction n rule: dec.induct)
  case (1 n)
  have "int (n div 10) * 10 + int (n mod 10) = int n"
    by (simp add: zdiv_int zmod_int)
  with "1" show ?case
    by (cases "n < 10") (auto simp: dec.simps [of n] digits_val_def)
qed

lemma parse_uint_loop_nonneg: "0 \<le> n \<Longrightarrow> parse_uint_loop s n = (m, e) \<Longrightarrow> 0 \<le> m"
  by (induction s n rule: parse_uint_loop.induct)
     (auto simp: Let_def digit_val_def is_digit_def split: if_splits)

lemma parse_uint_nonneg: "parse_uint s = (m, e) \<Longrightarrow> 0 \<le> m"
  using parse_uint_loop_nonneg [of 0] by (auto simp: parse_uint_def split: if_splits)

lemma parse_uint_loop_digits:
  "0 \<le> n \<Longrightarrow> list_all is_digit s \<Longrightarrow> digits_val n s < 2 ^ 64 \<Longrightarrow>
     parse_uint_loop s n = (digits_val n s, None)"
proof (induction s arbitrary: n)
  case (Cons c s)
  have d: "0 \<le> digit_val c" using Cons.prems by (simp add: digit_val_def is_digit_def)
  then have "n * 10 + digit_val c \<le> digits_val n (c # s)"
    using digits_val_ge [of "n * 10 + digit_val c" s] Cons.prems by (simp add: digits_val_def)
  with Cons d show ?case by (simp add: digits_val_def Let_def)
qed (simp add: digits_val_def)

lemma parse_uint_loop_small:
  "parse_uint_loop s n = (m, e) \<Longrightarrow> e \<noteq> Some ErrSyntax \<Longrightarrow> m \<le> 2 ^ 63 \<Longrightarrow>
     e = None \<and> list_all is_digit s \<and> m = digits_val n s"
  by (induction s n rule: parse_uint_loop.induct)
     (auto simp: digits_val_def Let_def split: if_splits)

lemma hd_dec_not_sign: "hd (dec n) \<noteq> CHR ''+''" "hd (dec n) \<noteq> CHR ''-''"
  using dec_digits [of "hd (dec n)" n] by (auto simp: is_digit_def char_code_def)

text \<open>Parsing undoes printing, for every value that fits the type.\<close>

lemma Atoi_dec: "n < 2 ^ 63 \<Longrightarrow> Atoi (dec n) = (int n, None)"
proof -
  assume n: "n < 2 ^ 63"
  have "parse_uint (dec n) = (int n, None)"
    using n dec_digits [of _ n]
    by (auto simp: parse_uint_def digits_val_dec list_all_iff
        intro!: trans [OF parse_uint_loop_digits])
  with n show ?thesis
    by (simp add: Atoi_def Let_def hd_dec_not_sign)
qed

lemma Atoi_range: "Atoi s = (i, None) \<Longrightarrow> - (2 ^ 63) \<le> i \<and> i < 2 ^ 63"
  by (auto simp: Atoi_def Let_def split: if_splits prod.splits dest: parse_uint_nonneg)

text \<open>What \<open>Atoi\<close> accepts: an optional sign and at least one digit.\<close>

definition strip_sign :: "string \<Rightarrow> string" where
  "strip_sign s = (if s \<noteq> [] \<and> (hd s = CHR ''+'' \<or> hd s = CHR ''-'') then tl s else s)"

text \<open>An accepted string is an optional sign and digits, and its value is the digits' value.\<close>

lemma Atoi_Some:
  assumes "Atoi s = (i, None)"
  shows "strip_sign s \<noteq> [] \<and> list_all is_digit (strip_sign s) \<and>
    i = (if hd s = CHR ''-'' then - digits_val 0 (strip_sign s)
         else digits_val 0 (strip_sign s))"
proof -
  obtain un e where pu: "parse_uint (strip_sign s) = (un, e)" by fastforce
  have s: "s \<noteq> []" using assms by (auto simp: Atoi_def)
  have "e \<noteq> Some ErrSyntax \<and> un \<le> 2 ^ 63 \<and>
      i = (if hd s = CHR ''-'' then - un else un)"
    using assms pu s by (auto simp: Atoi_def Let_def strip_sign_def split: if_splits)
  moreover from this pu have "strip_sign s \<noteq> []" and "parse_uint_loop (strip_sign s) 0 = (un, e)"
    by (auto simp: parse_uint_def split: if_splits)
  ultimately show ?thesis
    by (auto dest!: parse_uint_loop_small)
qed

section \<open>strings\<close>

text \<open>\<open>strings.Split(s, sep)\<close> for a separator of one byte.\<close>

fun Split :: "string \<Rightarrow> char \<Rightarrow> string list" where
  "Split [] sep = [[]]"
| "Split (c # cs) sep =
     (if c = sep then [] # Split cs sep
      else (case Split cs sep of [] \<Rightarrow> [[c]] | p # ps \<Rightarrow> (c # p) # ps))"

text \<open>\<open>strings.Contains(s, sub)\<close>.\<close>

fun Contains :: "string \<Rightarrow> string \<Rightarrow> bool" where
  "Contains [] sub = (sub = [])"
| "Contains (c # cs) sub = (take (length sub) (c # cs) = sub \<or> Contains cs sub)"

text \<open>\<open>strings.Replace(s, "\n", "", -1)\<close>.\<close>

definition drop_newlines :: "string \<Rightarrow> string" where
  "drop_newlines s = filter (\<lambda>c. char_code c \<noteq> 10) s"

text \<open>The conversion \<open>string(r)\<close> of a 16-bit integer: the UTF-8 encoding of that code point.\<close>

definition rune_string :: "u16 \<Rightarrow> string" where
  "rune_string w = (let n = unat w in
     if n < 128 then [char_of n]
     else if n < 2048 then [char_of (192 + n div 64), char_of (128 + n mod 64)]
     else if 55296 \<le> n \<and> n \<le> 57343
       then [char_of (239 :: nat), char_of (191 :: nat), char_of (189 :: nat)]
     else [char_of (224 + n div 4096), char_of (128 + n div 64 mod 64), char_of (128 + n mod 64)])"

lemma Split_nonempty [simp]: "Split s sep \<noteq> []"
  by (induction s) (auto split: list.splits)

lemma Split_prefix: "sep \<notin> set p \<Longrightarrow> Split (p @ sep # r) sep = p # Split r sep"
  by (induction p) (auto split: list.splits)

lemma Split_no_sep: "sep \<notin> set p \<Longrightarrow> Split p sep = [p]"
  by (induction p) auto

lemma Split_hd: "sep \<notin> set p \<Longrightarrow> hd (Split (p @ sep # r) sep) = p"
  by (simp add: Split_prefix)

lemma Contains_iff: "Contains s sub \<longleftrightarrow> (\<exists>a b. s = a @ sub @ b)"
proof (induction s)
  case (Cons c cs)
  have "take (length sub) (c # cs) = sub \<longleftrightarrow> (\<exists>b. c # cs = sub @ b)"
    by (metis append_eq_conv_conj append_take_drop_id)
  moreover have "(\<exists>a b. c # cs = a @ sub @ b) \<longleftrightarrow>
      (\<exists>b. c # cs = sub @ b) \<or> (\<exists>a b. cs = a @ sub @ b)"
    by (metis append_Cons append_Nil list.exhaust list.sel(3))
  ultimately show ?case using Cons by simp
qed simp

section \<open>net\<close>

definition v4InV6Prefix :: bytes where
  "v4InV6Prefix = replicate 10 0 @ [255, 255]"

text \<open>
  The decimal and hexadecimal scanners: the value read and the rest of the string, or \<open>None\<close>
  where no digit was read or the value reached \<open>big\<close>.
\<close>

definition big :: int where
  "big = 16777215"

fun dtoi_loop :: "string \<Rightarrow> int \<Rightarrow> (int \<times> string) option" where
  "dtoi_loop [] n = Some (n, [])"
| "dtoi_loop (c # cs) n =
     (if is_digit c then
        (let n1 = n * 10 + digit_val c in if n1 \<ge> big then None else dtoi_loop cs n1)
      else Some (n, c # cs))"

definition dtoi :: "string \<Rightarrow> (int \<times> string) option" where
  "dtoi s = (if s = [] \<or> \<not> is_digit (hd s) then None else dtoi_loop s 0)"

definition hex_val :: "char \<Rightarrow> nat option" where
  "hex_val c = (let n = char_code c in
     if 48 \<le> n \<and> n \<le> 57 then Some (n - 48)
     else if 97 \<le> n \<and> n \<le> 102 then Some (n - 87)
     else if 65 \<le> n \<and> n \<le> 70 then Some (n - 55) else None)"

fun xtoi_loop :: "string \<Rightarrow> int \<Rightarrow> (int \<times> string) option" where
  "xtoi_loop [] n = Some (n, [])"
| "xtoi_loop (c # cs) n =
     (case hex_val c of
        None \<Rightarrow> Some (n, c # cs)
      | Some v \<Rightarrow> (let n1 = n * 16 + int v in if n1 \<ge> big then None else xtoi_loop cs n1))"

definition xtoi :: "string \<Rightarrow> (int \<times> string) option" where
  "xtoi s = (if s = [] \<or> hex_val (hd s) = None then None else xtoi_loop s 0)"

text \<open>\<open>parseIPv4\<close>: the octet loop, with the number of octets left and whether it is the first.\<close>

fun parse4_loop :: "nat \<Rightarrow> bool \<Rightarrow> string \<Rightarrow> bytes option" where
  "parse4_loop 0 first s = (if s = [] then Some [] else None)"
| "parse4_loop (Suc k) first s =
     (if s = [] \<or> \<not> first \<and> hd s \<noteq> CHR ''.'' then None
      else do {
        (n, r) \<leftarrow> dtoi (if first then s else tl s);
        if n > 255 then None else map_option ((#) (of_int n)) (parse4_loop k False r)
      })"

definition parseIPv4 :: "string \<Rightarrow> bytes option" where
  "parseIPv4 s = parse4_loop 4 True s"

text \<open>
  \<open>parseIPv6\<close>: the loop carries the bytes written so far and the position of the ellipsis;
  its result is these at the loop's exit, with the rest of the string.
\<close>

function parse6_loop ::
    "bytes \<Rightarrow> nat option \<Rightarrow> string \<Rightarrow> (bytes \<times> nat option \<times> string) option" where
  "parse6_loop ip ell s =
     (if length ip < 16 then
        (case xtoi s of
           None \<Rightarrow> None
         | Some (n, r) \<Rightarrow>
             if n > 65535 then None
             else if r \<noteq> [] \<and> hd r = CHR ''.'' then
               (if ell = None \<and> length ip \<noteq> 12 \<or> length ip + 4 > 16 then None
                else map_option (\<lambda>q. (ip @ q, ell, [])) (parseIPv4 s))
             else
               (let ip1 = ip @ [of_int (n div 256), of_int (n mod 256)] in
                if r = [] then Some (ip1, ell, [])
                else if hd r \<noteq> CHR '':'' \<or> length r = 1 then None
                else if hd (tl r) = CHR '':'' then
                  (if ell \<noteq> None then None
                   else if tl (tl r) = [] then Some (ip1, Some (length ip1), [])
                   else parse6_loop ip1 (Some (length ip1)) (tl (tl r)))
                else parse6_loop ip1 ell (tl r)))
      else Some (ip, ell, s))"
  by pat_completeness auto
termination
  by (relation "measure (\<lambda>(ip, ell, s). 16 - length ip)") auto

declare parse6_loop.simps [simp del]

definition parseIPv6 :: "string \<Rightarrow> bytes option" where
  "parseIPv6 s =
     (let lead = (take 2 s = ''::'') in
      if lead \<and> length s = 2 then Some (replicate 16 0)
      else do {
        (ip, ell, r) \<leftarrow> parse6_loop [] (if lead then Some 0 else None)
                          (if lead then drop 2 s else s);
        if r \<noteq> [] then None
        else if length ip < 16 then
          (case ell of
             None \<Rightarrow> None
           | Some e \<Rightarrow> Some (take e ip @ replicate (16 - length ip) 0 @ drop e ip))
        else if ell \<noteq> None then None
        else Some ip
      })"

text \<open>\<open>ParseIP\<close>: the first dot or colon decides; the result is nil or a slice of 16 bytes.\<close>

definition ParseIP :: "string \<Rightarrow> net_IP" where
  "ParseIP s =
     (case filter (\<lambda>c. c = CHR ''.'' \<or> c = CHR '':'') s of
        [] \<Rightarrow> None
      | c # _ \<Rightarrow> if c = CHR ''.'' then map_option ((@) v4InV6Prefix) (parseIPv4 s)
                 else parseIPv6 s)"

abbreviation ip_bytes :: "net_IP \<Rightarrow> bytes" where
  "ip_bytes ip \<equiv> (case ip of None \<Rightarrow> [] | Some b \<Rightarrow> b)"

definition To4 :: "net_IP \<Rightarrow> net_IP" where
  "To4 ip = (let b = ip_bytes ip in
     if length b = 4 then ip
     else if length b = 16 \<and> take 12 b = v4InV6Prefix then Some (drop 12 b) else None)"

definition To16 :: "net_IP \<Rightarrow> net_IP" where
  "To16 ip = (let b = ip_bytes ip in
     if length b = 4 then Some (v4InV6Prefix @ b)
     else if length b = 16 then ip else None)"

definition IP_Equal :: "net_IP \<Rightarrow> net_IP \<Rightarrow> bool" where
  "IP_Equal x y = (let a = ip_bytes x; b = ip_bytes y in
     if length a = length b then a = b
     else if length a = 4 \<and> length b = 16 then take 12 b = v4InV6Prefix \<and> a = drop 12 b
     else if length a = 16 \<and> length b = 4 then take 12 a = v4InV6Prefix \<and> drop 12 a = b
     else False)"

subsection \<open>Dotted quads\<close>

text \<open>The usual notation of an IPv4 address.\<close>

definition dotted_quad :: "u8 \<Rightarrow> u8 \<Rightarrow> u8 \<Rightarrow> u8 \<Rightarrow> string" where
  "dotted_quad a b c d = dec (unat a) @ CHR ''.'' # dec (unat b) @ CHR ''.'' #
     dec (unat c) @ CHR ''.'' # dec (unat d)"

lemma dot_not_in_dec: "CHR ''.'' \<notin> set (dec n)"
  using dec_digits [of "CHR ''.''" n] by (auto simp: is_digit_def char_code_def)

lemma dtoi_loop_digits:
  "0 \<le> n \<Longrightarrow> list_all is_digit s \<Longrightarrow> digits_val n s < big \<Longrightarrow> r = [] \<or> \<not> is_digit (hd r) \<Longrightarrow>
     dtoi_loop (s @ r) n = Some (digits_val n s, r)"
proof (induction s arbitrary: n)
  case Nil
  then show ?case by (cases r) (auto simp: digits_val_def)
next
  case (Cons c s)
  have d: "0 \<le> digit_val c" using Cons.prems by (simp add: digit_val_def is_digit_def)
  then have "n * 10 + digit_val c \<le> digits_val n (c # s)"
    using digits_val_ge [of "n * 10 + digit_val c" s] Cons.prems by (simp add: digits_val_def)
  with Cons d show ?case by (simp add: digits_val_def Let_def)
qed

lemma dtoi_dec:
  assumes "n < 256" and "r = [] \<or> \<not> is_digit (hd r)"
  shows "dtoi (dec n @ r) = Some (int n, r)"
proof -
  have "list_all is_digit (dec n)" and "is_digit (hd (dec n))"
    using dec_digits [of _ n] by (auto simp: list_all_iff)
  moreover have "digits_val 0 (dec n) < big"
    using assms by (simp add: digits_val_dec big_def)
  ultimately show ?thesis
    using assms by (simp add: dtoi_def dtoi_loop_digits digits_val_dec)
qed

lemma unat_u8: "unat (x :: u8) < 256" and uint_u8: "uint (x :: u8) \<le> 255"
proof -
  show "unat x < 256" by (rule order_less_le_trans [OF unsigned_less]) simp
  then have "int (unat x) \<le> 255" by linarith
  then show "uint x \<le> 255" by (simp only: uint_nat)
qed

lemma parseIPv4_dotted_quad: "parseIPv4 (dotted_quad a b c d) = Some [a, b, c, d]"
proof -
  have nd: "\<not> is_digit CHR ''.''" by (simp add: is_digit_def char_code_def)
  have le: "\<not> 255 < uint (x :: u8)" for x using uint_u8 [of x] by simp
  have four: "4 = Suc (Suc (Suc (Suc 0)))" by simp
  show ?thesis
    unfolding parseIPv4_def dotted_quad_def four
    using dtoi_dec [of "unat d" "[]"] by (simp add: dtoi_dec nd le unat_u8)
qed

text \<open>\<open>ParseIP\<close> of a dotted quad is the 16-byte form of these four bytes.\<close>

lemma ParseIP_dotted_quad:
  "ParseIP (dotted_quad a b c d) = Some (v4InV6Prefix @ [a, b, c, d])"
proof -
  have colon: "CHR '':'' \<notin> set (dec n)" for n
    using dec_digits [of "CHR '':''" n] by (auto simp: is_digit_def char_code_def)
  then have none: "filter (\<lambda>c. c = CHR ''.'' \<or> c = CHR '':'') (dec n) = []" for n
    using dot_not_in_dec [of n] by (auto simp: filter_empty_conv)
  have "filter (\<lambda>c. c = CHR ''.'' \<or> c = CHR '':'') (dotted_quad a b c d) = ''...''"
    by (simp add: dotted_quad_def none)
  then show ?thesis by (simp add: ParseIP_def parseIPv4_dotted_quad)
qed

lemma length_v4InV6Prefix [simp]: "length v4InV6Prefix = 12"
  by (simp add: v4InV6Prefix_def)

lemma To4_v4 [simp]: "length b = 4 \<Longrightarrow> To4 (Some (v4InV6Prefix @ b)) = Some b"
  by (simp add: To4_def)

lemma To4_length: "To4 ip = Some b \<Longrightarrow> length b = 4"
  by (auto simp: To4_def Let_def split: if_splits option.splits)

lemma parse4_loop_length: "parse4_loop k first s = Some b \<Longrightarrow> length b = k"
  by (induction k first s arbitrary: b rule: parse4_loop.induct)
     (auto split: if_splits prod.splits simp: Option.bind_eq_Some_conv)

text \<open>A text with no colon parses to nil or to an address that \<open>To4\<close> accepts.\<close>

lemma ParseIP_no_colon:
  assumes "CHR '':'' \<notin> set s" and "ParseIP s = Some b"
  shows "\<exists>q. length q = 4 \<and> b = v4InV6Prefix @ q"
proof -
  define f where "f = filter (\<lambda>c. c = CHR ''.'' \<or> c = CHR '':'') s"
  have dot: "c = CHR ''.''" if "c \<in> set f" for c
    using that assms(1) by (auto simp: f_def)
  have P: "ParseIP s = (case f of [] \<Rightarrow> None
      | c # _ \<Rightarrow> if c = CHR ''.'' then map_option ((@) v4InV6Prefix) (parseIPv4 s)
                 else parseIPv6 s)"
    by (simp only: ParseIP_def f_def)
  obtain c cs where "f = c # cs" using assms(2) P by (cases f) auto
  with dot P assms(2) have "map_option ((@) v4InV6Prefix) (parseIPv4 s) = Some b"
    by simp
  then show ?thesis
    by (auto simp: parseIPv4_def dest: parse4_loop_length)
qed

lemma To4_cases:
  assumes "To4 x = Some a"
  obtains "x = Some a" "length a = 4" | "x = Some (v4InV6Prefix @ a)" "length a = 4"
proof -
  obtain b where x: "x = Some b" using assms by (cases x) (auto simp: To4_def)
  show ?thesis
  proof (cases "length b = 4")
    case True
    with assms x that(1) show ?thesis by (simp add: To4_def)
  next
    case False
    with assms x have "length b = 16" "take 12 b = v4InV6Prefix" "a = drop 12 b"
      by (auto simp: To4_def Let_def split: if_splits)
    with x have "x = Some (v4InV6Prefix @ a)" "length a = 4"
      by (metis append_take_drop_id, simp)
    then show ?thesis by (rule that(2))
  qed
qed

lemma IP_Equal_To4:
  assumes "To4 x = Some a" and "To4 y = Some b"
  shows "IP_Equal x y \<longleftrightarrow> a = b"
  using assms(1)
proof (cases rule: To4_cases)
  case 1
  with assms(2) show ?thesis by (cases rule: To4_cases) (auto simp: IP_Equal_def)
next
  case 2
  with assms(2) show ?thesis by (cases rule: To4_cases) (auto simp: IP_Equal_def)
qed

end
