(* ===== verification/LB_Store.thy ===== *)
theory LB_Store
  imports Go_Lib
begin

text \<open>
  \<open>pkg/controller/utils.go\<close>: the store of one synchronisation item (\<open>LBStore\<close>), the
  comparison of two port tables (\<open>L4Compare\<close>) and the two validators. The three maps
  \<open>L4Compare\<close> mutates are its arguments and its results. Logging is left out.
\<close>

section \<open>The store\<close>

definition addition :: string where "addition = ''adding''"
definition deletion :: string where "deletion = ''deleting''"

definition errPort :: u16 where "errPort = 0"
definition errAddr :: net_IP where "errAddr = Some (bytes_of_string ''0.0.0.0'')"

text \<open>The layer 7 ports; no function of the program uses them.\<close>

definition L7 :: "string list" where "L7 = [''80'', ''443'']"

record LBStore =
  Addr :: "(string, net_IP) gomap"
  Tcp :: "(u16, string) gomap"
  Udp :: "(u16, string) gomap"

definition NewLBStore :: LBStore where
  "NewLBStore = \<lparr>Addr = [], Tcp = [], Udp = []\<rparr>"

text \<open>The accessors are stubs in the code: they return nil and change nothing.\<close>

definition AddrGet :: "LBStore \<Rightarrow> (string, net_IP) gomap option" where
  "AddrGet lb = None"

definition AddrSet :: "LBStore \<Rightarrow> (string, net_IP) gomap \<Rightarrow> error option \<times> LBStore" where
  "AddrSet lb addrs = (None, lb)"

definition L4Set :: "LBStore \<Rightarrow> (u16, string) gomap \<Rightarrow> error option \<times> LBStore" where
  "L4Set lb ports = (None, lb)"

definition L4Get :: "LBStore \<Rightarrow> (u16, string) gomap option" where
  "L4Get lb = None"

definition wf_LBStore :: "LBStore \<Rightarrow> bool" where
  "wf_LBStore lb \<longleftrightarrow> go_wf (Addr lb) \<and> go_wf (Tcp lb) \<and> go_wf (Udp lb)"

lemma wf_NewLBStore [simp]: "wf_LBStore NewLBStore"
  by (simp add: wf_LBStore_def NewLBStore_def)

section \<open>L4Compare\<close>

type_synonym ports = "(u16, string) gomap"

text \<open>The bodies of the two loops that fill the delta, and of the loop that replaces the old map.\<close>

definition mark_new :: "ports \<Rightarrow> u16 \<Rightarrow> ports \<Rightarrow> ports" where
  "mark_new oldOne port deltaOne =
     (if go_has oldOne port then deltaOne else go_put port addition deltaOne)"

definition mark_dead :: "ports \<Rightarrow> u16 \<Rightarrow> ports \<Rightarrow> ports" where
  "mark_dead newOne port deltaOne =
     (if go_has newOne port then deltaOne else go_put port deletion deltaOne)"

fun move_key :: "u16 \<Rightarrow> ports \<times> ports \<Rightarrow> ports \<times> ports" where
  "move_key key (oldOne, newOne) =
     (go_put key (go_get_str newOne key) oldOne, go_del key newOne)"

text \<open>
  The result is the triple of the three maps after the call. The range loops are numbered
  in the order the code has them.
\<close>

definition L4Compare :: "orders \<Rightarrow> ports \<Rightarrow> ports \<Rightarrow> ports \<Rightarrow> ports \<times> ports \<times> ports" where
  "L4Compare ord oldOne newOne deltaOne =
     (if go_map_eq oldOne newOne then (oldOne, newOne, deltaOne)
      else
        let d1 = delete_keys (port_order ord 0 (go_keys deltaOne)) deltaOne;
            d2 = fold (mark_new oldOne) (port_order ord 1 (go_keys newOne)) d1;
            d3 = fold (mark_dead newOne) (port_order ord 2 (go_keys oldOne)) d2;
            o1 = delete_keys (port_order ord 3 (go_keys d3)) oldOne;
            (o2, n2) = fold move_key (port_order ord 4 (go_keys newOne)) (o1, newOne)
        in (o2, n2, d3))"

text \<open>
  What the delta means: a port only the new table has is to be added, a port only the old
  table has is to be deleted, and no other port is mentioned.
\<close>

definition port_delta :: "ports \<Rightarrow> ports \<Rightarrow> u16 \<Rightarrow> string option" where
  "port_delta oldOne newOne port =
     (if go_has newOne port \<and> \<not> go_has oldOne port then Some addition
      else if go_has oldOne port \<and> \<not> go_has newOne port then Some deletion else None)"

lemma map_of_fold_mark_new:
  "map_of (fold (mark_new old) ks d) =
     (\<lambda>p. if p \<in> set ks \<and> \<not> go_has old p then Some addition else map_of d p)"
  by (induction ks arbitrary: d) (auto simp: mark_new_def fun_eq_iff)

lemma map_of_fold_mark_dead:
  "map_of (fold (mark_dead new) ks d) =
     (\<lambda>p. if p \<in> set ks \<and> \<not> go_has new p then Some deletion else map_of d p)"
  by (induction ks arbitrary: d) (auto simp: mark_dead_def fun_eq_iff)

lemma go_wf_fold_mark:
  "go_wf d \<Longrightarrow> go_wf (fold (mark_new old) ks d)"
  "go_wf d \<Longrightarrow> go_wf (fold (mark_dead new) ks d)"
  by (induction ks arbitrary: d) (simp_all add: mark_new_def mark_dead_def)

lemma fold_move_key:
  assumes "distinct ks" and "fold move_key ks (old, new) = (old', new')"
  shows "map_of old' = (\<lambda>p. if p \<in> set ks then Some (go_get_str new p) else map_of old p)
     \<and> map_of new' = (\<lambda>p. if p \<in> set ks then None else map_of new p)"
  using assms
proof (induction ks arbitrary: old new)
  case (Cons k ks)
  have g: "go_get_str (go_del k new) p = (if p = k then [] else go_get_str new p)" for p
    by (simp add: go_get_str_def)
  have "fold move_key ks (go_put k (go_get_str new k) old, go_del k new) = (old', new')"
    using Cons.prems by simp
  from Cons.IH [OF _ this] Cons.prems show ?case
    by (auto simp: g fun_eq_iff)
qed auto

lemma go_wf_fold_move_key:
  "go_wf old \<Longrightarrow> go_wf new \<Longrightarrow> fold move_key ks (old, new) = (old', new') \<Longrightarrow>
     go_wf old' \<and> go_wf new'"
proof (induction ks arbitrary: old new)
  case (Cons k ks)
  then have "fold move_key ks (go_put k (go_get_str new k) old, go_del k new) = (old', new')"
    by simp
  then show ?case using Cons.IH [of "go_put k (go_get_str new k) old" "go_del k new"] Cons.prems
    by simp
qed simp

lemma L4Compare_wf:
  assumes "go_wf old" "go_wf new" "go_wf delta" "L4Compare ord old new delta = (old', new', delta')"
  shows "go_wf old' \<and> go_wf new' \<and> go_wf delta'"
  using assms
  by (auto simp: L4Compare_def Let_def go_wf_fold_mark split: if_splits prod.splits
      dest: go_wf_fold_move_key [rotated 2])

lemma L4Compare_unchanged:
  assumes "go_wf old" and "go_wf new" and "map_of old = map_of new"
  shows "L4Compare ord old new delta = (old, new, delta)"
  using assms by (simp add: L4Compare_def go_map_eq_iff)

lemma L4Compare_changed:
  assumes wf: "go_wf old" "go_wf new" and fair: "fair_orders ord"
    and ne: "map_of old \<noteq> map_of new"
    and res: "L4Compare ord old new delta = (old', new', delta')"
  shows "map_of old' = map_of new \<and> new' = [] \<and> map_of delta' = port_delta old new"
proof -
  define d1 where "d1 = delete_keys (port_order ord 0 (go_keys delta)) delta"
  define d2 where "d2 = fold (mark_new old) (port_order ord 1 (go_keys new)) d1"
  define d3 where "d3 = fold (mark_dead new) (port_order ord 2 (go_keys old)) d2"
  define o1 where "o1 = delete_keys (port_order ord 3 (go_keys d3)) old"
  have res': "fold move_key (port_order ord 4 (go_keys new)) (o1, new) = (old', new')"
    and d': "delta' = d3"
    using res ne wf
    by (auto simp: L4Compare_def go_map_eq_iff Let_def d1_def d2_def d3_def o1_def
        split: prod.splits)
  have "d1 = []"
    unfolding d1_def using fair by (intro delete_all_keys) simp
  then have d3: "map_of d3 = port_delta old new"
    using fair unfolding d3_def d2_def
    by (auto simp: map_of_fold_mark_new map_of_fold_mark_dead port_delta_def fun_eq_iff go_has_dom)
  have mv: "map_of old' = (\<lambda>p. if p \<in> dom (map_of new) then Some (go_get_str new p) else map_of o1 p)"
    "map_of new' = (\<lambda>p. if p \<in> dom (map_of new) then None else map_of new p)"
    using fold_move_key [OF _ res'] fair wf by (simp_all add: go_wf_def)
  have "map_of old' p = map_of new p" for p
  proof (cases "map_of new p")
    case None
    then have "map_of o1 p = None"
      using fair d3 unfolding o1_def
      by (auto simp: map_of_delete_keys port_delta_def go_has_dom domIff split: if_splits)
    with None mv show ?thesis by (simp add: domIff)
  qed (simp add: mv domIff go_get_str_def)
  moreover have "map_of new' = Map.empty"
    using mv(2) by (auto simp: fun_eq_iff domIff)
  ultimately show ?thesis using d' d3 by auto
qed

section \<open>The validators\<close>

text \<open>The loop over the dot-separated parts; \<open>False\<close> is the early return.\<close>

fun octets_ok :: "string list \<Rightarrow> bool" where
  "octets_ok [] = True"
| "octets_ok (x # xs) =
     (case Atoi x of
        (i, None) \<Rightarrow> if i < 0 \<or> i > 255 then False else octets_ok xs
      | (i, Some _) \<Rightarrow> False)"

definition ValidateIPv4 :: "string \<Rightarrow> bool \<times> net_IP" where
  "ValidateIPv4 ipv4 =
     (let parts = Split ipv4 CHR ''.'' in
      if length parts < 4 then (False, errAddr)
      else if \<not> octets_ok parts then (False, errAddr)
      else (True, Some (bytes_of_string ipv4)))"

text \<open>\<open>uint16(iport)\<close> of a 64-bit integer keeps the low 16 bits.\<close>

definition ValidatePort :: "string \<Rightarrow> bool \<times> u16" where
  "ValidatePort port =
     (case Atoi port of
        (p, None) \<Rightarrow>
          if p < 0 \<or> p > 99999 then (False, errPort)
          else (let (iport, err) = Atoi port in (True, of_int iport))
      | (p, Some _) \<Rightarrow> (False, errPort))"

lemma ValidatePort_eq:
  "ValidatePort s =
     (case Atoi s of (p, None) \<Rightarrow> if 0 \<le> p \<and> p \<le> 99999 then (True, of_int p) else (False, 0)
      | (p, Some _) \<Rightarrow> (False, 0))"
  by (auto simp: ValidatePort_def errPort_def split: prod.splits option.splits)

lemma ValidatePort_dec: "n \<le> 99999 \<Longrightarrow> ValidatePort (dec n) = (True, of_nat n)"
  by (simp add: ValidatePort_eq Atoi_dec)

lemma octets_ok_iff:
  "octets_ok xs \<longleftrightarrow> (\<forall>x \<in> set xs. \<exists>i. Atoi x = (i, None) \<and> 0 \<le> i \<and> i \<le> 255)"
  by (induction xs) (auto split: prod.splits option.splits)

lemma Split_dotted_quad:
  "Split (dotted_quad a b c d) CHR ''.'' = map (\<lambda>x. dec (unat x)) [a, b, c, d]"
  by (simp add: dotted_quad_def Split_prefix Split_no_sep dot_not_in_dec)

lemma ValidateIPv4_quad:
  "ValidateIPv4 (dotted_quad a b c d) = (True, Some (bytes_of_string (dotted_quad a b c d)))"
proof -
  have lt: "unat (x :: u8) < 2 ^ 63" for x
    using unat_u8 [of x] by simp
  have le: "int (unat (x :: u8)) \<le> 255" for x
    using unat_u8 [of x] by linarith
  from lt le have "octets_ok (map (\<lambda>x. dec (unat x)) [a, b, c, d])"
    by (auto simp: octets_ok_iff Atoi_dec simp del: of_nat_unat)
  then show ?thesis by (simp add: ValidateIPv4_def Split_dotted_quad)
qed

text \<open>An accepted address is text without a colon, so \<open>ParseIP\<close> never reads it as IPv6.\<close>

lemma Split_mem: "c \<in> set s \<Longrightarrow> c \<noteq> sep \<Longrightarrow> \<exists>p \<in> set (Split s sep). c \<in> set p"
  by (induction s) (auto split: list.splits)

lemma ValidateIPv4_True:
  assumes "ValidateIPv4 s = (True, ip)"
  shows "ip = Some (bytes_of_string s) \<and> CHR '':'' \<notin> set s"
proof -
  from assms have ip: "ip = Some (bytes_of_string s)" and ok: "octets_ok (Split s CHR ''.'')"
    by (auto simp: ValidateIPv4_def Let_def split: if_splits)
  have "CHR '':'' \<notin> set p" if "p \<in> set (Split s CHR ''.'')" for p
  proof -
    from ok that obtain i where "Atoi p = (i, None)" by (auto simp: octets_ok_iff)
    from Atoi_Some [OF this] show ?thesis
      by (cases p) (auto simp: strip_sign_def list_all_iff is_digit_def char_code_def split: if_splits)
  qed
  with Split_mem [of "CHR '':''" s "CHR ''.''"] ip show ?thesis by auto
qed

end
