(* ===== verification/Libipvs.thy ===== *)
theory Libipvs
  imports Go_Lib
begin

unbundle bit_operations_syntax

text \<open>
  \<open>vendor/github.com/mqliang/libipvs\<close>, the netlink client the manager talks to the kernel
  with: the \<open>Service\<close> and \<open>Destination\<close> structs (\<open>api.go\<close>), their packing into netlink
  attributes and back (\<open>api.go\<close>, \<open>utils.go\<close>), and the methods of \<open>Handle\<close>
  (\<open>ipvs.go\<close>). The socket, \<open>genlHub.Sync\<close>, is the parameter \<open>sync\<close>; a response
  message carries its attributes already parsed, or the error of parsing them. Packing panics
  on an incomplete service or an address of the wrong family, and so does the model
  (\<open>None\<close>). The list methods return the list as it is after the command has run.
\<close>

abbreviation (input) AF_INET :: u16 where "AF_INET \<equiv> 2"
abbreviation (input) AF_INET6 :: u16 where "AF_INET6 \<equiv> 10"
abbreviation (input) IPPROTO_TCP :: u16 where "IPPROTO_TCP \<equiv> 6"
abbreviation (input) IPPROTO_UDP :: u16 where "IPPROTO_UDP \<equiv> 17"

section \<open>Structs\<close>

record Flags =
  f_Flags :: u32
  f_Mask :: u32

record Stats =
  st_Connections :: u32
  st_PacketsIn :: u32
  st_PacketsOut :: u32
  st_BytesIn :: "64 word"
  st_BytesOut :: "64 word"
  st_CPS :: u32
  st_PPSIn :: u32
  st_PPSOut :: u32
  st_BPSIn :: u32
  st_BPSOut :: u32

record Service =
  s_Address :: net_IP
  s_Protocol :: u16
  s_Port :: u16
  s_FWMark :: u32
  s_SchedName :: string
  s_Flags :: Flags
  s_Timeout :: u32
  s_Netmask :: u32
  s_AddressFamily :: u16
  s_PEName :: string
  s_Stats :: Stats

record Destination =
  d_AddressFamily :: u16
  d_Address :: net_IP
  d_Port :: u16
  d_FwdMethod :: u32
  d_Weight :: u32
  d_UThresh :: u32
  d_LThresh :: u32
  d_ActiveConns :: u32
  d_InactConns :: u32
  d_PersistConns :: u32
  d_Stats :: Stats

text \<open>The zero values of the structs.\<close>

definition zero_Flags :: Flags where
  "zero_Flags = \<lparr>f_Flags = 0, f_Mask = 0\<rparr>"

definition zero_Stats :: Stats where
  "zero_Stats = \<lparr>st_Connections = 0, st_PacketsIn = 0, st_PacketsOut = 0, st_BytesIn = 0,
     st_BytesOut = 0, st_CPS = 0, st_PPSIn = 0, st_PPSOut = 0, st_BPSIn = 0, st_BPSOut = 0\<rparr>"

definition zero_Service :: Service where
  "zero_Service = \<lparr>s_Address = None, s_Protocol = 0, s_Port = 0, s_FWMark = 0, s_SchedName = [],
     s_Flags = zero_Flags, s_Timeout = 0, s_Netmask = 0, s_AddressFamily = 0, s_PEName = [],
     s_Stats = zero_Stats\<rparr>"

definition zero_Destination :: Destination where
  "zero_Destination = \<lparr>d_AddressFamily = 0, d_Address = None, d_Port = 0, d_FwdMethod = 0,
     d_Weight = 0, d_UThresh = 0, d_LThresh = 0, d_ActiveConns = 0, d_InactConns = 0,
     d_PersistConns = 0, d_Stats = zero_Stats\<rparr>"

text \<open>The forwarding methods of \<open>constants.go\<close>.\<close>

definition IP_VS_CONN_F_MASQ :: u32 where "IP_VS_CONN_F_MASQ = 0"
definition IP_VS_CONN_F_DROUTE :: u32 where "IP_VS_CONN_F_DROUTE = 3"

section \<open>Attribute values and their encodings\<close>

datatype nlval = U16 u16 | U32 u32 | U64 "64 word" | Bin bytes | NulStr string
  | AttrMap "(u16 \<times> nlval) list"

type_synonym nlattrs = "(u16 \<times> nlval) list"

definition htons :: "u16 \<Rightarrow> u16" where
  "htons value = push_bit 8 (value AND 0x00ff) OR drop_bit 8 (value AND 0xff00)"

definition ntohs :: "u16 \<Rightarrow> u16" where
  "ntohs value = push_bit 8 (value AND 0x00ff) OR drop_bit 8 (value AND 0xff00)"

definition packPort :: "u16 \<Rightarrow> nlval" where
  "packPort port = U16 (htons port)"

definition packAddr :: "u16 \<Rightarrow> net_IP \<Rightarrow> bytes option" where
  "packAddr af addr =
     (if af = AF_INET then To4 addr else if af = AF_INET6 then To16 addr else None)"

definition unpackAddr :: "bytes \<Rightarrow> u16 \<Rightarrow> error + bytes" where
  "unpackAddr buf af =
     (if af \<noteq> AF_INET \<and> af \<noteq> AF_INET6 then Inl (Errorp ''ipvs: unknown af'')
      else let size = (if af = AF_INET then 4 else 16) in
        if size > length buf then Inl (Errorp ''ipvs: short af'') else Inr (take size buf))"

text \<open>The in-memory form of a 32-bit field on the little-endian target.\<close>

definition le32 :: "u32 \<Rightarrow> bytes" where
  "le32 w = map (\<lambda>i. ucast (drop_bit (8 * i) w)) [0, 1, 2, 3]"

definition of_le32 :: "bytes \<Rightarrow> u32" where
  "of_le32 b = foldr (\<lambda>x acc. push_bit 8 acc OR ucast x) b 0"

definition pack_Flags :: "Flags \<Rightarrow> bytes" where
  "pack_Flags f = le32 (f_Flags f) @ le32 (f_Mask f)"

definition unpack_Flags :: "bytes \<Rightarrow> error + Flags" where
  "unpack_Flags value =
     (if length value \<noteq> 8 then Inl (Errorp ''ipvs: unexpected flags'')
      else Inr \<lparr>f_Flags = of_le32 (take 4 value), f_Mask = of_le32 (drop 4 value)\<rparr>)"

abbreviation (input) "IPVS_CMD_ATTR_SERVICE \<equiv> 1 :: u16"
abbreviation (input) "IPVS_CMD_ATTR_DEST \<equiv> 2 :: u16"

abbreviation (input) "IPVS_SVC_ATTR_AF \<equiv> 1 :: u16"
abbreviation (input) "IPVS_SVC_ATTR_PROTOCOL \<equiv> 2 :: u16"
abbreviation (input) "IPVS_SVC_ATTR_ADDR \<equiv> 3 :: u16"
abbreviation (input) "IPVS_SVC_ATTR_PORT \<equiv> 4 :: u16"
abbreviation (input) "IPVS_SVC_ATTR_FWMARK \<equiv> 5 :: u16"
abbreviation (input) "IPVS_SVC_ATTR_SCHED_NAME \<equiv> 6 :: u16"
abbreviation (input) "IPVS_SVC_ATTR_FLAGS \<equiv> 7 :: u16"
abbreviation (input) "IPVS_SVC_ATTR_TIMEOUT \<equiv> 8 :: u16"
abbreviation (input) "IPVS_SVC_ATTR_NETMASK \<equiv> 9 :: u16"
abbreviation (input) "IPVS_SVC_ATTR_STATS \<equiv> 10 :: u16"

abbreviation (input) "IPVS_DEST_ATTR_ADDR \<equiv> 1 :: u16"
abbreviation (input) "IPVS_DEST_ATTR_PORT \<equiv> 2 :: u16"
abbreviation (input) "IPVS_DEST_ATTR_FWD_METHOD \<equiv> 3 :: u16"
abbreviation (input) "IPVS_DEST_ATTR_WEIGHT \<equiv> 4 :: u16"
abbreviation (input) "IPVS_DEST_ATTR_U_THRESH \<equiv> 5 :: u16"
abbreviation (input) "IPVS_DEST_ATTR_L_THRESH \<equiv> 6 :: u16"
abbreviation (input) "IPVS_DEST_ATTR_ACTIVE_CONNS \<equiv> 7 :: u16"
abbreviation (input) "IPVS_DEST_ATTR_INACT_CONNS \<equiv> 8 :: u16"
abbreviation (input) "IPVS_DEST_ATTR_PERSIST_CONNS \<equiv> 9 :: u16"
abbreviation (input) "IPVS_DEST_ATTR_STATS \<equiv> 10 :: u16"
abbreviation (input) "IPVS_DEST_ATTR_ADDR_FAMILY \<equiv> 11 :: u16"

text \<open>
  Packing a service: by its firewall mark if it has one, else by protocol, address and port,
  which must all be set.
\<close>

definition service_id_attrs :: "Service \<Rightarrow> nlattrs option" where
  "service_id_attrs s =
     (if s_FWMark s \<noteq> 0 then
        Some [(IPVS_SVC_ATTR_AF, U16 (s_AddressFamily s)), (IPVS_SVC_ATTR_FWMARK, U32 (s_FWMark s))]
      else if s_Protocol s \<noteq> 0 \<and> s_Address s \<noteq> None \<and> s_Port s \<noteq> 0 then do {
        a \<leftarrow> packAddr (s_AddressFamily s) (s_Address s);
        Some [(IPVS_SVC_ATTR_AF, U16 (s_AddressFamily s)), (IPVS_SVC_ATTR_PROTOCOL, U16 (s_Protocol s)),
              (IPVS_SVC_ATTR_ADDR, Bin a), (IPVS_SVC_ATTR_PORT, packPort (s_Port s))]
      }
      else None)"

definition service_attrs :: "bool \<Rightarrow> Service \<Rightarrow> nlattrs option" where
  "service_attrs full s = do {
     ids \<leftarrow> service_id_attrs s;
     Some (ids @ (if full then
       [(IPVS_SVC_ATTR_SCHED_NAME, NulStr (s_SchedName s)), (IPVS_SVC_ATTR_FLAGS, Bin (pack_Flags (s_Flags s))),
        (IPVS_SVC_ATTR_TIMEOUT, U32 (s_Timeout s)), (IPVS_SVC_ATTR_NETMASK, U32 (s_Netmask s))]
       else []))
   }"

definition destination_attrs :: "bool \<Rightarrow> Destination \<Rightarrow> nlattrs option" where
  "destination_attrs full d = do {
     a \<leftarrow> packAddr (d_AddressFamily d) (d_Address d);
     Some ([(IPVS_DEST_ATTR_ADDR_FAMILY, U16 (d_AddressFamily d)), (IPVS_DEST_ATTR_ADDR, Bin a),
            (IPVS_DEST_ATTR_PORT, packPort (d_Port d))] @
       (if full then
         [(IPVS_DEST_ATTR_FWD_METHOD, U32 (d_FwdMethod d)), (IPVS_DEST_ATTR_WEIGHT, U32 (d_Weight d)),
          (IPVS_DEST_ATTR_U_THRESH, U32 (d_UThresh d)), (IPVS_DEST_ATTR_L_THRESH, U32 (d_LThresh d))]
        else []))
   }"

section \<open>Unpacking\<close>

text \<open>Type assertions: a value of another type is a panic.\<close>

fun the_U16 :: "nlval \<Rightarrow> u16 option" where "the_U16 (U16 x) = Some x" | "the_U16 _ = None"
fun the_U32 :: "nlval \<Rightarrow> u32 option" where "the_U32 (U32 x) = Some x" | "the_U32 _ = None"
fun the_U64 :: "nlval \<Rightarrow> 64 word option" where "the_U64 (U64 x) = Some x" | "the_U64 _ = None"
fun the_Bin :: "nlval \<Rightarrow> bytes option" where "the_Bin (Bin x) = Some x" | "the_Bin _ = None"
fun the_NulStr :: "nlval \<Rightarrow> string option" where "the_NulStr (NulStr x) = Some x" | "the_NulStr _ = None"
fun the_AttrMap :: "nlval \<Rightarrow> nlattrs option" where "the_AttrMap (AttrMap x) = Some x" | "the_AttrMap _ = None"

fun unpackStats_loop :: "nlattrs \<Rightarrow> Stats \<Rightarrow> Stats option" where
  "unpackStats_loop [] st = Some st"
| "unpackStats_loop ((f, v) # as) st =
     (if f = 1 then do {x \<leftarrow> the_U32 v; unpackStats_loop as (st\<lparr>st_Connections := x\<rparr>)}
      else if f = 2 then do {x \<leftarrow> the_U32 v; unpackStats_loop as (st\<lparr>st_PacketsIn := x\<rparr>)}
      else if f = 3 then do {x \<leftarrow> the_U32 v; unpackStats_loop as (st\<lparr>st_PacketsOut := x\<rparr>)}
      else if f = 4 then do {x \<leftarrow> the_U64 v; unpackStats_loop as (st\<lparr>st_BytesIn := x\<rparr>)}
      else if f = 5 then do {x \<leftarrow> the_U64 v; unpackStats_loop as (st\<lparr>st_BytesOut := x\<rparr>)}
      else if f = 6 then do {x \<leftarrow> the_U32 v; unpackStats_loop as (st\<lparr>st_CPS := x\<rparr>)}
      else if f = 7 then do {x \<leftarrow> the_U32 v; unpackStats_loop as (st\<lparr>st_PPSIn := x\<rparr>)}
      else if f = 8 then do {x \<leftarrow> the_U32 v; unpackStats_loop as (st\<lparr>st_PPSOut := x\<rparr>)}
      else if f = 9 then do {x \<leftarrow> the_U32 v; unpackStats_loop as (st\<lparr>st_BPSIn := x\<rparr>)}
      else if f = 10 then do {x \<leftarrow> the_U32 v; unpackStats_loop as (st\<lparr>st_BPSOut := x\<rparr>)}
      else unpackStats_loop as st)"

definition unpackStats :: "nlval \<Rightarrow> Stats option" where
  "unpackStats v = do {as \<leftarrow> the_AttrMap v; unpackStats_loop as zero_Stats}"

text \<open>The attribute loops carry the struct and the local variables \<open>addr\<close> and \<open>flags\<close>.\<close>

fun unpackService_loop :: "nlattrs \<Rightarrow> Service \<Rightarrow> bytes \<Rightarrow> bytes \<Rightarrow> (Service \<times> bytes \<times> bytes) option" where
  "unpackService_loop [] s addr flags = Some (s, addr, flags)"
| "unpackService_loop ((f, v) # as) s addr flags =
     (if f = IPVS_SVC_ATTR_AF then
        do {x \<leftarrow> the_U16 v; unpackService_loop as (s\<lparr>s_AddressFamily := x\<rparr>) addr flags}
      else if f = IPVS_SVC_ATTR_PROTOCOL then
        do {x \<leftarrow> the_U16 v; unpackService_loop as (s\<lparr>s_Protocol := x\<rparr>) addr flags}
      else if f = IPVS_SVC_ATTR_ADDR then
        do {x \<leftarrow> the_Bin v; unpackService_loop as s x flags}
      else if f = IPVS_SVC_ATTR_PORT then
        do {x \<leftarrow> the_U16 v; unpackService_loop as (s\<lparr>s_Port := ntohs x\<rparr>) addr flags}
      else if f = IPVS_SVC_ATTR_FWMARK then
        do {x \<leftarrow> the_U32 v; unpackService_loop as (s\<lparr>s_FWMark := x\<rparr>) addr flags}
      else if f = IPVS_SVC_ATTR_SCHED_NAME then
        do {x \<leftarrow> the_NulStr v; unpackService_loop as (s\<lparr>s_SchedName := x\<rparr>) addr flags}
      else if f = IPVS_SVC_ATTR_FLAGS then
        do {x \<leftarrow> the_Bin v; unpackService_loop as s addr x}
      else if f = IPVS_SVC_ATTR_TIMEOUT then
        do {x \<leftarrow> the_U32 v; unpackService_loop as (s\<lparr>s_Timeout := x\<rparr>) addr flags}
      else if f = IPVS_SVC_ATTR_NETMASK then
        do {x \<leftarrow> the_U32 v; unpackService_loop as (s\<lparr>s_Netmask := x\<rparr>) addr flags}
      else if f = IPVS_SVC_ATTR_STATS then
        do {x \<leftarrow> unpackStats v; unpackService_loop as (s\<lparr>s_Stats := x\<rparr>) addr flags}
      else unpackService_loop as s addr flags)"

definition unpackService :: "nlattrs \<Rightarrow> (error + Service) option" where
  "unpackService attrs = do {
     (s, addr, flags) \<leftarrow> unpackService_loop attrs zero_Service [] [];
     Some (case unpackAddr addr (s_AddressFamily s) of
       Inl e \<Rightarrow>
         if s_FWMark s = 0 then Inl (Errorf ''ipvs:Service.unpack: addr'' e)
         else (case unpack_Flags flags of
             Inl e \<Rightarrow> Inl (Errorf ''ipvs:Service.unpack: flags'' e)
           | Inr fl \<Rightarrow> Inr (s\<lparr>s_Address := None, s_Flags := fl\<rparr>))
     | Inr ip \<Rightarrow>
         (case unpack_Flags flags of
             Inl e \<Rightarrow> Inl (Errorf ''ipvs:Service.unpack: flags'' e)
           | Inr fl \<Rightarrow> Inr (s\<lparr>s_Address := Some ip, s_Flags := fl\<rparr>)))
   }"

fun unpackDest_loop :: "nlattrs \<Rightarrow> Destination \<Rightarrow> bytes \<Rightarrow> (Destination \<times> bytes) option" where
  "unpackDest_loop [] d addr = Some (d, addr)"
| "unpackDest_loop ((f, v) # as) d addr =
     (if f = IPVS_DEST_ATTR_ADDR_FAMILY then
        do {x \<leftarrow> the_U16 v; unpackDest_loop as (d\<lparr>d_AddressFamily := x\<rparr>) addr}
      else if f = IPVS_DEST_ATTR_ADDR then
        do {x \<leftarrow> the_Bin v; unpackDest_loop as d x}
      else if f = IPVS_DEST_ATTR_PORT then
        do {x \<leftarrow> the_U16 v; unpackDest_loop as (d\<lparr>d_Port := ntohs x\<rparr>) addr}
      else if f = IPVS_DEST_ATTR_FWD_METHOD then
        do {x \<leftarrow> the_U32 v; unpackDest_loop as (d\<lparr>d_FwdMethod := x\<rparr>) addr}
      else if f = IPVS_DEST_ATTR_WEIGHT then
        do {x \<leftarrow> the_U32 v; unpackDest_loop as (d\<lparr>d_Weight := x\<rparr>) addr}
      else if f = IPVS_DEST_ATTR_U_THRESH then
        do {x \<leftarrow> the_U32 v; unpackDest_loop as (d\<lparr>d_UThresh := x\<rparr>) addr}
      else if f = IPVS_DEST_ATTR_L_THRESH then
        do {x \<leftarrow> the_U32 v; unpackDest_loop as (d\<lparr>d_LThresh := x\<rparr>) addr}
      else if f = IPVS_DEST_ATTR_ACTIVE_CONNS then
        do {x \<leftarrow> the_U32 v; unpackDest_loop as (d\<lparr>d_ActiveConns := x\<rparr>) addr}
      else if f = IPVS_DEST_ATTR_INACT_CONNS then
        do {x \<leftarrow> the_U32 v; unpackDest_loop as (d\<lparr>d_InactConns := x\<rparr>) addr}
      else if f = IPVS_DEST_ATTR_PERSIST_CONNS then
        do {x \<leftarrow> the_U32 v; unpackDest_loop as (d\<lparr>d_PersistConns := x\<rparr>) addr}
      else if f = IPVS_DEST_ATTR_STATS then
        do {x \<leftarrow> unpackStats v; unpackDest_loop as (d\<lparr>d_Stats := x\<rparr>) addr}
      else unpackDest_loop as d addr)"

definition unpackDest :: "nlattrs \<Rightarrow> u16 \<Rightarrow> (error + Destination) option" where
  "unpackDest attrs serverAddressFamily = do {
     (d0, addr) \<leftarrow> unpackDest_loop attrs zero_Destination [];
     let d = (if d_AddressFamily d0 = 0 then d0\<lparr>d_AddressFamily := serverAddressFamily\<rparr> else d0);
     Some (case unpackAddr addr (d_AddressFamily d) of
       Inl e \<Rightarrow> Inl (Errorf ''ipvs:Dest.unpack: addr'' e)
     | Inr ip \<Rightarrow> Inr (d\<lparr>d_Address := Some ip\<rparr>))
   }"

section \<open>Decoding undoes encoding\<close>

lemma byte_masks: "(0x00ff :: u16) = mask 8" "(0xff00 :: u16) = push_bit 8 (mask 8)"
  by (simp_all add: mask_eq_exp_minus_1 push_bit_eq_mult)

lemma bit_htons: "bit (htons x) n \<longleftrightarrow> n < 16 \<and> bit x (if n < 8 then 8 + n else n - 8)"
  unfolding htons_def byte_masks by (auto simp: bit_simps)

lemma ntohs_eq: "ntohs = htons"
  by (simp add: fun_eq_iff ntohs_def htons_def)

lemma htons_htons [simp]: "htons (htons x) = x"
  by (rule bit_word_eqI) (auto simp: bit_htons)

lemma ntohs_htons [simp]: "ntohs (htons x) = x" and htons_ntohs [simp]: "htons (ntohs x) = x"
  by (simp_all add: ntohs_eq)

lemma of_le32_le32 [simp]: "of_le32 (le32 w) = w"
proof (rule bit_word_eqI)
  fix n assume "n < LENGTH(32)"
  then consider "n < 8" | "8 \<le> n" "n < 16" | "16 \<le> n" "n < 24" | "24 \<le> n" "n < 32" by fastforce
  then show "bit (of_le32 (le32 w)) n = bit w n"
    by cases (auto simp: of_le32_def le32_def bit_simps)
qed

lemma length_le32 [simp]: "length (le32 w) = 4"
  by (simp add: le32_def)

lemma length_pack_Flags [simp]: "length (pack_Flags f) = 8"
  by (simp add: pack_Flags_def)

lemma unpack_pack_Flags [simp]: "unpack_Flags (pack_Flags f) = Inr f"
  by (simp add: unpack_Flags_def pack_Flags_def)

lemma To16_length: "To16 ip = Some b \<Longrightarrow> length b = 16"
  by (auto simp: To16_def Let_def split: if_splits option.splits)

lemma packAddr_length:
  "packAddr af ip = Some b \<Longrightarrow>
     (af = AF_INET \<and> length b = 4) \<or> (af = AF_INET6 \<and> length b = 16)"
  by (auto simp: packAddr_def split: if_splits dest: To4_length To16_length)

text \<open>The kernel may pad the address; the client reads the bytes of the family.\<close>

lemma unpackAddr_packAddr: "packAddr af ip = Some b \<Longrightarrow> unpackAddr (b @ pad) af = Inr b"
  by (auto simp: unpackAddr_def dest: packAddr_length)

lemma packAddr_packAddr: "packAddr af ip = Some b \<Longrightarrow> packAddr af (Some b) = Some b"
  by (drule packAddr_length) (auto simp: packAddr_def To4_def To16_def)

lemma destination_attrs_eq:
  "destination_attrs full d = None \<longleftrightarrow> packAddr (d_AddressFamily d) (d_Address d) = None"
  by (cases "packAddr (d_AddressFamily d) (d_Address d)") (simp_all add: destination_attrs_def)

end
