(* ===== verification/Ipvs_Handle.thy ===== *)
theory Ipvs_Handle
  imports Libipvs
begin

text \<open>
  The methods of \<open>libipvs.Handle\<close> (\<open>ipvs.go\<close>) over the netlink socket \<open>sync\<close>, the
  interface \<open>IPVSHandle\<close> as a record of methods, and the contract of that interface as
  locales. The contract speaks of the kernel's table through a view: which services exist,
  and which real servers each one has.
  \<open>ipvs_handle\<close> states what every outcome means (a method never panics on well-formed
  arguments, an error leaves the table alone, a success has its one documented effect);
  \<open>reliable_handle\<close> adds that a call whose preconditions hold succeeds.
\<close>

section \<open>Requests and responses\<close>

record nlreq =
  nl_cmd :: u8
  nl_type :: u16
  nl_attrs :: nlattrs

abbreviation (input) "NLM_F_ACK \<equiv> 4 :: u16"
abbreviation (input) "NLM_F_DUMP \<equiv> 768 :: u16"

abbreviation (input) "IPVS_CMD_NEW_SERVICE \<equiv> 1 :: u8"
abbreviation (input) "IPVS_CMD_SET_SERVICE \<equiv> 2 :: u8"
abbreviation (input) "IPVS_CMD_DEL_SERVICE \<equiv> 3 :: u8"
abbreviation (input) "IPVS_CMD_GET_SERVICE \<equiv> 4 :: u8"
abbreviation (input) "IPVS_CMD_NEW_DEST \<equiv> 5 :: u8"
abbreviation (input) "IPVS_CMD_SET_DEST \<equiv> 6 :: u8"
abbreviation (input) "IPVS_CMD_DEL_DEST \<equiv> 7 :: u8"
abbreviation (input) "IPVS_CMD_GET_DEST \<equiv> 8 :: u8"
abbreviation (input) "IPVS_CMD_FLUSH \<equiv> 17 :: u8"

datatype nlmsg = MsgError int | MsgDone | MsgFamily "error + nlval" | MsgOther

type_synonym 'w netlink = "nlreq \<Rightarrow> 'w \<Rightarrow> (error + nlmsg list) \<times> 'w"

text \<open>A response handler updates what it has collected; \<open>None\<close> is a panic in it.\<close>

type_synonym 'a handler = "nlattrs \<Rightarrow> 'a \<Rightarrow> (error option \<times> 'a) option"

fun run_responses :: "'a handler option \<Rightarrow> nlmsg list \<Rightarrow> 'a \<Rightarrow> (error option \<times> 'a) option" where
  "run_responses rh [] acc = Some (None, acc)"
| "run_responses rh (MsgError n # ms) acc =
     (if n \<noteq> 0 then Some (Some (Errno n), acc) else run_responses rh ms acc)"
| "run_responses rh (MsgDone # ms) acc = run_responses rh ms acc"
| "run_responses rh (MsgFamily r # ms) acc =
     (case rh of
        None \<Rightarrow> run_responses rh ms acc
      | Some handle \<Rightarrow>
          (case r of
             Inl e \<Rightarrow> Some (Some (Errorf ''ipvs:Client.request: Invalid response'' e), acc)
           | Inr (AttrMap attrs) \<Rightarrow> do {
               (e, acc') \<leftarrow> handle attrs acc;
               (if e \<noteq> None then Some (e, acc') else run_responses rh ms acc')
             }
           | Inr _ \<Rightarrow> Some (Some (Errorp ''ipvs:Client.request: Invalid attrs value''), acc)))"
| "run_responses rh (MsgOther # ms) acc = run_responses rh ms acc"

definition doCmd :: "'w netlink \<Rightarrow> u8 \<Rightarrow> u16 \<Rightarrow> nlattrs \<Rightarrow> 'a handler option \<Rightarrow> 'a \<Rightarrow> 'w
    \<Rightarrow> ((error option \<times> 'a) \<times> 'w) option" where
  "doCmd sync cmd reqType attrs rh acc w =
     (case sync \<lparr>nl_cmd = cmd, nl_type = reqType, nl_attrs = attrs\<rparr> w of
        (Inl e, w') \<Rightarrow> Some ((Some e, acc), w')
      | (Inr msgs, w') \<Rightarrow> map_option (\<lambda>r. (r, w')) (run_responses rh msgs acc))"

definition fillAttrs :: "Service option \<Rightarrow> Destination option \<Rightarrow> bool \<Rightarrow> bool \<Rightarrow> nlattrs option" where
  "fillAttrs s d sfull dfull = do {
     sa \<leftarrow> (case s of None \<Rightarrow> Some [] | Some s \<Rightarrow>
             do {a \<leftarrow> service_attrs sfull s; Some [(IPVS_CMD_ATTR_SERVICE, AttrMap a)]});
     da \<leftarrow> (case d of None \<Rightarrow> Some [] | Some d \<Rightarrow>
             do {a \<leftarrow> destination_attrs dfull d; Some [(IPVS_CMD_ATTR_DEST, AttrMap a)]});
     Some (sa @ da)
   }"

section \<open>The methods\<close>

type_synonym 'w effect = "'w \<Rightarrow> (error option \<times> 'w) option"

definition Handle_ack :: "'w netlink \<Rightarrow> u8 \<Rightarrow> nlattrs \<Rightarrow> 'w effect" where
  "Handle_ack sync cmd attrs w =
     map_option (\<lambda>((e, _), w'). (e, w')) (doCmd sync cmd NLM_F_ACK attrs None () w)"

definition Handle_Flush :: "'w netlink \<Rightarrow> 'w effect" where
  "Handle_Flush sync w = Handle_ack sync IPVS_CMD_FLUSH [] w"

definition service_handler :: "Service list handler" where
  "service_handler attrs services =
     (case map_of attrs IPVS_CMD_ATTR_SERVICE of
        None \<Rightarrow> Some (Some (Errorp ''IPVS_CMD_GET_SERVICE without IPVS_CMD_ATTR_SERVICE''), services)
      | Some v \<Rightarrow> do {
          as \<leftarrow> the_AttrMap v;
          r \<leftarrow> unpackService as;
          Some (case r of Inl e \<Rightarrow> (Some e, services) | Inr s \<Rightarrow> (None, services @ [s]))
        })"

definition Handle_ListServices :: "'w netlink \<Rightarrow> 'w \<Rightarrow> ((Service list \<times> error option) \<times> 'w) option" where
  "Handle_ListServices sync w =
     map_option (\<lambda>((e, ss), w'). ((ss, e), w'))
       (doCmd sync IPVS_CMD_GET_SERVICE NLM_F_DUMP [] (Some service_handler) [] w)"

definition dest_handler :: "u16 \<Rightarrow> Destination list handler" where
  "dest_handler af attrs dsts =
     (case map_of attrs IPVS_CMD_ATTR_DEST of
        None \<Rightarrow> Some (Some (Errorp ''IPVS_CMD_GET_DEST without IPVS_CMD_ATTR_DEST''), dsts)
      | Some v \<Rightarrow> do {
          as \<leftarrow> the_AttrMap v;
          r \<leftarrow> unpackDest as af;
          Some (case r of Inl e \<Rightarrow> (Some e, dsts) | Inr d \<Rightarrow> (None, dsts @ [d]))
        })"

definition Handle_ListDestinations ::
    "'w netlink \<Rightarrow> Service \<Rightarrow> 'w \<Rightarrow> ((Destination list \<times> error option) \<times> 'w) option" where
  "Handle_ListDestinations sync s w = do {
     attrs \<leftarrow> fillAttrs (Some s) None False False;
     ((e, ds), w') \<leftarrow> doCmd sync IPVS_CMD_GET_DEST NLM_F_DUMP attrs
                        (Some (dest_handler (s_AddressFamily s))) [] w;
     Some ((ds, e), w')
   }"

definition Handle_NewService :: "'w netlink \<Rightarrow> Service \<Rightarrow> 'w effect" where
  "Handle_NewService sync s w = do {
     attrs \<leftarrow> fillAttrs (Some s) None True False; Handle_ack sync IPVS_CMD_NEW_SERVICE attrs w}"

definition Handle_UpdateService :: "'w netlink \<Rightarrow> Service \<Rightarrow> 'w effect" where
  "Handle_UpdateService sync s w = do {
     attrs \<leftarrow> fillAttrs (Some s) None True False; Handle_ack sync IPVS_CMD_SET_SERVICE attrs w}"

definition Handle_DelService :: "'w netlink \<Rightarrow> Service \<Rightarrow> 'w effect" where
  "Handle_DelService sync s w = do {
     attrs \<leftarrow> fillAttrs (Some s) None False False; Handle_ack sync IPVS_CMD_DEL_SERVICE attrs w}"

definition Handle_NewDestination :: "'w netlink \<Rightarrow> Service \<Rightarrow> Destination \<Rightarrow> 'w effect" where
  "Handle_NewDestination sync s d w = do {
     attrs \<leftarrow> fillAttrs (Some s) (Some d) False True; Handle_ack sync IPVS_CMD_NEW_DEST attrs w}"

definition Handle_UpdateDestination :: "'w netlink \<Rightarrow> Service \<Rightarrow> Destination \<Rightarrow> 'w effect" where
  "Handle_UpdateDestination sync s d w = do {
     attrs \<leftarrow> fillAttrs (Some s) (Some d) False True; Handle_ack sync IPVS_CMD_SET_DEST attrs w}"

definition Handle_DelDestination :: "'w netlink \<Rightarrow> Service \<Rightarrow> Destination \<Rightarrow> 'w effect" where
  "Handle_DelDestination sync s d w = do {
     attrs \<leftarrow> fillAttrs (Some s) (Some d) False False; Handle_ack sync IPVS_CMD_DEL_DEST attrs w}"

text \<open>The interface, and the handle that implements it.\<close>

record 'w IPVSHandle =
  Flush :: "'w effect"
  ListServices :: "'w \<Rightarrow> ((Service list \<times> error option) \<times> 'w) option"
  NewService :: "Service \<Rightarrow> 'w effect"
  UpdateService :: "Service \<Rightarrow> 'w effect"
  DelService :: "Service \<Rightarrow> 'w effect"
  ListDestinations :: "Service \<Rightarrow> 'w \<Rightarrow> ((Destination list \<times> error option) \<times> 'w) option"
  NewDestination :: "Service \<Rightarrow> Destination \<Rightarrow> 'w effect"
  UpdateDestination :: "Service \<Rightarrow> Destination \<Rightarrow> 'w effect"
  DelDestination :: "Service \<Rightarrow> Destination \<Rightarrow> 'w effect"

definition netlink_handle :: "'w netlink \<Rightarrow> 'w IPVSHandle" where
  "netlink_handle sync = \<lparr>
     Flush = Handle_Flush sync,
     ListServices = Handle_ListServices sync,
     NewService = Handle_NewService sync,
     UpdateService = Handle_UpdateService sync,
     DelService = Handle_DelService sync,
     ListDestinations = Handle_ListDestinations sync,
     NewDestination = Handle_NewDestination sync,
     UpdateDestination = Handle_UpdateDestination sync,
     DelDestination = Handle_DelDestination sync\<rparr>"

section \<open>The view of the kernel's table\<close>

text \<open>What identifies a service and a real server; \<open>None\<close> where packing panics.\<close>

datatype svc_key = FwmKey u16 u32 | VipKey u16 u16 bytes u16

type_synonym dst_key = "bytes \<times> u16"

type_synonym ipvs_view = "svc_key \<Rightarrow> dst_key set option"

definition svc_key :: "Service \<Rightarrow> svc_key option" where
  "svc_key s =
     (if s_FWMark s \<noteq> 0 then Some (FwmKey (s_AddressFamily s) (s_FWMark s))
      else if s_Protocol s \<noteq> 0 \<and> s_Address s \<noteq> None \<and> s_Port s \<noteq> 0 then
        map_option (\<lambda>a. VipKey (s_AddressFamily s) (s_Protocol s) a (s_Port s))
          (packAddr (s_AddressFamily s) (s_Address s))
      else None)"

definition dst_key :: "Destination \<Rightarrow> dst_key option" where
  "dst_key d = map_option (\<lambda>a. (a, d_Port d)) (packAddr (d_AddressFamily d) (d_Address d))"

text \<open>A list of services, or of real servers, that says what a view says.\<close>

definition lists_services :: "ipvs_view \<Rightarrow> Service list \<Rightarrow> bool" where
  "lists_services V ss \<longleftrightarrow> distinct (map svc_key ss) \<and> svc_key ` set ss = Some ` dom V
     \<and> (\<forall>s \<in> set ss. s_FWMark s \<noteq> 0 \<longrightarrow> s_Port s = 0 \<and> s_Protocol s = 0)"

definition lists_dests :: "dst_key set option \<Rightarrow> Destination list \<Rightarrow> bool" where
  "lists_dests D ds \<longleftrightarrow> distinct (map dst_key ds)
     \<and> dst_key ` set ds = Some ` (case D of None \<Rightarrow> {} | Some D \<Rightarrow> D)"

section \<open>The contract\<close>

text \<open>
  \<open>invar\<close> is what holds of the world whenever a method is called; every method keeps it.
\<close>

locale ipvs_handle =
  fixes h :: "'w IPVSHandle" and view :: "'w \<Rightarrow> ipvs_view" and invar :: "'w \<Rightarrow> bool"
  assumes flush: "invar w \<Longrightarrow> \<exists>e w'. Flush h w = Some (e, w') \<and> invar w' \<and>
      view w' = (if e = None then Map.empty else view w)"
    and list_services: "invar w \<Longrightarrow>
      \<exists>ss e w'. ListServices h w = Some ((ss, e), w') \<and> invar w' \<and> view w' = view w \<and>
        (e = None \<longrightarrow> lists_services (view w) ss)"
    and list_dests: "invar w \<Longrightarrow> svc_key s = Some k \<Longrightarrow>
      \<exists>ds e w'. ListDestinations h s w = Some ((ds, e), w') \<and> invar w' \<and> view w' = view w \<and>
        (e = None \<longrightarrow> lists_dests (view w k) ds)"
    and new_service: "invar w \<Longrightarrow> svc_key s = Some k \<Longrightarrow>
      \<exists>e w'. NewService h s w = Some (e, w') \<and> invar w' \<and>
        (if e = None then k \<notin> dom (view w) \<and> view w' = (view w)(k \<mapsto> {}) else view w' = view w)"
    and del_service: "invar w \<Longrightarrow> svc_key s = Some k \<Longrightarrow>
      \<exists>e w'. DelService h s w = Some (e, w') \<and> invar w' \<and>
        (if e = None then k \<in> dom (view w) \<and> view w' = (view w)(k := None) else view w' = view w)"
    and new_dest: "invar w \<Longrightarrow> svc_key s = Some k \<Longrightarrow> dst_key d = Some dk \<Longrightarrow>
      \<exists>e w'. NewDestination h s d w = Some (e, w') \<and> invar w' \<and>
        (if e = None then \<exists>D. view w k = Some D \<and> dk \<notin> D \<and> view w' = (view w)(k \<mapsto> insert dk D)
         else view w' = view w)"
    and del_dest: "invar w \<Longrightarrow> svc_key s = Some k \<Longrightarrow> dst_key d = Some dk \<Longrightarrow>
      \<exists>e w'. DelDestination h s d w = Some (e, w') \<and> invar w' \<and>
        (if e = None then \<exists>D. view w k = Some D \<and> dk \<in> D \<and> view w' = (view w)(k \<mapsto> D - {dk})
         else view w' = view w)"

text \<open>
  \<open>svc_ok s\<close> says that the kernel accepts the settings of the service \<open>s\<close> (it has the
  scheduler), \<open>dst_ok s d\<close> that it accepts \<open>d\<close> as a real server of \<open>s\<close>.
\<close>

locale reliable_handle = ipvs_handle h view invar
  for h :: "'w IPVSHandle" and view :: "'w \<Rightarrow> ipvs_view" and invar :: "'w \<Rightarrow> bool" +
  fixes svc_ok :: "Service \<Rightarrow> bool" and dst_ok :: "Service \<Rightarrow> Destination \<Rightarrow> bool"
  assumes flush_ok: "invar w \<Longrightarrow> Flush h w = Some (e, w') \<Longrightarrow> e = None"
    and list_services_ok: "invar w \<Longrightarrow> ListServices h w = Some ((ss, e), w') \<Longrightarrow> e = None"
    and list_dests_ok: "invar w \<Longrightarrow> svc_key s = Some k \<Longrightarrow> ListDestinations h s w = Some ((ds, e), w') \<Longrightarrow> e = None"
    and new_service_ok: "invar w \<Longrightarrow> svc_key s = Some k \<Longrightarrow> k \<notin> dom (view w) \<Longrightarrow> svc_ok s \<Longrightarrow>
      NewService h s w = Some (e, w') \<Longrightarrow> e = None"
    and del_service_ok: "invar w \<Longrightarrow> svc_key s = Some k \<Longrightarrow> k \<in> dom (view w) \<Longrightarrow>
      DelService h s w = Some (e, w') \<Longrightarrow> e = None"
    and new_dest_ok: "invar w \<Longrightarrow> svc_key s = Some k \<Longrightarrow> dst_key d = Some dk \<Longrightarrow>
      view w k = Some D \<Longrightarrow> dk \<notin> D \<Longrightarrow> dst_ok s d \<Longrightarrow>
      NewDestination h s d w = Some (e, w') \<Longrightarrow> e = None"
    and del_dest_ok: "invar w \<Longrightarrow> svc_key s = Some k \<Longrightarrow> dst_key d = Some dk \<Longrightarrow>
      view w k = Some D \<Longrightarrow> dk \<in> D \<Longrightarrow> DelDestination h s d w = Some (e, w') \<Longrightarrow> e = None"

end
