(* ===== verification/Ipvsdr.thy ===== *)
theory Ipvsdr
  imports Ipvs_Handle
begin

text \<open>
  \<open>pkg/provider/ipvs/ipvsdr.go\<close>: the manager of the kernel's IPVS table, and the struct
  \<open>Config\<close> of \<open>pkg/config/config.go\<close> it is initialised from. A method takes the world
  it runs in and returns it changed; the handle, the shell, the random numbers and
  \<open>libipvs.New\<close> act on that world. \<open>None\<close> is a panic: the methods of a nil handle, and
  what the handle's methods panic on. A shell command is its kind and the arguments its text
  is formatted from. Logging is left out.
\<close>

section \<open>State\<close>

record Config =
  cfg_NginxServer :: string
  cfg_SchedName :: string
  cfg_Vip :: string
  cfg_Pnmpp :: bool
  cfg_Idle_Timeout :: string

text \<open>
  \<open>MarkRule vip intf dport mark\<close> is the rule \<open>iptables -t mangle -A PREROUTING -d vip -i intf
  -p tcp -dport dport -j MARK --set-mark mark\<close>, \<open>FlushMangle\<close> is \<open>iptables -t mangle -F\<close>,
  \<open>DefaultRoute\<close> prints the interface of the default route.
\<close>

datatype shell_cmd = FlushMangle | DefaultRoute | MarkRule net_IP string string nat

record 'w host =
  run_sh :: "shell_cmd \<Rightarrow> 'w \<Rightarrow> (string \<times> error option) \<times> 'w"
  rand_Intn :: "nat \<Rightarrow> 'w \<Rightarrow> nat \<times> 'w"
  libipvs_New :: "'w \<Rightarrow> ('w IPVSHandle option \<times> error option) \<times> 'w"

record 'w LvsManager =
  initialized :: bool
  lm_name :: string
  lm_handle :: "'w IPVSHandle option"
  lm_vip :: net_IP
  lm_SchedName :: string
  lm_timeout :: u32
  lm_marked :: bool
  lm_intf :: string

definition providerName :: string where "providerName = ''ipvsdr''"
definition TCP :: string where "TCP = ''tcp''"
definition UDP :: string where "UDP = ''udp''"

definition NewLvsManager :: "'w LvsManager" where
  "NewLvsManager = \<lparr>initialized = False, lm_name = [], lm_handle = None, lm_vip = None,
     lm_SchedName = [], lm_timeout = 0, lm_marked = False, lm_intf = []\<rparr>"

section \<open>Initialisation\<close>

definition initIptables :: "'w host \<Rightarrow> 'w \<Rightarrow> error option \<times> 'w" where
  "initIptables hst w =
     (let ((_, err), w') = run_sh hst FlushMangle w
      in (map_option (Errorf ''Failed to initIptables'') err, w'))"

definition Intf :: "'w host \<Rightarrow> 'w \<Rightarrow> string \<times> 'w" where
  "Intf hst w =
     (let ((output, err), w') = run_sh hst DefaultRoute w in (drop_newlines output, w'))"

text \<open>The result of \<open>Atoi\<close> is used whatever its error; \<open>uint32\<close> keeps the low 32 bits.\<close>

definition Init :: "'w host \<Rightarrow> Config \<Rightarrow> 'w LvsManager \<Rightarrow> 'w \<Rightarrow> ('w LvsManager \<times> 'w) option" where
  "Init hst cfg lm w =
     (if initialized lm then Some (lm, w)
      else
        let (iTime, _) = Atoi (cfg_Idle_Timeout cfg);
            (ifc, w1) = Intf hst w;
            ((hd, err), w2) = libipvs_New hst w1;
            lm1 = lm\<lparr>initialized := True, lm_name := providerName, lm_vip := ParseIP (cfg_Vip cfg),
                     lm_SchedName := cfg_SchedName cfg, lm_timeout := of_int iTime,
                     lm_marked := cfg_Pnmpp cfg, lm_intf := ifc, lm_handle := hd\<rparr>
        in do {
          h \<leftarrow> lm_handle lm1;
          (err, w3) \<leftarrow> Flush h w2;
          let (err, w4) = initIptables hst w3;
          Some (lm1, w4)
        })"

section \<open>Building the structs\<close>

definition Fwmark :: "'w host \<Rightarrow> 'w LvsManager \<Rightarrow> u16 \<Rightarrow> 'w \<Rightarrow> u32 \<times> 'w" where
  "Fwmark hst lm dport w =
     (let (nfwmark, w1) = rand_Intn hst 100 w;
          (_, w2) = run_sh hst (MarkRule (lm_vip lm) (lm_intf lm) (rune_string dport) nfwmark) w1
      in (of_nat nfwmark, w2))"

definition base_service :: "'w LvsManager \<Rightarrow> u16 \<Rightarrow> u16 \<Rightarrow> u32 \<Rightarrow> Service" where
  "base_service lm protocol dport fwmark = zero_Service\<lparr>
     s_Address := lm_vip lm, s_AddressFamily := AF_INET, s_Protocol := protocol,
     s_Port := dport, s_SchedName := lm_SchedName lm, s_FWMark := fwmark,
     s_Timeout := lm_timeout lm\<rparr>"

definition base_destination :: "net_IP \<Rightarrow> u16 \<Rightarrow> Destination" where
  "base_destination daddr dport = zero_Destination\<lparr>
     d_Address := ParseIP (string_of_bytes (ip_bytes daddr)), d_AddressFamily := AF_INET,
     d_Port := dport\<rparr>"

definition Base :: "'w host \<Rightarrow> 'w LvsManager \<Rightarrow> net_IP \<Rightarrow> u16 \<Rightarrow> string \<Rightarrow> 'w
    \<Rightarrow> (error option \<times> Service \<times> Destination) \<times> 'w" where
  "Base hst lm daddr dport proto w =
     (if proto = UDP then
        ((None, base_service lm IPPROTO_UDP dport 0, base_destination daddr dport), w)
      else if proto = TCP then
        (let (fwmark, w1) = (if lm_marked lm then Fwmark hst lm dport w else (0, w))
         in ((None, base_service lm IPPROTO_TCP dport fwmark, base_destination daddr dport), w1))
      else ((Some (Errorp ''Failed, unsupport protocol type''), zero_Service, zero_Destination), w))"

section \<open>Services and destinations\<close>

definition EnsureService :: "'w LvsManager \<Rightarrow> Service \<Rightarrow> 'w effect" where
  "EnsureService lm svc w = do {
     h \<leftarrow> lm_handle lm;
     ((svcs, err), w1) \<leftarrow> ListServices h w;
     (case err of
        Some e \<Rightarrow> Some (Some (Errorf ''Failed to list existed svc'' e), w1)
      | None \<Rightarrow>
          if list_ex (\<lambda>s. s_Port s = s_Port svc \<and> s_Protocol s = s_Protocol svc) svcs
          then Some (None, w1)
          else do {
            (err, w2) \<leftarrow> NewService h svc w1;
            Some (map_option (Errorf ''Failed to create new svc'') err, w2)
          })
   }"

definition EnsureDestination :: "'w LvsManager \<Rightarrow> Service \<Rightarrow> Destination \<Rightarrow> 'w effect" where
  "EnsureDestination lm svc dst w = do {
     h \<leftarrow> lm_handle lm;
     ((dsts, err), w1) \<leftarrow> ListDestinations h svc w;
     (case err of
        Some e \<Rightarrow> Some (Some (Errorf ''Failed to list existed dsts'' e), w1)
      | None \<Rightarrow>
          if list_ex (\<lambda>d. IP_Equal (d_Address d) (d_Address dst) \<and> d_Port d = d_Port dst) dsts
          then Some (None, w1)
          else do {
            (err, w2) \<leftarrow> NewDestination h svc dst w1;
            Some (map_option (Errorf ''Failed to add new dst'') err, w2)
          })
   }"

definition DeleteDeadSvc :: "'w LvsManager \<Rightarrow> Service \<Rightarrow> 'w effect" where
  "DeleteDeadSvc lm svc w = do {
     h \<leftarrow> lm_handle lm;
     ((dsts, err), w1) \<leftarrow> ListDestinations h svc w;
     (case err of
        Some e \<Rightarrow> Some (Some (Errorf ''Failed to list existed dsts'' e), w1)
      | None \<Rightarrow>
          if length dsts = 0 then do {
            (err, w2) \<leftarrow> DelService h svc w1;
            Some (map_option (Errorf ''Failed to clear dead svc'') err, w2)
          }
          else Some (None, w1))
   }"

definition DeleteDestination :: "'w LvsManager \<Rightarrow> Service \<Rightarrow> Destination \<Rightarrow> 'w effect" where
  "DeleteDestination lm svc dst w = do {
     h \<leftarrow> lm_handle lm;
     (err, w1) \<leftarrow> DelDestination h svc dst w;
     (case err of
        Some e \<Rightarrow> Some (Some (Errorf ''Failed to del dst'' e), w1)
      | None \<Rightarrow> do {
          (err, w2) \<leftarrow> DeleteDeadSvc lm svc w1;
          Some (map_option (Errorf ''Failed to clear'') err, w2)
        })
   }"

section \<open>Add, Del and DelRServer\<close>

text \<open>An error of \<open>EnsureDestination\<close> or \<open>DeleteDestination\<close> is logged, not returned.\<close>

definition Add :: "'w host \<Rightarrow> 'w LvsManager \<Rightarrow> net_IP \<Rightarrow> u16 \<Rightarrow> string \<Rightarrow> 'w effect" where
  "Add hst lm daddr dport proto w =
     (let ((err, svc, dst), w1) = Base hst lm daddr dport proto w in
      case err of
        Some e \<Rightarrow> Some (Some (Errorf ''Failed to build struct in Add svc dst'' e), w1)
      | None \<Rightarrow> do {
          (err, w2) \<leftarrow> EnsureService lm svc w1;
          (case err of
             Some e \<Rightarrow> Some (Some (Errorf ''Failed to update svc existed'' e), w2)
           | None \<Rightarrow> do {
               (err, w3) \<leftarrow> EnsureDestination lm svc dst w2;
               Some (None, w3)
             })
        })"

definition Del :: "'w host \<Rightarrow> 'w LvsManager \<Rightarrow> net_IP \<Rightarrow> u16 \<Rightarrow> string \<Rightarrow> 'w effect" where
  "Del hst lm daddr dport proto w =
     (let ((err, svc, dst), w1) = Base hst lm daddr dport proto w in
      case err of
        Some e \<Rightarrow> Some (Some (Errorf ''Failed to build struct in Del svc dst'' e), w1)
      | None \<Rightarrow> do {
          (err, w2) \<leftarrow> DeleteDestination lm svc dst w1;
          Some (None, w2)
        })"

text \<open>The loop over the destinations of one service, and the loop over the services.\<close>

fun del_matching :: "'w IPVSHandle \<Rightarrow> Service \<Rightarrow> net_IP \<Rightarrow> Destination list \<Rightarrow> 'w effect" where
  "del_matching h s ip [] w = Some (None, w)"
| "del_matching h s ip (d # ds) w =
     (if IP_Equal (d_Address d) ip then do {
        (err, w1) \<leftarrow> DelDestination h s d w;
        (case err of
           Some e \<Rightarrow> Some (Some (Errorf ''Failed to del dst in svc'' e), w1)
         | None \<Rightarrow> del_matching h s ip ds w1)
      }
      else del_matching h s ip ds w)"

fun del_from_services :: "'w IPVSHandle \<Rightarrow> net_IP \<Rightarrow> Service list \<Rightarrow> 'w effect" where
  "del_from_services h ip [] w = Some (None, w)"
| "del_from_services h ip (s # ss) w = do {
     ((dsts, err), w1) \<leftarrow> ListDestinations h s w;
     (case err of
        Some e \<Rightarrow> Some (Some (Errorf ''Failed to list existed dsts for svc'' e), w1)
      | None \<Rightarrow> do {
          (err, w2) \<leftarrow> del_matching h s ip dsts w1;
          (case err of
             Some e \<Rightarrow> Some (Some e, w2)
           | None \<Rightarrow> do {
               ((dsts, err), w3) \<leftarrow> ListDestinations h s w2;
               (case err of
                  Some e \<Rightarrow> Some (Some (Errorf ''After operate, Failed to list existed dsts for svc'' e), w3)
                | None \<Rightarrow>
                    if length dsts = 0 then do {
                      (err, w4) \<leftarrow> DelService h s w3;
                      (case err of
                         Some e \<Rightarrow> Some (Some (Errorf ''After, operate, Failed to clear dead svc'' e), w4)
                       | None \<Rightarrow> del_from_services h ip ss w4)
                    }
                    else del_from_services h ip ss w3)
             })
        })
   }"

definition DelRServer :: "'w LvsManager \<Rightarrow> net_IP \<Rightarrow> 'w effect" where
  "DelRServer lm addr w = do {
     h \<leftarrow> lm_handle lm;
     ((svcs, err), w1) \<leftarrow> ListServices h w;
     (case err of
        Some e \<Rightarrow> Some (Some (Errorf ''Failed to list existed svc'' e), w1)
      | None \<Rightarrow> del_from_services h (ParseIP (string_of_bytes (ip_bytes addr))) svcs w1)
   }"

end
