(* ===== verification/Controller.thy ===== *)
theory Controller
  imports LB_Store Ipvsdr
begin

text \<open>
  \<open>pkg/controller/controller.go\<close>: the controller's state and its functions. Pods and
  configmaps are what their informers deliver, the API server is a record of two list calls,
  and a function takes the controller and the world and returns them changed. The range loops
  of one function call take their orders at different indices.

  The package-level mutex \<open>locker\<close> is the field \<open>cond_L\<close> of the state. A function that
  cannot go on returns how it is stopped: \<open>Lock_waits\<close> (the mutex is held), \<open>Cond_waits\<close>
  (it is parked in \<open>cond.Wait\<close>, the mutex released), \<open>Chan_waits\<close> (it blocks on the channel
  with the mutex held) or \<open>Panics\<close>. The wake-ups are in \<open>Goroutines\<close>. The channel \<open>lbstore\<close>
  holds pointers to the two stores of the controller, so its elements are the names \<open>CLB\<close>
  and \<open>PLB\<close> of these stores. Logging and the 60 ms sleeps are left out.
\<close>

section \<open>Objects of the API server\<close>

record Pod =
  pod_Name :: string
  pod_Namespace :: string
  pod_PodIP :: string
  pod_Deleted :: bool  \<comment> \<open>whether \<open>GetDeletionTimestamp()\<close> is not nil\<close>

text \<open>The \<open>Data\<close> of a configmap may be nil.\<close>

record ConfigMap =
  cm_Name :: string
  cm_Data :: "(string, string) gomap option"

record 'w kube =
  list_pods :: "string \<Rightarrow> 'w \<Rightarrow> (error + Pod list) \<times> 'w"
  list_cms :: "string \<Rightarrow> 'w \<Rightarrow> (error + ConfigMap list) \<times> 'w"

definition data_keys :: "ConfigMap \<Rightarrow> string list" where
  "data_keys cm = (case cm_Data cm of None \<Rightarrow> [] | Some m \<Rightarrow> go_keys m)"

text \<open>\<open>reflect.DeepEqual\<close> tells a nil map from an empty one.\<close>

definition data_eq :: "(string, string) gomap option \<Rightarrow> (string, string) gomap option \<Rightarrow> bool" where
  "data_eq a b =
     (case (a, b) of (None, None) \<Rightarrow> True | (Some x, Some y) \<Rightarrow> go_map_eq x y | _ \<Rightarrow> False)"

section \<open>State\<close>

definition nginxDefault :: string where "nginxDefault = ''ingress-nginx''"
definition nginxPattern :: string where "nginxPattern = ''nginx-ingress-controller''"
definition tcpService :: string where "tcpService = ''tcp-services''"
definition udpService :: string where "udpService = ''udp-services''"
definition protoTcp :: string where "protoTcp = ''tcp''"
definition protoUdp :: string where "protoUdp = ''udp''"

datatype store_ref = CLB | PLB

record 'w LoadBalancerController =
  nginxServer :: string
  NwTcp :: ports
  ExTcp :: ports
  NwUdp :: ports
  ExUdp :: ports
  clbdata :: LBStore
  plbdata :: LBStore
  lbstore :: "store_ref list"
  lb_closed :: bool
  lvsManager :: "'w LvsManager"
  cond_L :: bool

fun deref :: "store_ref \<Rightarrow> 'w LoadBalancerController \<Rightarrow> LBStore" where
  "deref CLB lbc = clbdata lbc"
| "deref PLB lbc = plbdata lbc"

fun set_store :: "store_ref \<Rightarrow> LBStore \<Rightarrow> 'w LoadBalancerController \<Rightarrow> 'w LoadBalancerController" where
  "set_store CLB lb lbc = lbc\<lparr>clbdata := lb\<rparr>"
| "set_store PLB lb lbc = lbc\<lparr>plbdata := lb\<rparr>"

datatype 'a outcome = Returns 'a | Panics | Lock_waits | Cond_waits | Chan_waits

type_synonym 'w st = "'w LoadBalancerController \<times> 'w"

text \<open>\<open>cond.L.Lock(); for waits { cond.Wait() }\<close> before the rest of a function.\<close>

definition critical :: "('w LoadBalancerController \<Rightarrow> bool)
    \<Rightarrow> ('w LoadBalancerController \<Rightarrow> 'w \<Rightarrow> 'b outcome) \<Rightarrow> 'w LoadBalancerController \<Rightarrow> 'w \<Rightarrow> 'b outcome" where
  "critical waits body lbc w =
     (if cond_L lbc then Lock_waits
      else if waits lbc then Cond_waits
      else body (lbc\<lparr>cond_L := True\<rparr>) w)"

definition full :: "'w LoadBalancerController \<Rightarrow> bool" where
  "full lbc \<longleftrightarrow> length (lbstore lbc) = 3"

definition empty :: "'w LoadBalancerController \<Rightarrow> bool" where
  "empty lbc \<longleftrightarrow> length (lbstore lbc) = 0"

text \<open>\<open>lbc.lbstore <- r; cond.L.Unlock()\<close> on the channel of capacity 3.\<close>

definition send_unlock :: "store_ref \<Rightarrow> 'w LoadBalancerController \<Rightarrow> 'w \<Rightarrow> 'w st outcome" where
  "send_unlock r lbc w =
     (if lb_closed lbc then Panics
      else if length (lbstore lbc) \<ge> 3 then Chan_waits
      else Returns (lbc\<lparr>lbstore := lbstore lbc @ [r], cond_L := False\<rparr>, w))"

text \<open>The orders of the range loops after the first \<open>n\<close>.\<close>

definition after :: "nat \<Rightarrow> orders \<Rightarrow> orders" where
  "after n ord = \<lparr>port_order = (\<lambda>i. port_order ord (n + i)), name_order = (\<lambda>i. name_order ord (n + i))\<rparr>"

lemma fair_after [simp]: "fair_orders ord \<Longrightarrow> fair_orders (after n ord)"
  by (simp add: fair_orders_def after_def)

section \<open>Listing pods and configmaps\<close>

text \<open>The loop over the pods; an address that does not validate stops it.\<close>

fun add_pods :: "Pod list \<Rightarrow> (string, net_IP) gomap \<Rightarrow> error option \<times> (string, net_IP) gomap" where
  "add_pods [] addrs = (None, addrs)"
| "add_pods (pod # pods) addrs =
     (if Contains (pod_Name pod) nginxPattern \<and> pod_PodIP pod \<noteq> [] then
        let key = ''adding_'' @ pod_Name pod in
        case ValidateIPv4 (pod_PodIP pod) of
          (True, IPv4) \<Rightarrow> add_pods pods (go_put key IPv4 addrs)
        | (False, _) \<Rightarrow> (Some (Errorp ''Failed to parse ipv4''), addrs)
      else add_pods pods addrs)"

definition listNginx :: "'w kube \<Rightarrow> orders \<Rightarrow> store_ref \<Rightarrow> 'w LoadBalancerController \<Rightarrow> 'w
    \<Rightarrow> error option \<times> 'w st" where
  "listNginx kube ord LB lbc w =
     (case list_pods kube (nginxServer lbc) w of
        (Inl err, w1) \<Rightarrow> (Some (Errorf ''Failed to list pods'' err), lbc, w1)
      | (Inr items, w1) \<Rightarrow>
          (let lb = deref LB lbc;
               addrs = delete_keys (name_order ord 0 (go_keys (Addr lb))) (Addr lb);
               (err, addrs') = add_pods items addrs
           in (err, set_store LB (lb\<lparr>Addr := addrs'\<rparr>) lbc, w1)))"

fun add_ports :: "string list \<Rightarrow> ports \<Rightarrow> error option \<times> ports" where
  "add_ports [] ports = (None, ports)"
| "add_ports (key # keys) ports =
     (case ValidatePort key of
        (True, port) \<Rightarrow> add_ports keys (go_put port addition ports)
      | (False, _) \<Rightarrow> (Some (Errorp ''Failed to validate port in listCm''), ports))"

text \<open>The loop over the configmaps fills the udp and the tcp ports; \<open>n\<close> counts its iterations.\<close>

fun add_cms :: "orders \<Rightarrow> nat \<Rightarrow> ConfigMap list \<Rightarrow> LBStore \<Rightarrow> error option \<times> LBStore" where
  "add_cms ord n [] lb = (None, lb)"
| "add_cms ord n (cm # cms) lb =
     (let (err, udp) = (if Contains (cm_Name cm) udpService
                        then add_ports (name_order ord (2 * n + 1) (data_keys cm)) (Udp lb) else (None, Udp lb));
          lb1 = lb\<lparr>Udp := udp\<rparr>
      in if err \<noteq> None then (err, lb1)
      else
        let (err, tcp) = (if Contains (cm_Name cm) tcpService
                          then add_ports (name_order ord (2 * n + 2) (data_keys cm)) (Tcp lb1) else (None, Tcp lb1));
            lb2 = lb1\<lparr>Tcp := tcp\<rparr>
        in if err \<noteq> None then (err, lb2) else add_cms ord (n + 1) cms lb2)"

definition listCm :: "'w kube \<Rightarrow> orders \<Rightarrow> 'w LoadBalancerController \<Rightarrow> 'w \<Rightarrow> error option \<times> 'w st" where
  "listCm kube ord lbc w =
     (case list_cms kube (nginxServer lbc) w of
        (Inl err, w1) \<Rightarrow> (Some (Errorf ''Failed to list cm'' err), lbc, w1)
      | (Inr items, w1) \<Rightarrow>
          (let lb = plbdata lbc;
               tcp = delete_keys (port_order ord 0 (go_keys (Tcp lb))) (Tcp lb);
               udp = delete_keys (port_order ord 1 (go_keys (Udp lb))) (Udp lb);
               (err, lb') = add_cms ord 0 items (lb\<lparr>Tcp := tcp, Udp := udp\<rparr>)
           in (err, lbc\<lparr>plbdata := lb'\<rparr>, w1)))"

section \<open>Initial\<close>

text \<open>The two early returns leave the mutex held.\<close>

definition Initial_body :: "'w kube \<Rightarrow> orders \<Rightarrow> 'w LoadBalancerController \<Rightarrow> 'w
    \<Rightarrow> (error option \<times> 'w st) outcome" where
  "Initial_body kube ord lbc w =
     (case listCm kube ord lbc w of
        (Some err, s) \<Rightarrow> Returns (Some (Errorf ''Failed to initial list l4 configmaps'' err), s)
      | (None, lbc1, w1) \<Rightarrow>
          (let lbc2 = lbc1\<lparr>ExTcp := put_keys (port_order ord 2 (go_keys (Tcp (plbdata lbc1)))) protoTcp (ExTcp lbc1)\<rparr>;
               lbc3 = lbc2\<lparr>ExUdp := put_keys (port_order ord 3 (go_keys (Udp (plbdata lbc2)))) protoUdp (ExUdp lbc2)\<rparr>
           in case listNginx kube ord PLB lbc3 w1 of
                (Some err, s) \<Rightarrow> Returns (Some (Errorf ''Failed to initial list l4 addrs'' err), s)
              | (None, lbc4, w4) \<Rightarrow>
                  (case send_unlock PLB lbc4 w4 of
                     Returns s \<Rightarrow> Returns (None, s) | Panics \<Rightarrow> Panics | Lock_waits \<Rightarrow> Lock_waits
                   | Cond_waits \<Rightarrow> Cond_waits | Chan_waits \<Rightarrow> Chan_waits)))"

definition Initial :: "'w kube \<Rightarrow> orders \<Rightarrow> 'w LoadBalancerController \<Rightarrow> 'w
    \<Rightarrow> (error option \<times> 'w st) outcome" where
  "Initial kube ord lbc w = critical full (Initial_body kube ord) lbc w"

section \<open>Configmap events\<close>

definition put_valid :: "string \<Rightarrow> string \<Rightarrow> ports \<Rightarrow> ports" where
  "put_valid proto key ports =
     (case ValidatePort key of (True, port) \<Rightarrow> go_put port proto ports | (False, _) \<Rightarrow> ports)"

definition updateTcp_body :: "'w kube \<Rightarrow> orders \<Rightarrow> ConfigMap \<Rightarrow> 'w LoadBalancerController \<Rightarrow> 'w \<Rightarrow> 'w st outcome" where
  "updateTcp_body kube ord cm lbc w =
     (let nw = fold (put_valid protoTcp) (name_order ord 0 (data_keys cm)) (NwTcp lbc);
          (ex', nw', delta) = L4Compare ord (ExTcp lbc) nw (Tcp (clbdata lbc));
          lbc1 = lbc\<lparr>ExTcp := ex', NwTcp := nw', clbdata := (clbdata lbc)\<lparr>Tcp := delta\<rparr>\<rparr>;
          (err, lbc2, w2) = listNginx kube (after 1 ord) CLB lbc1 w
      in send_unlock CLB lbc2 w2)"

definition updateUdp_body :: "'w kube \<Rightarrow> orders \<Rightarrow> ConfigMap \<Rightarrow> 'w LoadBalancerController \<Rightarrow> 'w \<Rightarrow> 'w st outcome" where
  "updateUdp_body kube ord cm lbc w =
     (let nw = fold (put_valid protoUdp) (name_order ord 0 (data_keys cm)) (NwUdp lbc);
          (ex', nw', delta) = L4Compare ord (ExUdp lbc) nw (Udp (clbdata lbc));
          lbc1 = lbc\<lparr>ExUdp := ex', NwUdp := nw', clbdata := (clbdata lbc)\<lparr>Udp := delta\<rparr>\<rparr>;
          (err, lbc2, w2) = listNginx kube (after 1 ord) CLB lbc1 w
      in send_unlock CLB lbc2 w2)"

text \<open>
  The test of the deletion timestamp compares a method value with nil, which is always
  unequal, and its branch only builds an error it drops.
\<close>

definition updatePorts :: "'w kube \<Rightarrow> orders \<Rightarrow> ConfigMap \<Rightarrow> ConfigMap \<Rightarrow> 'w LoadBalancerController \<Rightarrow> 'w \<Rightarrow> 'w st outcome" where
  "updatePorts kube ord oldCm cm lbc w =
     (if data_eq (cm_Data oldCm) (cm_Data cm) then Returns (lbc, w)
      else if cm_Name cm = tcpService then critical full (updateTcp_body kube ord cm) lbc w
      else if cm_Name cm = udpService then critical full (updateUdp_body kube ord cm) lbc w
      else Returns (lbc, w))"

section \<open>Pod events\<close>

text \<open>The add handler takes no lock.\<close>

definition addrAddFunc :: "Pod \<Rightarrow> 'w LoadBalancerController \<Rightarrow> 'w LoadBalancerController" where
  "addrAddFunc pod lbc =
     (if pod_Namespace pod = nginxServer lbc \<and> Contains (pod_Name pod) nginxPattern \<and> pod_PodIP pod \<noteq> [] then
        let key = ''adding_'' @ pod_Name pod @ [CHR 0x0A] in
        case ValidateIPv4 (pod_PodIP pod) of
          (True, addr) \<Rightarrow> lbc\<lparr>plbdata := (plbdata lbc)\<lparr>Addr := go_put key addr (Addr (plbdata lbc))\<rparr>\<rparr>
        | (False, _) \<Rightarrow> lbc
      else lbc)"

definition addrUpdate_body :: "'w kube \<Rightarrow> orders \<Rightarrow> Pod \<Rightarrow> 'w LoadBalancerController \<Rightarrow> 'w \<Rightarrow> 'w st outcome" where
  "addrUpdate_body kube ord newPod lbc w =
     (let lb = plbdata lbc;
          addrs = delete_keys (name_order ord 0 (go_keys (Addr lb))) (Addr lb);
          key = (if pod_Deleted newPod then ''deleting_'' else ''adding_'') @ pod_Name newPod @ [CHR 0x0A];
          addrs' = (case ValidateIPv4 (pod_PodIP newPod) of
                      (True, addr) \<Rightarrow> go_put key addr addrs
                    | (False, _) \<Rightarrow> addrs);
          (err, lbc2, w2) = listCm kube (after 1 ord) (lbc\<lparr>plbdata := lb\<lparr>Addr := addrs'\<rparr>\<rparr>) w
      in send_unlock PLB lbc2 w2)"

definition addrUpdateFunc :: "'w kube \<Rightarrow> orders \<Rightarrow> Pod \<Rightarrow> Pod \<Rightarrow> 'w LoadBalancerController \<Rightarrow> 'w \<Rightarrow> 'w st outcome" where
  "addrUpdateFunc kube ord newPod oldPod lbc w =
     (if pod_Namespace newPod = nginxServer lbc \<and> pod_PodIP newPod \<noteq> []
      then critical full (addrUpdate_body kube ord newPod) lbc w
      else Returns (lbc, w))"

text \<open>
  The informer calls \<open>OnUpdate(oldObj, newObj)\<close>, which calls the registered \<open>UpdateFunc\<close>
  with the arguments in that order.
\<close>

definition OnUpdate_pod :: "'w kube \<Rightarrow> orders \<Rightarrow> Pod \<Rightarrow> Pod \<Rightarrow> 'w LoadBalancerController \<Rightarrow> 'w \<Rightarrow> 'w st outcome" where
  "OnUpdate_pod kube ord oldObj newObj = addrUpdateFunc kube ord oldObj newObj"

section \<open>The worker\<close>

text \<open>
  The loops of \<open>processFunc\<close>, over the operations of the manager it calls. A returned error
  is only logged.
\<close>

fun sync_ports :: "(net_IP \<Rightarrow> u16 \<Rightarrow> string \<Rightarrow> 'w effect) \<Rightarrow> (net_IP \<Rightarrow> u16 \<Rightarrow> string \<Rightarrow> 'w effect)
    \<Rightarrow> net_IP \<Rightarrow> string \<Rightarrow> ports \<Rightarrow> u16 list \<Rightarrow> 'w \<Rightarrow> 'w option" where
  "sync_ports add del addr proto acts [] w = Some w"
| "sync_ports add del addr proto acts (port # ports) w =
     (let act = go_get_str acts port in
      do {
        (err, w1) \<leftarrow> (if act = addition then add addr port proto w
                     else if act = deletion then del addr port proto w
                     else Some (None, w));
        sync_ports add del addr proto acts ports w1
      })"

definition sync_addr :: "(net_IP \<Rightarrow> u16 \<Rightarrow> string \<Rightarrow> 'w effect) \<Rightarrow> (net_IP \<Rightarrow> u16 \<Rightarrow> string \<Rightarrow> 'w effect)
    \<Rightarrow> (net_IP \<Rightarrow> 'w effect) \<Rightarrow> orders \<Rightarrow> LBStore \<Rightarrow> string \<Rightarrow> net_IP \<Rightarrow> 'w \<Rightarrow> 'w option" where
  "sync_addr add del delrs ord lb key addr w =
     (let act = hd (Split key CHR ''_'') in
      if act = addition then do {
        w1 \<leftarrow> sync_ports add del addr protoTcp (Tcp lb) (port_order ord 0 (go_keys (Tcp lb))) w;
        sync_ports add del addr protoUdp (Udp lb) (port_order ord 1 (go_keys (Udp lb))) w1
      }
      else if act = deletion then do {(err, w1) \<leftarrow> delrs addr w; Some w1}
      else Some w)"

fun sync_addrs :: "(net_IP \<Rightarrow> u16 \<Rightarrow> string \<Rightarrow> 'w effect) \<Rightarrow> (net_IP \<Rightarrow> u16 \<Rightarrow> string \<Rightarrow> 'w effect)
    \<Rightarrow> (net_IP \<Rightarrow> 'w effect) \<Rightarrow> orders \<Rightarrow> LBStore \<Rightarrow> string list \<Rightarrow> 'w \<Rightarrow> 'w option" where
  "sync_addrs add del delrs ord lb [] w = Some w"
| "sync_addrs add del delrs ord lb (key # keys) w = do {
     w1 \<leftarrow> (case map_of (Addr lb) key of
              None \<Rightarrow> Some w
            | Some addr \<Rightarrow> sync_addr add del delrs ord lb key addr w);
     sync_addrs add del delrs (after 2 ord) lb keys w1
   }"

definition processFunc_body :: "'w host \<Rightarrow> orders \<Rightarrow> 'w LoadBalancerController \<Rightarrow> 'w \<Rightarrow> 'w st outcome" where
  "processFunc_body hst ord lbc w =
     (case lbstore lbc of
        [] \<Rightarrow> if lb_closed lbc then Panics else Chan_waits
      | r # rs \<Rightarrow>
          (let lbdata = deref r lbc; lm = lvsManager lbc in
           case sync_addrs (Add hst lm) (Del hst lm) (DelRServer lm) ord lbdata
                  (name_order ord 0 (go_keys (Addr lbdata))) w of
             None \<Rightarrow> Panics
           | Some w1 \<Rightarrow> Returns (lbc\<lparr>lbstore := rs, cond_L := False\<rparr>, w1)))"

definition processFunc :: "'w host \<Rightarrow> orders \<Rightarrow> 'w LoadBalancerController \<Rightarrow> 'w \<Rightarrow> 'w st outcome" where
  "processFunc hst ord lbc w = critical empty (processFunc_body hst ord) lbc w"

section \<open>Construction and shutdown\<close>

definition NewLoadBalancerController :: "'w host \<Rightarrow> Config \<Rightarrow> 'w \<Rightarrow> 'w st option" where
  "NewLoadBalancerController hst cfg w = do {
     (lm, w1) \<leftarrow> Init hst cfg NewLvsManager w;
     Some (\<lparr>nginxServer = (if cfg_NginxServer cfg \<noteq> [] then cfg_NginxServer cfg else nginxDefault),
            NwTcp = [], ExTcp = [], NwUdp = [], ExUdp = [], clbdata = NewLBStore, plbdata = NewLBStore,
            lbstore = [], lb_closed = False, lvsManager = lm, cond_L = False\<rparr>, w1)
   }"

text \<open>The end of \<open>Run\<close>: \<open>close(lbc.lbstore)\<close> once the stop channel is closed.\<close>

definition Run_stop :: "'w LoadBalancerController \<Rightarrow> 'w LoadBalancerController" where
  "Run_stop lbc = lbc\<lparr>lb_closed := True\<rparr>"

end
