(* ===== verification/Ipvs_Kernel.thy ===== *)
theory Ipvs_Kernel
  imports Ipvs_Handle
begin

text \<open>
  A reference kernel for the handle of \<open>Ipvs_Handle\<close>: the IPVS generic-netlink commands of
  Linux (\<open>net/netfilter/ipvs/ip_vs_ctl.c\<close>), as far as the client uses them, on a list of
  services. It is no part of the repository and no property rests on it; it shows that the
  contract \<open>reliable_handle\<close> holds of the modelled client over a kernel that behaves as
  documented, and concrete runs evaluate on it.
\<close>

section \<open>The table\<close>

record kdest =
  kd_af :: u16
  kd_addr :: bytes
  kd_port :: u16
  kd_fwd :: u32
  kd_weight :: u32
  kd_uthresh :: u32
  kd_lthresh :: u32

record kservice =
  ks_key :: svc_key
  ks_sched :: string
  ks_flags :: bytes
  ks_timeout :: u32
  ks_netmask :: u32
  ks_dests :: "kdest list"

type_synonym ktable = "kservice list"

abbreviation kd_key :: "kdest \<Rightarrow> dst_key" where
  "kd_key d \<equiv> (kd_addr d, kd_port d)"

fun find_service :: "svc_key \<Rightarrow> ktable \<Rightarrow> kservice option" where
  "find_service k [] = None"
| "find_service k (s # t) = (if ks_key s = k then Some s else find_service k t)"

fun put_dests :: "svc_key \<Rightarrow> kdest list \<Rightarrow> ktable \<Rightarrow> ktable" where
  "put_dests k ds [] = []"
| "put_dests k ds (s # t) =
     (if ks_key s = k then s\<lparr>ks_dests := ds\<rparr> # t else s # put_dests k ds t)"

definition key_ok :: "svc_key \<Rightarrow> bool" where
  "key_ok k = (case k of
     FwmKey af m \<Rightarrow> m \<noteq> 0 \<and> (af = AF_INET \<or> af = AF_INET6)
   | VipKey af p a port \<Rightarrow> p \<noteq> 0 \<and> port \<noteq> 0 \<and>
       (af = AF_INET \<and> length a = 4 \<or> af = AF_INET6 \<and> length a = 16))"

definition dest_ok :: "kdest \<Rightarrow> bool" where
  "dest_ok d \<longleftrightarrow> kd_af d = AF_INET \<and> length (kd_addr d) = 4
     \<or> kd_af d = AF_INET6 \<and> length (kd_addr d) = 16"

definition service_ok :: "kservice \<Rightarrow> bool" where
  "service_ok s \<longleftrightarrow> key_ok (ks_key s) \<and> length (ks_flags s) = 8 \<and>
     distinct (map kd_key (ks_dests s)) \<and> list_all dest_ok (ks_dests s)"

definition table_ok :: "ktable \<Rightarrow> bool" where
  "table_ok t \<longleftrightarrow> distinct (map ks_key t) \<and> list_all service_ok t"

definition table_view :: "ktable \<Rightarrow> ipvs_view" where
  "table_view t k = map_option (\<lambda>s. kd_key ` set (ks_dests s)) (find_service k t)"

section \<open>Parsing requests and dumping entries\<close>

abbreviation (input) "EINVAL \<equiv> 22 :: int"
abbreviation (input) "ENOENT \<equiv> 2 :: int"
abbreviation (input) "ESRCH \<equiv> 3 :: int"
abbreviation (input) "EEXIST \<equiv> 17 :: int"
abbreviation (input) "ERANGE \<equiv> 34 :: int"

definition addr_size :: "u16 \<Rightarrow> nat" where
  "addr_size af = (if af = AF_INET then 4 else 16)"

definition parse_key :: "nlattrs \<Rightarrow> svc_key option" where
  "parse_key as = do {
     af \<leftarrow> Option.bind (map_of as IPVS_SVC_ATTR_AF) the_U16;
     (if af \<noteq> AF_INET \<and> af \<noteq> AF_INET6 then None
      else case map_of as IPVS_SVC_ATTR_FWMARK of
        Some v \<Rightarrow> do {m \<leftarrow> the_U32 v; if m = 0 then None else Some (FwmKey af m)}
      | None \<Rightarrow> do {
          p \<leftarrow> Option.bind (map_of as IPVS_SVC_ATTR_PROTOCOL) the_U16;
          a \<leftarrow> Option.bind (map_of as IPVS_SVC_ATTR_ADDR) the_Bin;
          port \<leftarrow> Option.bind (map_of as IPVS_SVC_ATTR_PORT) the_U16;
          (if p = 0 \<or> ntohs port = 0 \<or> length a < addr_size af then None
           else Some (VipKey af p (take (addr_size af) a) (ntohs port)))
        })
   }"

definition parse_service :: "nlattrs \<Rightarrow> kservice option" where
  "parse_service as = do {
     k \<leftarrow> parse_key as;
     sn \<leftarrow> Option.bind (map_of as IPVS_SVC_ATTR_SCHED_NAME) the_NulStr;
     fl \<leftarrow> Option.bind (map_of as IPVS_SVC_ATTR_FLAGS) the_Bin;
     tm \<leftarrow> Option.bind (map_of as IPVS_SVC_ATTR_TIMEOUT) the_U32;
     nm \<leftarrow> Option.bind (map_of as IPVS_SVC_ATTR_NETMASK) the_U32;
     (if length fl \<noteq> 8 then None
      else Some \<lparr>ks_key = k, ks_sched = sn, ks_flags = fl, ks_timeout = tm, ks_netmask = nm,
                 ks_dests = []\<rparr>)
   }"

definition parse_dest_key :: "nlattrs \<Rightarrow> (u16 \<times> dst_key) option" where
  "parse_dest_key as = do {
     af \<leftarrow> Option.bind (map_of as IPVS_DEST_ATTR_ADDR_FAMILY) the_U16;
     a \<leftarrow> Option.bind (map_of as IPVS_DEST_ATTR_ADDR) the_Bin;
     port \<leftarrow> Option.bind (map_of as IPVS_DEST_ATTR_PORT) the_U16;
     (if af \<noteq> AF_INET \<and> af \<noteq> AF_INET6 \<or> length a < addr_size af then None
      else Some (af, (take (addr_size af) a, ntohs port)))
   }"

definition parse_dest :: "nlattrs \<Rightarrow> kdest option" where
  "parse_dest as = do {
     (af, a, port) \<leftarrow> parse_dest_key as;
     fw \<leftarrow> Option.bind (map_of as IPVS_DEST_ATTR_FWD_METHOD) the_U32;
     wt \<leftarrow> Option.bind (map_of as IPVS_DEST_ATTR_WEIGHT) the_U32;
     ut \<leftarrow> Option.bind (map_of as IPVS_DEST_ATTR_U_THRESH) the_U32;
     lt \<leftarrow> Option.bind (map_of as IPVS_DEST_ATTR_L_THRESH) the_U32;
     Some \<lparr>kd_af = af, kd_addr = a, kd_port = port, kd_fwd = fw, kd_weight = wt,
           kd_uthresh = ut, kd_lthresh = lt\<rparr>
   }"

definition pad_addr :: "bytes \<Rightarrow> bytes" where
  "pad_addr a = a @ replicate (16 - length a) 0"

fun dump_key :: "svc_key \<Rightarrow> nlattrs" where
  "dump_key (FwmKey af m) = [(IPVS_SVC_ATTR_AF, U16 af), (IPVS_SVC_ATTR_FWMARK, U32 m)]"
| "dump_key (VipKey af p a port) =
     [(IPVS_SVC_ATTR_AF, U16 af), (IPVS_SVC_ATTR_PROTOCOL, U16 p),
      (IPVS_SVC_ATTR_ADDR, Bin (pad_addr a)), (IPVS_SVC_ATTR_PORT, U16 (htons port))]"

definition dump_service :: "kservice \<Rightarrow> nlattrs" where
  "dump_service s = dump_key (ks_key s) @
     [(IPVS_SVC_ATTR_SCHED_NAME, NulStr (ks_sched s)), (IPVS_SVC_ATTR_FLAGS, Bin (ks_flags s)),
      (IPVS_SVC_ATTR_TIMEOUT, U32 (ks_timeout s)), (IPVS_SVC_ATTR_NETMASK, U32 (ks_netmask s)),
      (IPVS_SVC_ATTR_STATS, AttrMap [(1, U32 0), (2, U32 0), (3, U32 0), (4, U64 0), (5, U64 0)])]"

definition dump_dest :: "kdest \<Rightarrow> nlattrs" where
  "dump_dest d =
     [(IPVS_DEST_ATTR_ADDR, Bin (pad_addr (kd_addr d))), (IPVS_DEST_ATTR_PORT, U16 (htons (kd_port d))),
      (IPVS_DEST_ATTR_FWD_METHOD, U32 (kd_fwd d)), (IPVS_DEST_ATTR_WEIGHT, U32 (kd_weight d)),
      (IPVS_DEST_ATTR_U_THRESH, U32 (kd_uthresh d)), (IPVS_DEST_ATTR_L_THRESH, U32 (kd_lthresh d)),
      (IPVS_DEST_ATTR_ACTIVE_CONNS, U32 0), (IPVS_DEST_ATTR_INACT_CONNS, U32 0),
      (IPVS_DEST_ATTR_PERSIST_CONNS, U32 0), (IPVS_DEST_ATTR_ADDR_FAMILY, U16 (kd_af d))]"

section \<open>Executing requests\<close>

type_synonym reply = "nlmsg list \<times> ktable"

abbreviation ack :: "ktable \<Rightarrow> reply" where "ack t \<equiv> ([MsgError 0], t)"
abbreviation nack :: "int \<Rightarrow> ktable \<Rightarrow> reply" where "nack e t \<equiv> ([MsgError (- e)], t)"

definition req_service :: "nlreq \<Rightarrow> nlattrs option" where
  "req_service r = Option.bind (map_of (nl_attrs r) IPVS_CMD_ATTR_SERVICE) the_AttrMap"

definition req_dest :: "nlreq \<Rightarrow> nlattrs option" where
  "req_dest r = Option.bind (map_of (nl_attrs r) IPVS_CMD_ATTR_DEST) the_AttrMap"

definition k_new_service :: "string list \<Rightarrow> nlreq \<Rightarrow> ktable \<Rightarrow> reply" where
  "k_new_service scheds r t =
     (case Option.bind (req_service r) parse_service of
        None \<Rightarrow> nack EINVAL t
      | Some s \<Rightarrow>
          if find_service (ks_key s) t \<noteq> None then nack EEXIST t
          else if ks_sched s \<notin> set scheds then nack ENOENT t
          else ack (t @ [s]))"

definition k_del_service :: "nlreq \<Rightarrow> ktable \<Rightarrow> reply" where
  "k_del_service r t =
     (case Option.bind (req_service r) parse_key of
        None \<Rightarrow> nack EINVAL t
      | Some k \<Rightarrow> if find_service k t = None then nack ESRCH t
                 else ack (filter (\<lambda>s. ks_key s \<noteq> k) t))"

definition k_new_dest :: "nlreq \<Rightarrow> ktable \<Rightarrow> reply" where
  "k_new_dest r t =
     (case Option.bind (req_service r) parse_key of
        None \<Rightarrow> nack EINVAL t
      | Some k \<Rightarrow>
          (case find_service k t of
             None \<Rightarrow> nack ESRCH t
           | Some s \<Rightarrow>
               (case Option.bind (req_dest r) parse_dest of
                  None \<Rightarrow> nack EINVAL t
                | Some d \<Rightarrow>
                    if kd_lthresh d > kd_uthresh d then nack ERANGE t
                    else if kd_key d \<in> set (map kd_key (ks_dests s)) then nack EEXIST t
                    else ack (put_dests k (ks_dests s @ [d]) t))))"

definition k_del_dest :: "nlreq \<Rightarrow> ktable \<Rightarrow> reply" where
  "k_del_dest r t =
     (case Option.bind (req_service r) parse_key of
        None \<Rightarrow> nack EINVAL t
      | Some k \<Rightarrow>
          (case find_service k t of
             None \<Rightarrow> nack ESRCH t
           | Some s \<Rightarrow>
               (case Option.bind (req_dest r) parse_dest_key of
                  None \<Rightarrow> nack EINVAL t
                | Some (af, dk) \<Rightarrow>
                    if dk \<notin> set (map kd_key (ks_dests s)) then nack ENOENT t
                    else ack (put_dests k (filter (\<lambda>d. kd_key d \<noteq> dk) (ks_dests s)) t))))"

definition k_get_services :: "ktable \<Rightarrow> reply" where
  "k_get_services t =
     (map (\<lambda>s. MsgFamily (Inr (AttrMap [(IPVS_CMD_ATTR_SERVICE, AttrMap (dump_service s))]))) t
        @ [MsgDone], t)"

definition k_get_dests :: "nlreq \<Rightarrow> ktable \<Rightarrow> reply" where
  "k_get_dests r t =
     (case Option.bind (Option.bind (req_service r) parse_key) (\<lambda>k. find_service k t) of
        None \<Rightarrow> ([MsgDone], t)
      | Some s \<Rightarrow>
          (map (\<lambda>d. MsgFamily (Inr (AttrMap [(IPVS_CMD_ATTR_DEST, AttrMap (dump_dest d))]))) (ks_dests s)
             @ [MsgDone], t))"

definition k_exec :: "string list \<Rightarrow> nlreq \<Rightarrow> ktable \<Rightarrow> reply" where
  "k_exec scheds r t =
     (if nl_cmd r = IPVS_CMD_NEW_SERVICE then k_new_service scheds r t
      else if nl_cmd r = IPVS_CMD_DEL_SERVICE then k_del_service r t
      else if nl_cmd r = IPVS_CMD_GET_SERVICE then k_get_services t
      else if nl_cmd r = IPVS_CMD_NEW_DEST then k_new_dest r t
      else if nl_cmd r = IPVS_CMD_DEL_DEST then k_del_dest r t
      else if nl_cmd r = IPVS_CMD_GET_DEST then k_get_dests r t
      else if nl_cmd r = IPVS_CMD_FLUSH then ack []
      else nack EINVAL t)"

text \<open>The socket of this kernel, on any world that has its table.\<close>

record kworld =
  w_table :: ktable

definition kern_sync :: "string list \<Rightarrow> 'a kworld_scheme netlink" where
  "kern_sync scheds r w =
     (let (msgs, t) = k_exec scheds r (w_table w) in (Inr msgs, w\<lparr>w_table := t\<rparr>))"

definition kern_view :: "'a kworld_scheme \<Rightarrow> ipvs_view" where
  "kern_view w = table_view (w_table w)"

definition kern_ok :: "'a kworld_scheme \<Rightarrow> bool" where
  "kern_ok w \<longleftrightarrow> table_ok (w_table w)"

section \<open>The table operations under the view\<close>

lemma find_service_Some: "find_service k t = Some s \<Longrightarrow> s \<in> set t \<and> ks_key s = k"
  by (induction t) (auto split: if_splits)

lemma find_service_None: "find_service k t = None \<longleftrightarrow> k \<notin> ks_key ` set t"
  by (induction t) auto

lemma find_service_append:
  "find_service k (t @ u) =
     (case find_service k t of None \<Rightarrow> find_service k u | Some s \<Rightarrow> Some s)"
  by (induction t) auto

lemma find_service_filter:
  "find_service k' (filter (\<lambda>s. ks_key s \<noteq> k) t) = (if k' = k then None else find_service k' t)"
  by (induction t) auto

lemma find_service_put:
  "find_service k' (put_dests k ds t) =
     (if k' = k then map_option (\<lambda>s. s\<lparr>ks_dests := ds\<rparr>) (find_service k t) else find_service k' t)"
  by (induction t) auto

lemma keys_put_dests [simp]: "map ks_key (put_dests k ds t) = map ks_key t"
  by (induction t) auto

lemma table_view_None: "table_view t k = None \<longleftrightarrow> find_service k t = None"
  by (simp add: table_view_def)

lemma dom_table_view: "dom (table_view t) = ks_key ` set t"
  using find_service_None [of _ t] by (auto simp: table_view_def dom_def)

lemma table_view_new:
  "find_service (ks_key s) t = None \<Longrightarrow>
     table_view (t @ [s]) = (table_view t)(ks_key s \<mapsto> kd_key ` set (ks_dests s))"
  by (auto simp: fun_eq_iff table_view_def find_service_append split: option.splits)

lemma table_view_del:
  "table_view (filter (\<lambda>s. ks_key s \<noteq> k) t) = (table_view t)(k := None)"
  by (simp add: fun_eq_iff table_view_def find_service_filter)

lemma table_view_put:
  "find_service k t = Some s \<Longrightarrow>
     table_view (put_dests k ds t) = (table_view t)(k \<mapsto> kd_key ` set ds)"
  by (simp add: fun_eq_iff table_view_def find_service_put)

lemma table_ok_find: "table_ok t \<Longrightarrow> find_service k t = Some s \<Longrightarrow> service_ok s \<and> ks_key s = k"
  by (auto simp: table_ok_def list_all_iff dest: find_service_Some)

lemma table_ok_key: "table_ok t \<Longrightarrow> find_service k t = Some s \<Longrightarrow> key_ok k"
  by (auto simp: service_ok_def dest: table_ok_find)

lemma table_ok_new:
  "table_ok t \<Longrightarrow> service_ok s \<Longrightarrow> find_service (ks_key s) t = None \<Longrightarrow> table_ok (t @ [s])"
  by (auto simp: table_ok_def find_service_None)

lemma table_ok_del: "table_ok t \<Longrightarrow> table_ok (filter (\<lambda>s. ks_key s \<noteq> k) t)"
  by (auto simp: table_ok_def list_all_iff distinct_map_filter)

lemma table_ok_put:
  assumes "table_ok t" and "distinct (map kd_key ds)" and "list_all dest_ok ds"
  shows "table_ok (put_dests k ds t)"
proof -
  have "list_all service_ok (put_dests k ds t)" if "list_all service_ok t" for t
    using that assms(2,3) by (induction t) (auto simp: service_ok_def)
  with assms(1) show ?thesis by (simp add: table_ok_def)
qed

section \<open>Requests of the client\<close>

lemma parse_key_service:
  assumes "svc_key s = Some k"
  obtains as where "service_attrs full s = Some as" "parse_key as = (if key_ok k then Some k else None)"
proof (cases "s_FWMark s = 0")
  case False
  with assms show ?thesis
    by (intro that) (auto simp: svc_key_def service_attrs_def service_id_attrs_def parse_key_def key_ok_def)
next
  case True
  then obtain a where a: "packAddr (s_AddressFamily s) (s_Address s) = Some a"
    and k: "k = VipKey (s_AddressFamily s) (s_Protocol s) a (s_Port s)"
    and nz: "s_Protocol s \<noteq> 0" "s_Port s \<noteq> 0" "s_Address s \<noteq> None"
    using assms by (auto simp: svc_key_def split: if_splits)
  from k nz packAddr_length [OF a] have "key_ok k" by (auto simp: key_ok_def)
  with True a k nz packAddr_length [OF a] show ?thesis
    by (intro that, simp add: service_attrs_def service_id_attrs_def)
       (auto simp: parse_key_def packPort_def addr_size_def)
qed

lemma parse_service_attrs:
  assumes "svc_key s = Some k" and "key_ok k"
  obtains as where "service_attrs True s = Some as"
    "parse_service as = Some \<lparr>ks_key = k, ks_sched = s_SchedName s, ks_flags = pack_Flags (s_Flags s),
       ks_timeout = s_Timeout s, ks_netmask = s_Netmask s, ks_dests = []\<rparr>"
proof -
  obtain as where as: "service_attrs True s = Some as" "parse_key as = Some k"
    using parse_key_service [OF assms(1), of True] assms(2) by auto
  then have "map_of as IPVS_SVC_ATTR_SCHED_NAME = Some (NulStr (s_SchedName s))"
    "map_of as IPVS_SVC_ATTR_FLAGS = Some (Bin (pack_Flags (s_Flags s)))"
    "map_of as IPVS_SVC_ATTR_TIMEOUT = Some (U32 (s_Timeout s))"
    "map_of as IPVS_SVC_ATTR_NETMASK = Some (U32 (s_Netmask s))"
    by (auto simp: service_attrs_def service_id_attrs_def Option.bind_eq_Some_conv split: if_splits)
  with as show ?thesis by (intro that) (auto simp: parse_service_def)
qed

lemma parse_dest_attrs:
  assumes "dst_key d = Some dk"
  obtains as where "destination_attrs full d = Some as"
    "parse_dest_key as = Some (d_AddressFamily d, dk)"
    "full \<Longrightarrow> parse_dest as = Some \<lparr>kd_af = d_AddressFamily d, kd_addr = fst dk, kd_port = snd dk,
       kd_fwd = d_FwdMethod d, kd_weight = d_Weight d, kd_uthresh = d_UThresh d, kd_lthresh = d_LThresh d\<rparr>"
proof -
  obtain a where a: "packAddr (d_AddressFamily d) (d_Address d) = Some a" and dk: "dk = (a, d_Port d)"
    using assms by (auto simp: dst_key_def)
  show ?thesis
    using a dk packAddr_length [OF a]
    by (intro that)
      (auto simp: destination_attrs_def parse_dest_key_def parse_dest_def packPort_def addr_size_def)
qed

section \<open>What the client gets back\<close>

lemma Handle_ack_ack:
  "k_exec scheds \<lparr>nl_cmd = cmd, nl_type = NLM_F_ACK, nl_attrs = as\<rparr> (w_table w) = ([MsgError n], t) \<Longrightarrow>
     Handle_ack (kern_sync scheds) cmd as w =
       Some (if n = 0 then None else Some (Errno n), w\<lparr>w_table := t\<rparr>)"
  by (simp add: Handle_ack_def doCmd_def kern_sync_def)

text \<open>The structs the client builds from a dumped service and a dumped real server.\<close>

definition client_service :: "kservice \<Rightarrow> Service" where
  "client_service s = (case ks_key s of
     FwmKey af m \<Rightarrow> zero_Service\<lparr>s_AddressFamily := af, s_FWMark := m\<rparr>
   | VipKey af p a port \<Rightarrow>
       zero_Service\<lparr>s_AddressFamily := af, s_Protocol := p, s_Address := Some a, s_Port := port\<rparr>)
   \<lparr>s_SchedName := ks_sched s, s_Timeout := ks_timeout s, s_Netmask := ks_netmask s,
    s_Flags := (case unpack_Flags (ks_flags s) of Inl _ \<Rightarrow> zero_Flags | Inr f \<Rightarrow> f)\<rparr>"

definition client_dest :: "kdest \<Rightarrow> Destination" where
  "client_dest d = zero_Destination\<lparr>d_AddressFamily := kd_af d, d_Address := Some (kd_addr d),
     d_Port := kd_port d, d_FwdMethod := kd_fwd d, d_Weight := kd_weight d,
     d_UThresh := kd_uthresh d, d_LThresh := kd_lthresh d\<rparr>"

lemma unpackStats_zero:
  "unpackStats (AttrMap [(1, U32 0), (2, U32 0), (3, U32 0), (4, U64 0), (5, U64 0)]) = Some zero_Stats"
  by (simp add: unpackStats_def zero_Stats_def)

lemma unpackAddr_pad:
  "af = AF_INET \<and> length a = 4 \<or> af = AF_INET6 \<and> length a = 16 \<Longrightarrow>
     unpackAddr (pad_addr a) af = Inr a"
  by (auto simp: unpackAddr_def pad_addr_def)

lemma unpackAddr_Nil: "\<exists>e. unpackAddr [] af = Inl e"
  by (simp add: unpackAddr_def)

lemma unpack_dump_service:
  assumes "service_ok s"
  shows "unpackService (dump_service s) = Some (Inr (client_service s))"
proof -
  obtain f where f: "unpack_Flags (ks_flags s) = Inr f"
    using assms by (auto simp: service_ok_def unpack_Flags_def)
  show ?thesis
  proof (cases "ks_key s")
    case (FwmKey af m)
    with assms have "m \<noteq> 0" by (auto simp: service_ok_def key_ok_def)
    with FwmKey f unpackAddr_Nil [of af] show ?thesis
      by (auto simp: unpackService_def dump_service_def client_service_def unpackStats_zero
          zero_Service_def)
  next
    case (VipKey af p a port)
    with assms have "unpackAddr (pad_addr a) af = Inr a"
      by (auto simp: service_ok_def key_ok_def intro!: unpackAddr_pad)
    with VipKey f show ?thesis
      by (auto simp: unpackService_def dump_service_def client_service_def unpackStats_zero
          zero_Service_def)
  qed
qed

lemma packAddr_self:
  "af = AF_INET \<and> length a = 4 \<or> af = AF_INET6 \<and> length a = 16 \<Longrightarrow> packAddr af (Some a) = Some a"
  by (elim disjE) (simp_all add: packAddr_def To4_def To16_def)

lemma svc_key_client:
  assumes "service_ok s"
  shows "svc_key (client_service s) = Some (ks_key s)"
proof (cases "ks_key s")
  case (FwmKey af m)
  with assms show ?thesis
    by (simp add: svc_key_def client_service_def service_ok_def key_ok_def)
next
  case (VipKey af p a port)
  with assms packAddr_self [of af a] show ?thesis
    by (simp add: svc_key_def client_service_def service_ok_def key_ok_def zero_Service_def)
qed

lemma client_service_fwm:
  "s_FWMark (client_service s) \<noteq> 0 \<Longrightarrow>
     s_Port (client_service s) = 0 \<and> s_Protocol (client_service s) = 0"
  by (cases "ks_key s") (simp_all add: client_service_def zero_Service_def)

lemma unpack_dump_dest:
  assumes "dest_ok d"
  shows "unpackDest (dump_dest d) af = Some (Inr (client_dest d))"
  using assms unpackAddr_pad [of "kd_af d" "kd_addr d"]
  by (auto simp: dest_ok_def unpackDest_def dump_dest_def client_dest_def zero_Destination_def)

lemma dst_key_client: "dest_ok d \<Longrightarrow> dst_key (client_dest d) = Some (kd_key d)"
  by (simp add: dest_ok_def dst_key_def client_dest_def packAddr_self)

lemma run_service_dump:
  "list_all service_ok t \<Longrightarrow>
     run_responses (Some service_handler)
       (map (\<lambda>s. MsgFamily (Inr (AttrMap [(IPVS_CMD_ATTR_SERVICE, AttrMap (dump_service s))]))) t
          @ [MsgDone]) acc
     = Some (None, acc @ map client_service t)"
  by (induction t arbitrary: acc) (simp_all add: service_handler_def unpack_dump_service)

lemma run_dest_dump:
  "list_all dest_ok ds \<Longrightarrow>
     run_responses (Some (dest_handler af))
       (map (\<lambda>d. MsgFamily (Inr (AttrMap [(IPVS_CMD_ATTR_DEST, AttrMap (dump_dest d))]))) ds
          @ [MsgDone]) acc
     = Some (None, acc @ map client_dest ds)"
  by (induction ds arbitrary: acc) (simp_all add: dest_handler_def unpack_dump_dest)

lemma kern_ListServices:
  "kern_ok w \<Longrightarrow> Handle_ListServices (kern_sync scheds) w =
     Some ((map client_service (w_table w), None), w)"
  by (simp add: Handle_ListServices_def doCmd_def kern_sync_def k_exec_def k_get_services_def
      run_service_dump kern_ok_def table_ok_def)

lemma lists_services_table:
  assumes "table_ok t"
  shows "lists_services (table_view t) (map client_service t)"
proof -
  have eq: "map svc_key (map client_service t) = map Some (map ks_key t)"
    using assms by (auto simp: table_ok_def list_all_iff svc_key_client)
  then have "svc_key ` set (map client_service t) = Some ` ks_key ` set t"
    by (metis set_map)
  moreover have "distinct (map Some (map ks_key t))"
    using assms by (simp add: table_ok_def distinct_map inj_on_def)
  ultimately show ?thesis
    unfolding lists_services_def eq dom_table_view
    by (auto dest: client_service_fwm)
qed

lemma distinct_map_Some: "distinct xs \<Longrightarrow> distinct (map Some xs)"
  by (induction xs) auto
lemma lists_dests_table:
  assumes "list_all dest_ok ds" and "distinct (map kd_key ds)"
  shows "lists_dests (Some (kd_key ` set ds)) (map client_dest ds)"
proof -
  have eq: "map dst_key (map client_dest ds) = map Some (map kd_key ds)"
    using assms(1) by (induction ds) (simp_all add: dst_key_client)
  have "dst_key ` set (map client_dest ds) = Some ` kd_key ` set ds"
    using arg_cong [OF eq, of set] by (simp add: image_image)
  moreover have "distinct (map dst_key (map client_dest ds))"
    unfolding eq by (rule distinct_map_Some [OF assms(2)])
  ultimately show ?thesis
    by (simp only: lists_dests_def option.case)
qed

lemma kern_ListDestinations:
  assumes "kern_ok w" and k: "svc_key s = Some k"
  shows "\<exists>ds. Handle_ListDestinations (kern_sync scheds) s w = Some ((ds, None), w) \<and>
    lists_dests (kern_view w k) ds"
proof -
  obtain as where as: "service_attrs False s = Some as"
    and pk: "parse_key as = (if key_ok k then Some k else None)"
    using k by (rule parse_key_service)
  have t: "table_ok (w_table w)" using assms(1) by (simp add: kern_ok_def)
  show ?thesis
  proof (cases "find_service k (w_table w)")
    case None
    with as pk have "Handle_ListDestinations (kern_sync scheds) s w = Some (([], None), w)"
      by (simp add: Handle_ListDestinations_def fillAttrs_def doCmd_def kern_sync_def k_exec_def
          k_get_dests_def req_service_def)
    with None show ?thesis by (simp add: lists_dests_def kern_view_def table_view_def)
  next
    case (Some ks)
    with t have "service_ok ks" and ok: "key_ok k"
      by (auto dest: table_ok_find table_ok_key)
    then have d: "list_all dest_ok (ks_dests ks)" "distinct (map kd_key (ks_dests ks))"
      by (simp_all add: service_ok_def)
    have "Handle_ListDestinations (kern_sync scheds) s w =
        Some ((map client_dest (ks_dests ks), None), w)"
      by (simp add: Handle_ListDestinations_def fillAttrs_def doCmd_def kern_sync_def k_exec_def
          k_get_dests_def req_service_def run_dest_dump [OF d(1)] Some as pk ok)
    with Some lists_dests_table [OF d] show ?thesis
      by (simp add: kern_view_def table_view_def)
  qed
qed

section \<open>The mutating methods\<close>

lemma fill_service:
  assumes "svc_key s = Some k"
  obtains as where "fillAttrs (Some s) None full x = Some [(IPVS_CMD_ATTR_SERVICE, AttrMap as)]"
    "service_attrs full s = Some as" "parse_key as = (if key_ok k then Some k else None)"
  using parse_key_service [OF assms, of full] by (force simp: fillAttrs_def)

lemma fill_both:
  assumes "svc_key s = Some k" and "dst_key d = Some dk"
  obtains as ds where
    "fillAttrs (Some s) (Some d) False full =
       Some [(IPVS_CMD_ATTR_SERVICE, AttrMap as), (IPVS_CMD_ATTR_DEST, AttrMap ds)]"
    "parse_key as = (if key_ok k then Some k else None)"
    "parse_dest_key ds = Some (d_AddressFamily d, dk)"
    "full \<Longrightarrow> parse_dest ds = Some \<lparr>kd_af = d_AddressFamily d, kd_addr = fst dk, kd_port = snd dk,
       kd_fwd = d_FwdMethod d, kd_weight = d_Weight d, kd_uthresh = d_UThresh d, kd_lthresh = d_LThresh d\<rparr>"
proof -
  obtain as where as: "service_attrs False s = Some as" "parse_key as = (if key_ok k then Some k else None)"
    by (rule parse_key_service [OF assms(1)])
  show ?thesis
  proof (rule parse_dest_attrs [OF assms(2), of full])
    fix ds
    assume ds: "destination_attrs full d = Some ds"
      "parse_dest_key ds = Some (d_AddressFamily d, dk)"
      "full \<Longrightarrow> parse_dest ds = Some \<lparr>kd_af = d_AddressFamily d, kd_addr = fst dk, kd_port = snd dk,
       kd_fwd = d_FwdMethod d, kd_weight = d_Weight d, kd_uthresh = d_UThresh d, kd_lthresh = d_LThresh d\<rparr>"
    have "fillAttrs (Some s) (Some d) False full =
       Some [(IPVS_CMD_ATTR_SERVICE, AttrMap as), (IPVS_CMD_ATTR_DEST, AttrMap ds)]"
      by (simp add: fillAttrs_def as ds)
    then show ?thesis using as(2) ds(2,3) by (rule that)
  qed
qed

lemma kern_upd_id [simp]: "w\<lparr>w_table := w_table w\<rparr> = w"
  by simp

text \<open>What each method returns over this kernel, with the table it leaves.\<close>

lemma kern_NewService:
  assumes "svc_key s = Some k"
  shows "\<exists>e. Handle_NewService (kern_sync scheds) s w =
      Some (if e = 0 then None else Some (Errno e),
            if e = 0 then w\<lparr>w_table := w_table w @
              [\<lparr>ks_key = k, ks_sched = s_SchedName s, ks_flags = pack_Flags (s_Flags s),
                ks_timeout = s_Timeout s, ks_netmask = s_Netmask s, ks_dests = []\<rparr>]\<rparr> else w)
    \<and> (e = 0 \<longleftrightarrow> key_ok k \<and> find_service k (w_table w) = None \<and> s_SchedName s \<in> set scheds)"
proof -
  obtain as where f: "fillAttrs (Some s) None True False = Some [(IPVS_CMD_ATTR_SERVICE, AttrMap as)]"
    and sa: "service_attrs True s = Some as"
    and pk: "parse_key as = (if key_ok k then Some k else None)"
    by (rule fill_service [OF assms, of True False])
  define r where "r = \<lparr>nl_cmd = IPVS_CMD_NEW_SERVICE, nl_type = NLM_F_ACK,
    nl_attrs = [(IPVS_CMD_ATTR_SERVICE, AttrMap as)]\<rparr>"
  define e where "e = (if \<not> key_ok k then - EINVAL else if find_service k (w_table w) \<noteq> None then - EEXIST
    else if s_SchedName s \<notin> set scheds then - ENOENT else 0)"
  have "k_exec scheds r (w_table w) = ([MsgError e], w_table (if e = 0 then w\<lparr>w_table := w_table w @
              [\<lparr>ks_key = k, ks_sched = s_SchedName s, ks_flags = pack_Flags (s_Flags s),
                ks_timeout = s_Timeout s, ks_netmask = s_Netmask s, ks_dests = []\<rparr>]\<rparr> else w))"
  proof (cases "key_ok k")
    case True
    obtain as' where "service_attrs True s = Some as'" and ps:
      "parse_service as' = Some \<lparr>ks_key = k, ks_sched = s_SchedName s, ks_flags = pack_Flags (s_Flags s),
       ks_timeout = s_Timeout s, ks_netmask = s_Netmask s, ks_dests = []\<rparr>"
      by (rule parse_service_attrs [OF assms True])
    with sa have "parse_service as = parse_service as'" by simp
    with ps True show ?thesis
      by (simp add: r_def e_def k_exec_def k_new_service_def req_service_def)
  next
    case False
    with pk show ?thesis
      by (simp add: r_def e_def k_exec_def k_new_service_def req_service_def parse_service_def)
  qed
  then have "Handle_NewService (kern_sync scheds) s w =
      Some (if e = 0 then None else Some (Errno e),
            if e = 0 then w\<lparr>w_table := w_table w @
              [\<lparr>ks_key = k, ks_sched = s_SchedName s, ks_flags = pack_Flags (s_Flags s),
                ks_timeout = s_Timeout s, ks_netmask = s_Netmask s, ks_dests = []\<rparr>]\<rparr> else w)"
    by (simp add: Handle_NewService_def f Handle_ack_ack r_def)
  moreover have "e = 0 \<longleftrightarrow> key_ok k \<and> find_service k (w_table w) = None \<and> s_SchedName s \<in> set scheds"
    by (auto simp: e_def)
  ultimately show ?thesis by blast
qed

lemma kern_DelService:
  assumes "svc_key s = Some k"
  shows "\<exists>e. Handle_DelService (kern_sync scheds) s w =
      Some (if e = 0 then None else Some (Errno e),
            if e = 0 then w\<lparr>w_table := filter (\<lambda>s. ks_key s \<noteq> k) (w_table w)\<rparr> else w)
    \<and> (e = 0 \<longleftrightarrow> key_ok k \<and> find_service k (w_table w) \<noteq> None)"
proof -
  obtain as where f: "fillAttrs (Some s) None False False = Some [(IPVS_CMD_ATTR_SERVICE, AttrMap as)]"
    and pk: "parse_key as = (if key_ok k then Some k else None)"
    by (rule fill_service [OF assms, of False False])
  define e where "e = (if \<not> key_ok k then - EINVAL else if find_service k (w_table w) = None then - ESRCH
    else 0)"
  have "Handle_DelService (kern_sync scheds) s w =
      Some (if e = 0 then None else Some (Errno e),
            if e = 0 then w\<lparr>w_table := filter (\<lambda>s. ks_key s \<noteq> k) (w_table w)\<rparr> else w)"
    by (simp add: Handle_DelService_def f Handle_ack_def doCmd_def kern_sync_def e_def pk
        k_exec_def k_del_service_def req_service_def)
  moreover have "e = 0 \<longleftrightarrow> key_ok k \<and> find_service k (w_table w) \<noteq> None"
    by (auto simp: e_def)
  ultimately show ?thesis by blast
qed

lemma kern_NewDestination:
  assumes "svc_key s = Some k" and "dst_key d = Some dk"
  shows "\<exists>e w'. Handle_NewDestination (kern_sync scheds) s d w =
      Some (if e = 0 then None else Some (Errno e), w')
    \<and> (e = 0 \<longleftrightarrow> (\<exists>ks. key_ok k \<and> find_service k (w_table w) = Some ks \<and>
          d_LThresh d \<le> d_UThresh d \<and> dk \<notin> kd_key ` set (ks_dests ks)))
    \<and> (e \<noteq> 0 \<longrightarrow> w' = w)
    \<and> (e = 0 \<longrightarrow> (\<exists>ks. find_service k (w_table w) = Some ks \<and>
          w' = w\<lparr>w_table := put_dests k (ks_dests ks @
            [\<lparr>kd_af = d_AddressFamily d, kd_addr = fst dk, kd_port = snd dk, kd_fwd = d_FwdMethod d,
              kd_weight = d_Weight d, kd_uthresh = d_UThresh d, kd_lthresh = d_LThresh d\<rparr>]) (w_table w)\<rparr>))"
proof -
  define kd where "kd = \<lparr>kd_af = d_AddressFamily d, kd_addr = fst dk, kd_port = snd dk,
    kd_fwd = d_FwdMethod d, kd_weight = d_Weight d, kd_uthresh = d_UThresh d, kd_lthresh = d_LThresh d\<rparr>"
  obtain as ds where f: "fillAttrs (Some s) (Some d) False True =
       Some [(IPVS_CMD_ATTR_SERVICE, AttrMap as), (IPVS_CMD_ATTR_DEST, AttrMap ds)]"
    and pk: "parse_key as = (if key_ok k then Some k else None)" and pd: "parse_dest ds = Some kd"
    unfolding kd_def by (rule fill_both [OF assms, of True]) blast
  define r where "r = \<lparr>nl_cmd = IPVS_CMD_NEW_DEST, nl_type = NLM_F_ACK,
    nl_attrs = [(IPVS_CMD_ATTR_SERVICE, AttrMap as), (IPVS_CMD_ATTR_DEST, AttrMap ds)]\<rparr>"
  have ack: "Handle_NewDestination (kern_sync scheds) s d w =
      Some (if n = 0 then None else Some (Errno n), w\<lparr>w_table := t\<rparr>)"
    if "k_new_dest r (w_table w) = ([MsgError n], t)" for n t
    using that by (simp add: Handle_NewDestination_def f Handle_ack_ack r_def k_exec_def)
  have kk: "k_new_dest r (w_table w) = (if \<not> key_ok k then nack EINVAL (w_table w)
     else case find_service k (w_table w) of None \<Rightarrow> nack ESRCH (w_table w)
       | Some ks \<Rightarrow> if d_LThresh d > d_UThresh d then nack ERANGE (w_table w)
         else if dk \<in> kd_key ` set (ks_dests ks) then nack EEXIST (w_table w)
         else ack (put_dests k (ks_dests ks @ [kd]) (w_table w)))"
    by (simp add: k_new_dest_def r_def req_service_def req_dest_def pk pd kd_def split: option.split)
  show ?thesis
  proof (cases "key_ok k \<and> find_service k (w_table w) \<noteq> None")
    case False
    then obtain n where "n \<noteq> 0" "k_new_dest r (w_table w) = ([MsgError n], w_table w)"
      by (cases "key_ok k") (auto simp: kk)
    with False ack show ?thesis by (intro exI [of _ n] exI [of _ w]) auto
  next
    case True
    then obtain ks where ks: "find_service k (w_table w) = Some ks" by blast
    let ?bad = "d_LThresh d > d_UThresh d \<or> dk \<in> kd_key ` set (ks_dests ks)"
    show ?thesis
    proof (cases ?bad)
      case bad: True
      then obtain n where "n \<noteq> 0" "k_new_dest r (w_table w) = ([MsgError n], w_table w)"
        using True ks by (cases "d_UThresh d < d_LThresh d") (auto simp: kk)
      with bad ks ack show ?thesis by (intro exI [of _ n] exI [of _ w]) auto
    next
      case False
      then have "k_new_dest r (w_table w) = ack (put_dests k (ks_dests ks @ [kd]) (w_table w))"
        using True ks by (simp add: kk)
      from ack [OF this] False True ks show ?thesis by (intro exI [of _ 0]) (auto simp: kd_def)
    qed
  qed
qed

lemma kern_DelDestination:
  assumes "svc_key s = Some k" and "dst_key d = Some dk"
  shows "\<exists>e w'. Handle_DelDestination (kern_sync scheds) s d w =
      Some (if e = 0 then None else Some (Errno e), w')
    \<and> (e = 0 \<longleftrightarrow> (\<exists>ks. key_ok k \<and> find_service k (w_table w) = Some ks \<and>
          dk \<in> kd_key ` set (ks_dests ks)))
    \<and> (e \<noteq> 0 \<longrightarrow> w' = w)
    \<and> (e = 0 \<longrightarrow> (\<exists>ks. find_service k (w_table w) = Some ks \<and>
          w' = w\<lparr>w_table := put_dests k (filter (\<lambda>d. kd_key d \<noteq> dk) (ks_dests ks)) (w_table w)\<rparr>))"
proof -
  obtain as ds where f: "fillAttrs (Some s) (Some d) False False =
       Some [(IPVS_CMD_ATTR_SERVICE, AttrMap as), (IPVS_CMD_ATTR_DEST, AttrMap ds)]"
    and pk: "parse_key as = (if key_ok k then Some k else None)"
    and pd: "parse_dest_key ds = Some (d_AddressFamily d, dk)"
    by (rule fill_both [OF assms, of False]) blast
  define r where "r = \<lparr>nl_cmd = IPVS_CMD_DEL_DEST, nl_type = NLM_F_ACK,
    nl_attrs = [(IPVS_CMD_ATTR_SERVICE, AttrMap as), (IPVS_CMD_ATTR_DEST, AttrMap ds)]\<rparr>"
  have ack: "Handle_DelDestination (kern_sync scheds) s d w =
      Some (if n = 0 then None else Some (Errno n), w\<lparr>w_table := t\<rparr>)"
    if "k_del_dest r (w_table w) = ([MsgError n], t)" for n t
    using that by (simp add: Handle_DelDestination_def f Handle_ack_ack r_def k_exec_def)
  have kk: "k_del_dest r (w_table w) = (if \<not> key_ok k then nack EINVAL (w_table w)
     else case find_service k (w_table w) of None \<Rightarrow> nack ESRCH (w_table w)
       | Some ks \<Rightarrow> if dk \<notin> kd_key ` set (ks_dests ks) then nack ENOENT (w_table w)
         else ack (put_dests k (filter (\<lambda>d. kd_key d \<noteq> dk) (ks_dests ks)) (w_table w)))"
    by (simp add: k_del_dest_def r_def req_service_def req_dest_def pk pd split: option.split)
  show ?thesis
  proof (cases "key_ok k \<and> (\<exists>ks. find_service k (w_table w) = Some ks \<and> dk \<in> kd_key ` set (ks_dests ks))")
    case False
    then obtain n where "n \<noteq> 0" "k_del_dest r (w_table w) = ([MsgError n], w_table w)"
      by (cases "key_ok k"; cases "find_service k (w_table w)") (auto simp: kk)
    with False ack show ?thesis by (intro exI [of _ n] exI [of _ w]) auto
  next
    case True
    then obtain ks where ks: "find_service k (w_table w) = Some ks" "dk \<in> kd_key ` set (ks_dests ks)"
      by blast
    then have "k_del_dest r (w_table w) =
        ack (put_dests k (filter (\<lambda>d. kd_key d \<noteq> dk) (ks_dests ks)) (w_table w))"
      using True by (simp add: kk)
    from ack [OF this] True ks show ?thesis by (intro exI [of _ 0]) auto
  qed
qed

lemma kern_Flush: "Handle_Flush (kern_sync scheds) w = Some (None, w\<lparr>w_table := []\<rparr>)"
  by (simp add: Handle_Flush_def Handle_ack_ack [where n = 0 and t = "[]"] k_exec_def)

section \<open>The contract holds\<close>

text \<open>What the kernel accepts: the scheduler is known, the address family is, the thresholds are ordered.\<close>

definition kern_svc_ok :: "string list \<Rightarrow> Service \<Rightarrow> bool" where
  "kern_svc_ok scheds s \<longleftrightarrow> s_SchedName s \<in> set scheds \<and>
     (s_AddressFamily s = AF_INET \<or> s_AddressFamily s = AF_INET6)"

definition kern_dst_ok :: "Service \<Rightarrow> Destination \<Rightarrow> bool" where
  "kern_dst_ok s d \<longleftrightarrow> d_LThresh d \<le> d_UThresh d"

lemma svc_key_ok:
  assumes "svc_key s = Some k" and "kern_svc_ok scheds s"
  shows "key_ok k"
proof (cases "s_FWMark s = 0")
  case False
  with assms show ?thesis by (auto simp: svc_key_def key_ok_def kern_svc_ok_def)
next
  case True
  then obtain a where "packAddr (s_AddressFamily s) (s_Address s) = Some a"
    using assms by (auto simp: svc_key_def split: if_splits)
  from packAddr_length [OF this] True this assms show ?thesis
    by (auto simp: svc_key_def key_ok_def split: if_splits)
qed

lemma dst_key_ok:
  assumes "dst_key d = Some dk"
  shows "dest_ok \<lparr>kd_af = d_AddressFamily d, kd_addr = fst dk, kd_port = snd dk, kd_fwd = fw,
    kd_weight = wt, kd_uthresh = u, kd_lthresh = l\<rparr>"
proof -
  obtain a where a: "packAddr (d_AddressFamily d) (d_Address d) = Some a" and "dk = (a, d_Port d)"
    using assms by (auto simp: dst_key_def)
  then show ?thesis using packAddr_length [OF a] by (auto simp: dest_ok_def)
qed

interpretation kern: reliable_handle "netlink_handle (kern_sync scheds)"
    "kern_view :: 'a kworld_scheme \<Rightarrow> ipvs_view" kern_ok "kern_svc_ok scheds" kern_dst_ok
  for scheds
proof (unfold_locales, goal_cases)
  case (1 w)
  then show ?case
    by (simp add: netlink_handle_def kern_Flush kern_ok_def kern_view_def table_ok_def table_view_def fun_eq_iff)
next
  case (2 w)
  then show ?case
    by (simp add: netlink_handle_def kern_ListServices kern_view_def lists_services_table kern_ok_def)
next
  case (3 w s k)
  then show ?case using kern_ListDestinations [of w s k scheds] by (auto simp: netlink_handle_def)
next
  case (4 w s k)
  define ks where "ks = \<lparr>ks_key = k, ks_sched = s_SchedName s, ks_flags = pack_Flags (s_Flags s),
                ks_timeout = s_Timeout s, ks_netmask = s_Netmask s, ks_dests = []\<rparr>"
  obtain e where e: "Handle_NewService (kern_sync scheds) s w =
      Some (if e = 0 then None else Some (Errno e), if e = 0 then w\<lparr>w_table := w_table w @ [ks]\<rparr> else w)"
    "e = 0 \<longleftrightarrow> key_ok k \<and> find_service k (w_table w) = None \<and> s_SchedName s \<in> set scheds"
    using kern_NewService [OF 4(2), of scheds w] unfolding ks_def by blast
  have "service_ok ks" if "key_ok k" using that by (simp add: ks_def service_ok_def)
  with 4 e show ?case
    using table_view_new [of ks "w_table w"] table_ok_new [of "w_table w" ks]
    by (auto simp: netlink_handle_def kern_view_def kern_ok_def table_view_None domIff ks_def)
next
  case (5 w s k)
  obtain e where e: "Handle_DelService (kern_sync scheds) s w =
      Some (if e = 0 then None else Some (Errno e),
            if e = 0 then w\<lparr>w_table := filter (\<lambda>s. ks_key s \<noteq> k) (w_table w)\<rparr> else w)"
    "e = 0 \<longleftrightarrow> key_ok k \<and> find_service k (w_table w) \<noteq> None"
    using kern_DelService [OF 5(2), of scheds w] by blast
  with 5 show ?case
    by (cases "e = 0")
       (simp_all add: netlink_handle_def kern_view_def kern_ok_def table_view_del table_ok_del domIff
         table_view_None)
next
  case (6 w s k d dk)
  define kd where "kd = \<lparr>kd_af = d_AddressFamily d, kd_addr = fst dk, kd_port = snd dk,
    kd_fwd = d_FwdMethod d, kd_weight = d_Weight d, kd_uthresh = d_UThresh d, kd_lthresh = d_LThresh d\<rparr>"
  obtain e w' where e: "Handle_NewDestination (kern_sync scheds) s d w =
      Some (if e = 0 then None else Some (Errno e), w')"
    "e = 0 \<Longrightarrow> \<exists>ks. find_service k (w_table w) = Some ks \<and> dk \<notin> kd_key ` set (ks_dests ks)"
    "e \<noteq> 0 \<Longrightarrow> w' = w"
    "e = 0 \<Longrightarrow> \<exists>ks. find_service k (w_table w) = Some ks \<and>
          w' = w\<lparr>w_table := put_dests k (ks_dests ks @ [kd]) (w_table w)\<rparr>"
    using kern_NewDestination [OF 6(2,3), of scheds w] unfolding kd_def by blast
  show ?case
  proof (cases "e = 0")
    case False
    with e(1,3) 6 show ?thesis by (simp add: netlink_handle_def)
  next
    case True
    then obtain ks where ks: "find_service k (w_table w) = Some ks" "dk \<notin> kd_key ` set (ks_dests ks)"
      and w': "w' = w\<lparr>w_table := put_dests k (ks_dests ks @ [kd]) (w_table w)\<rparr>"
      using e by auto
    have kd: "kd_key kd = dk" "dest_ok kd"
      using dst_key_ok [OF 6(3)] by (simp_all add: kd_def)
    have t: "table_ok (w_table w)" using 6 by (simp add: kern_ok_def)
    with ks have "service_ok ks" by (auto dest: table_ok_find)
    with t ks kd have "table_ok (w_table w')"
      unfolding w' by (auto intro!: table_ok_put simp: service_ok_def)
    moreover have "table_view (w_table w') = (table_view (w_table w))(k \<mapsto> insert dk (kd_key ` set (ks_dests ks)))"
      using ks(1) kd by (simp add: w' table_view_put)
    ultimately show ?thesis
      using e(1) True ks by (simp add: netlink_handle_def kern_view_def kern_ok_def table_view_def)
  qed
next
  case (7 w s k d dk)
  obtain e w' where e: "Handle_DelDestination (kern_sync scheds) s d w =
      Some (if e = 0 then None else Some (Errno e), w')"
    "e = 0 \<Longrightarrow> \<exists>ks. find_service k (w_table w) = Some ks \<and> dk \<in> kd_key ` set (ks_dests ks)"
    "e \<noteq> 0 \<Longrightarrow> w' = w"
    "e = 0 \<Longrightarrow> \<exists>ks. find_service k (w_table w) = Some ks \<and>
          w' = w\<lparr>w_table := put_dests k (filter (\<lambda>d. kd_key d \<noteq> dk) (ks_dests ks)) (w_table w)\<rparr>"
    using kern_DelDestination [OF 7(2,3), of scheds w] by blast
  show ?case
  proof (cases "e = 0")
    case False
    with e(1,3) 7 show ?thesis by (simp add: netlink_handle_def)
  next
    case True
    then obtain ks where ks: "find_service k (w_table w) = Some ks" "dk \<in> kd_key ` set (ks_dests ks)"
      and w': "w' = w\<lparr>w_table := put_dests k (filter (\<lambda>d. kd_key d \<noteq> dk) (ks_dests ks)) (w_table w)\<rparr>"
      using e by auto
    have t: "table_ok (w_table w)" using 7 by (simp add: kern_ok_def)
    with ks have "service_ok ks" by (auto dest: table_ok_find)
    with t have "table_ok (w_table w')"
      unfolding w' by (auto intro!: table_ok_put simp: service_ok_def distinct_map_filter list_all_iff)
    moreover have "kd_key ` {d \<in> set (ks_dests ks). kd_key d \<noteq> dk} = kd_key ` set (ks_dests ks) - {dk}"
      by auto
    then have "table_view (w_table w') = (table_view (w_table w))(k \<mapsto> kd_key ` set (ks_dests ks) - {dk})"
      using ks(1) by (simp add: w' table_view_put)
    ultimately show ?thesis
      using e(1) True ks by (simp add: netlink_handle_def kern_view_def kern_ok_def table_view_def)
  qed
next
  case (8 w e w')
  then show ?case by (simp add: netlink_handle_def kern_Flush)
next
  case (9 w ss e w')
  then show ?case by (simp add: netlink_handle_def kern_ListServices)
next
  case (10 w s k ds e w')
  then show ?case using kern_ListDestinations [of w s k scheds] by (auto simp: netlink_handle_def)
next
  case (11 w s k e w')
  then show ?case using kern_NewService [OF 11(2), of scheds w] svc_key_ok [OF 11(2,4)]
    by (auto simp: netlink_handle_def kern_svc_ok_def kern_view_def domIff table_view_None)
next
  case (12 w s k e w')
  then have "find_service k (w_table w) \<noteq> None" by (simp add: kern_view_def table_view_None domIff)
  moreover from this have "key_ok k" using 12(1) by (auto simp: kern_ok_def dest: table_ok_key)
  ultimately show ?case using 12 kern_DelService [OF 12(2), of scheds w]
    by (auto simp: netlink_handle_def)
next
  case (13 w s k d dk D e w')
  then obtain ks where "find_service k (w_table w) = Some ks" "D = kd_key ` set (ks_dests ks)"
    by (auto simp: kern_view_def table_view_def)
  moreover from this have "key_ok k" using 13(1) by (auto simp: kern_ok_def dest: table_ok_key)
  ultimately show ?case using 13 kern_NewDestination [OF 13(2,3), of scheds w]
    by (auto simp: netlink_handle_def kern_dst_ok_def)
next
  case (14 w s k d dk D e w')
  then obtain ks where "find_service k (w_table w) = Some ks" "D = kd_key ` set (ks_dests ks)"
    by (auto simp: kern_view_def table_view_def)
  moreover from this have "key_ok k" using 14(1) by (auto simp: kern_ok_def dest: table_ok_key)
  ultimately show ?case using 14 kern_DelDestination [OF 14(2,3), of scheds w]
    by (auto simp: netlink_handle_def)
qed

end
