(* ===== verification/Ipvsdr_Correct.thy ===== *)
theory Ipvsdr_Correct
  imports Ipvsdr Ipvs_Kernel
begin

text \<open>
  What the manager of \<open>Ipvsdr\<close> does to the kernel's table, stated on the view: the
  abstract operations \<open>spec_add\<close>, \<open>spec_del\<close> and \<open>spec_delrs\<close>, and the proof that
  \<open>Add\<close>, \<open>Del\<close> and \<open>DelRServer\<close> implement them over a reliable handle when the
  manager has an IPv4 address and does not mark connections (\<open>lvs_ready\<close>). The locale
  \<open>real_servers\<close> is the contract the controller relies on.
\<close>

section \<open>The abstract operations\<close>

definition proto_num :: "string \<Rightarrow> u16" where
  "proto_num proto = (if proto = UDP then IPPROTO_UDP else IPPROTO_TCP)"

definition vip_key :: "bytes \<Rightarrow> string \<Rightarrow> u16 \<Rightarrow> svc_key" where
  "vip_key v proto port = VipKey AF_INET (proto_num proto) v port"

text \<open>The four bytes a textual address stands for.\<close>

definition addr4 :: "net_IP \<Rightarrow> bytes option" where
  "addr4 ip = To4 (ParseIP (string_of_bytes (ip_bytes ip)))"

definition spec_add :: "svc_key \<Rightarrow> dst_key \<Rightarrow> ipvs_view \<Rightarrow> ipvs_view" where
  "spec_add k dk V = V(k \<mapsto> insert dk (case V k of None \<Rightarrow> {} | Some D \<Rightarrow> D))"

definition spec_del :: "svc_key \<Rightarrow> dst_key \<Rightarrow> ipvs_view \<Rightarrow> ipvs_view" where
  "spec_del k dk V =
     (case V k of
        None \<Rightarrow> V
      | Some D \<Rightarrow> if dk \<notin> D then V else if D = {dk} then V(k := None) else V(k \<mapsto> D - {dk}))"

definition spec_delrs :: "bytes \<Rightarrow> ipvs_view \<Rightarrow> ipvs_view" where
  "spec_delrs a V k =
     (case V k of
        None \<Rightarrow> None
      | Some D \<Rightarrow> let D' = {dk \<in> D. fst dk \<noteq> a} in if D' = {} then None else Some D')"

text \<open>Every service of the table is one of this address, and its real servers are IPv4.\<close>

definition owned :: "bytes \<Rightarrow> ipvs_view \<Rightarrow> bool" where
  "owned v V \<longleftrightarrow> (\<forall>k D. V k = Some D \<longrightarrow>
     (\<exists>p port. k = VipKey AF_INET p v port) \<and> (\<forall>dk \<in> D. length (fst dk) = 4))"

definition good_world :: "bytes \<Rightarrow> ('w \<Rightarrow> ipvs_view) \<Rightarrow> ('w \<Rightarrow> bool) \<Rightarrow> 'w \<Rightarrow> bool" where
  "good_world v view invar w \<longleftrightarrow> invar w \<and> owned v (view w)"

lemma owned_empty [simp]: "owned v Map.empty"
  by (simp add: owned_def)

lemma owned_spec_add:
  "owned v V \<Longrightarrow> length (fst dk) = 4 \<Longrightarrow> owned v (spec_add (vip_key v proto port) dk V)"
  by (auto simp: owned_def spec_add_def vip_key_def split: option.splits)

lemma owned_spec_del: "owned v V \<Longrightarrow> owned v (spec_del k dk V)"
  by (auto simp: owned_def spec_del_def split: option.splits if_splits)

lemma owned_spec_delrs: "owned v V \<Longrightarrow> owned v (spec_delrs a V)"
  by (auto simp: owned_def spec_delrs_def Let_def split: option.splits if_splits)

lemma owned_upd:
  "owned v V \<Longrightarrow> V k = Some D \<Longrightarrow> X = None \<or> (\<exists>D'. X = Some D' \<and> D' \<subseteq> D) \<Longrightarrow> owned v (V(k := X))"
  by (auto simp: owned_def)

lemma addr4_length: "addr4 ip = Some a \<Longrightarrow> length a = 4"
  by (simp add: addr4_def To4_length)

lemma addr4_dotted_quad [simp]:
  "addr4 (Some (bytes_of_string (dotted_quad a b c d))) = Some [a, b, c, d]"
  by (simp add: addr4_def ParseIP_dotted_quad)

section \<open>Keys of the structs the manager builds\<close>

lemma svc_key_VipKey:
  "svc_key s = Some (VipKey af p a port) \<Longrightarrow>
     s_AddressFamily s = af \<and> s_Protocol s = p \<and> s_Port s = port \<and> s_FWMark s = 0"
  by (auto simp: svc_key_def split: if_splits)

lemma dst_key_len4:
  "dst_key d = Some (a, port) \<Longrightarrow> length a = 4 \<Longrightarrow> To4 (d_Address d) = Some a \<and> d_Port d = port"
  by (auto simp: dst_key_def packAddr_def split: if_splits dest: To16_length)

lemma base_service_sel [simp]:
  "s_Port (base_service lm p port m) = port" "s_Protocol (base_service lm p port m) = p"
  "s_FWMark (base_service lm p port m) = m" "s_Address (base_service lm p port m) = lm_vip lm"
  "s_AddressFamily (base_service lm p port m) = AF_INET"
  "s_SchedName (base_service lm p port m) = lm_SchedName lm"
  by (simp_all add: base_service_def)

lemma To4_None: "To4 None = None"
  by (simp add: To4_def)

lemma svc_key_base:
  "To4 (lm_vip lm) = Some v \<Longrightarrow> p \<noteq> 0 \<Longrightarrow> port \<noteq> 0 \<Longrightarrow>
     svc_key (base_service lm p port 0) = Some (VipKey AF_INET p v port)"
  using To4_None by (cases "lm_vip lm") (auto simp: svc_key_def packAddr_def)

lemma dst_key_base: "dst_key (base_destination ip port) = map_option (\<lambda>a. (a, port)) (addr4 ip)"
  by (simp add: dst_key_def base_destination_def packAddr_def addr4_def)

text \<open>
  The tests of the two Ensure methods decide membership in the view. \<open>EnsureService\<close>
  compares port and protocol only, which is enough while the table is owned.
\<close>

lemma listed_service_iff:
  assumes l: "lists_services V ss" and o: "owned v V"
  shows "list_ex (\<lambda>s. s_Port s = port \<and> s_Protocol s = p) ss \<longleftrightarrow> VipKey AF_INET p v port \<in> dom V"
proof
  assume "list_ex (\<lambda>s. s_Port s = port \<and> s_Protocol s = p) ss"
  then obtain s where s: "s \<in> set ss" "s_Port s = port" "s_Protocol s = p"
    by (auto simp: list_ex_iff)
  then have "svc_key s \<in> Some ` dom V" using l by (auto simp: lists_services_def)
  then obtain k D where k: "svc_key s = Some k" "V k = Some D" by auto
  with o obtain p' port' where "k = VipKey AF_INET p' v port'" unfolding owned_def by blast
  with k s show "VipKey AF_INET p v port \<in> dom V" by (auto dest: svc_key_VipKey)
next
  assume "VipKey AF_INET p v port \<in> dom V"
  then have "Some (VipKey AF_INET p v port) \<in> svc_key ` set ss"
    using l by (auto simp: lists_services_def)
  then show "list_ex (\<lambda>s. s_Port s = port \<and> s_Protocol s = p) ss"
    by (force simp: list_ex_iff dest: sym [THEN svc_key_VipKey])
qed

lemma listed_dest_iff:
  assumes l: "lists_dests (Some D) ds" and len: "\<forall>dk \<in> D. length (fst dk) = 4"
    and a: "To4 x = Some a"
  shows "list_ex (\<lambda>d. IP_Equal (d_Address d) x \<and> d_Port d = port) ds \<longleftrightarrow> (a, port) \<in> D"
proof -
  have key: "\<exists>b. dst_key d = Some (b, d_Port d) \<and> (b, d_Port d) \<in> D \<and> To4 (d_Address d) = Some b"
    if "d \<in> set ds" for d
  proof -
    have "dst_key d \<in> Some ` D" using l that by (auto simp: lists_dests_def)
    then obtain b q where "dst_key d = Some (b, q)" "(b, q) \<in> D" by auto
    moreover from this len have "length b = 4" by force
    ultimately show ?thesis using dst_key_len4 by blast
  qed
  have "dst_key ` set ds = Some ` D"
    using l by (simp add: lists_dests_def)
  then have "Some (a, port) \<in> Some ` D \<longleftrightarrow> Some (a, port) \<in> dst_key ` set ds" by simp
  then have "(a, port) \<in> D \<longleftrightarrow> (\<exists>d \<in> set ds. dst_key d = Some (a, port))" by force
  also have "\<dots> \<longleftrightarrow> (\<exists>d \<in> set ds. IP_Equal (d_Address d) x \<and> d_Port d = port)"
    using key IP_Equal_To4 [OF _ a] by (metis option.inject prod.inject)
  finally show ?thesis by (simp add: list_ex_iff)
qed

lemma IP_Equal_key:
  "dst_key d = Some dk \<Longrightarrow> length (fst dk) = 4 \<Longrightarrow> To4 x = Some a \<Longrightarrow>
     IP_Equal (d_Address d) x \<longleftrightarrow> fst dk = a"
  using dst_key_len4 [of d "fst dk" "snd dk"] IP_Equal_To4 [of "d_Address d" "fst dk" x a] by simp

lemma lists_dests_length: "lists_dests (Some D) ds \<Longrightarrow> length ds = 0 \<longleftrightarrow> D = {}"
  by (auto simp: lists_dests_def)

section \<open>Refinement over a reliable handle\<close>

text \<open>
  The manager is ready: it has a handle and an IPv4 address, does not mark connections, and
  the kernel accepts the structs it builds. \<open>svc p port\<close> is the service it builds.
\<close>

locale lvs_ready = reliable_handle h view invar svc_ok dst_ok
  for h :: "'w IPVSHandle" and view :: "'w \<Rightarrow> ipvs_view" and invar :: "'w \<Rightarrow> bool"
    and svc_ok :: "Service \<Rightarrow> bool" and dst_ok :: "Service \<Rightarrow> Destination \<Rightarrow> bool" +
  fixes hst :: "'w host" and lm :: "'w LvsManager" and v :: bytes
  assumes handle_lm: "lm_handle lm = Some h"
    and unmarked: "\<not> lm_marked lm"
    and vip4: "To4 (lm_vip lm) = Some v"
    and base_svc_ok: "svc_ok (base_service lm p port 0)"
    and base_dst_ok: "dst_ok (base_service lm p port 0) (base_destination ip port)"
begin

abbreviation good :: "'w \<Rightarrow> bool" where
  "good \<equiv> good_world v view invar"

lemma ensure_service:
  assumes w: "good w" and p: "p \<noteq> 0" and port: "port \<noteq> 0"
  defines "k \<equiv> VipKey AF_INET p v port"
  shows "\<exists>w'. EnsureService lm (base_service lm p port 0) w = Some (None, w') \<and> invar w' \<and>
    view w' = (if k \<in> dom (view w) then view w else (view w)(k \<mapsto> {}))"
proof -
  have inv: "invar w" and own: "owned v (view w)" using w by (simp_all add: good_world_def)
  obtain ss e w1 where ls: "ListServices h w = Some ((ss, e), w1)" "invar w1" "view w1 = view w"
    "e = None \<longrightarrow> lists_services (view w) ss"
    using list_services [OF inv] by blast
  with list_services_ok [OF inv ls(1)] have e: "e = None" and l: "lists_services (view w) ss" by auto
  note iff = listed_service_iff [OF l own, of port p, folded k_def]
  show ?thesis
  proof (cases "k \<in> dom (view w)")
    case True
    with ls e iff show ?thesis by (simp add: EnsureService_def handle_lm)
  next
    case False
    have key: "svc_key (base_service lm p port 0) = Some k"
      unfolding k_def by (rule svc_key_base [OF vip4 p port])
    obtain e2 w2 where n: "NewService h (base_service lm p port 0) w1 = Some (e2, w2)" "invar w2"
      "if e2 = None then k \<notin> dom (view w1) \<and> view w2 = (view w1)(k \<mapsto> {}) else view w2 = view w1"
      using new_service [OF ls(2) key] by blast
    have "e2 = None"
      by (rule new_service_ok [OF ls(2) key _ base_svc_ok n(1)]) (simp add: False ls(3))
    with n ls e iff False show ?thesis by (simp add: EnsureService_def handle_lm)
  qed
qed

lemma ensure_destination:
  assumes inv: "invar w" and p: "p \<noteq> 0" and port: "port \<noteq> 0" and a: "addr4 ip = Some a"
  defines "k \<equiv> VipKey AF_INET p v port"
  assumes D: "view w k = Some D" and len: "\<forall>dk \<in> D. length (fst dk) = 4"
  shows "\<exists>w'. EnsureDestination lm (base_service lm p port 0) (base_destination ip port) w = Some (None, w') \<and>
    invar w' \<and> view w' = (view w)(k \<mapsto> insert (a, port) D)"
proof -
  have key: "svc_key (base_service lm p port 0) = Some k"
    unfolding k_def by (rule svc_key_base [OF vip4 p port])
  have dkey: "dst_key (base_destination ip port) = Some (a, port)" by (simp add: dst_key_base a)
  obtain ds e w1 where ls: "ListDestinations h (base_service lm p port 0) w = Some ((ds, e), w1)"
    "invar w1" "view w1 = view w" "e = None \<longrightarrow> lists_dests (view w k) ds"
    using list_dests [OF inv key] by blast
  with list_dests_ok [OF inv key ls(1)] D have e: "e = None" and l: "lists_dests (Some D) ds" by auto
  have sel: "d_Port (base_destination ip port) = port"
    "To4 (d_Address (base_destination ip port)) = Some a"
    using a by (simp_all add: base_destination_def addr4_def)
  note iff = listed_dest_iff [OF l len sel(2), of port]
  show ?thesis
  proof (cases "(a, port) \<in> D")
    case True
    then have "insert (a, port) D = D" by blast
    with ls e iff True sel D show ?thesis
      by (simp add: EnsureDestination_def handle_lm map_upd_triv)
  next
    case False
    obtain e2 w2 where n: "NewDestination h (base_service lm p port 0) (base_destination ip port) w1 = Some (e2, w2)"
      "invar w2" "if e2 = None then \<exists>D. view w1 k = Some D \<and> (a, port) \<notin> D \<and>
        view w2 = (view w1)(k \<mapsto> insert (a, port) D) else view w2 = view w1"
      using new_dest [OF ls(2) key dkey] by blast
    have "e2 = None"
      by (rule new_dest_ok [OF ls(2) key dkey _ False base_dst_ok n(1)]) (simp add: D ls(3))
    with n ls e iff False sel D show ?thesis by (simp add: EnsureDestination_def handle_lm)
  qed
qed

lemma Base_ready:
  assumes "proto = TCP \<or> proto = UDP"
  shows "Base hst lm ip port proto w =
    ((None, base_service lm (proto_num proto) port 0, base_destination ip port), w)"
  using assms unmarked by (auto simp: Base_def proto_num_def TCP_def UDP_def)

lemma add_spec:
  assumes w: "good w" and a: "addr4 ip = Some a" and port: "port \<noteq> 0"
    and proto: "proto = TCP \<or> proto = UDP"
  shows "\<exists>w'. Add hst lm ip port proto w = Some (None, w') \<and> good w' \<and>
    view w' = spec_add (vip_key v proto port) (a, port) (view w)"
proof -
  define k where "k = vip_key v proto port"
  have p: "proto_num proto \<noteq> 0" by (simp add: proto_num_def)
  obtain w1 where s: "EnsureService lm (base_service lm (proto_num proto) port 0) w = Some (None, w1)"
    "invar w1" "view w1 = (if k \<in> dom (view w) then view w else (view w)(k \<mapsto> {}))"
    using ensure_service [OF w p port] unfolding k_def vip_key_def by blast
  define D where "D = (case view w k of None \<Rightarrow> {} | Some D \<Rightarrow> D)"
  have v1: "view w1 k = Some D" using s(3) by (auto simp: D_def split: option.split)
  have len: "\<forall>dk \<in> D. length (fst dk) = 4"
    using w by (auto simp: D_def good_world_def owned_def split: option.splits)
  obtain w2 where d: "EnsureDestination lm (base_service lm (proto_num proto) port 0)
      (base_destination ip port) w1 = Some (None, w2)" "invar w2"
    "view w2 = (view w1)(k \<mapsto> insert (a, port) D)"
    using ensure_destination [OF s(2) p port a v1 [unfolded k_def vip_key_def] len]
    unfolding k_def vip_key_def by blast
  have view2: "view w2 = spec_add k (a, port) (view w)"
    using d(3) s(3) by (auto simp: spec_add_def D_def)
  moreover have "good w2"
    using w d(2) addr4_length [OF a] view2 unfolding good_world_def k_def
    by (simp add: owned_spec_add)
  moreover have "Add hst lm ip port proto w = Some (None, w2)"
    using s(1) d(1) by (simp add: Add_def Base_ready [OF proto])
  ultimately show ?thesis unfolding k_def by blast
qed

text \<open>Listing the real servers of a service, and \<open>DeleteDeadSvc\<close> after it.\<close>

lemma listed:
  assumes "invar w" and "svc_key s = Some k" and "view w k = Some D"
  shows "\<exists>ds w'. ListDestinations h s w = Some ((ds, None), w') \<and> invar w' \<and> view w' = view w \<and>
    lists_dests (Some D) ds"
  using list_dests [OF assms(1,2)] list_dests_ok [OF assms(1,2)] assms(3) by fastforce

lemma delete_dead:
  assumes "invar w" and key: "svc_key s = Some k" and D: "view w k = Some D"
  shows "\<exists>e w'. DeleteDeadSvc lm s w = Some (e, w') \<and> invar w' \<and>
    view w' = (if D = {} then (view w)(k := None) else view w)"
proof -
  obtain ds w1 where l: "ListDestinations h s w = Some ((ds, None), w1)" "invar w1" "view w1 = view w"
    "length ds = 0 \<longleftrightarrow> D = {}"
    using listed [OF assms] lists_dests_length by blast
  obtain e w2 where r: "DelService h s w1 = Some (e, w2)" "invar w2"
    "if e = None then k \<in> dom (view w1) \<and> view w2 = (view w1)(k := None) else view w2 = view w1"
    using del_service [OF l(2) key] by blast
  moreover have "e = None" by (rule del_service_ok [OF l(2) key _ r(1)]) (simp add: D l(3) domI)
  ultimately show ?thesis using l by (cases "D = {}") (simp_all add: DeleteDeadSvc_def handle_lm)
qed

lemma del_spec:
  assumes w: "good w" and a: "addr4 ip = Some a" and port: "port \<noteq> 0"
    and proto: "proto = TCP \<or> proto = UDP"
  shows "\<exists>w'. Del hst lm ip port proto w = Some (None, w') \<and> good w' \<and>
    view w' = spec_del (vip_key v proto port) (a, port) (view w)"
proof -
  define k where "k = vip_key v proto port"
  let ?s = "base_service lm (proto_num proto) port 0" and ?d = "base_destination ip port"
  have inv: "invar w" using w by (simp add: good_world_def)
  have key: "svc_key ?s = Some k"
    unfolding k_def vip_key_def by (rule svc_key_base [OF vip4 _ port]) (simp add: proto_num_def)
  have dkey: "dst_key ?d = Some (a, port)" by (simp add: dst_key_base a)
  obtain e1 w1 where d: "DelDestination h ?s ?d w = Some (e1, w1)" "invar w1"
    "if e1 = None then \<exists>D. view w k = Some D \<and> (a, port) \<in> D \<and> view w1 = (view w)(k \<mapsto> D - {(a, port)})
     else view w1 = view w"
    using del_dest [OF inv key dkey] by blast
  have Del: "Del hst lm ip port proto w = map_option (\<lambda>(_, w'). (None, w')) (DeleteDestination lm ?s ?d w)"
    by (cases "DeleteDestination lm ?s ?d w") (auto simp: Del_def Base_ready [OF proto])
  have "\<exists>e w'. DeleteDestination lm ?s ?d w = Some (e, w') \<and> invar w' \<and>
    view w' = spec_del k (a, port) (view w)"
  proof (cases e1)
    case (Some e)
    then have "spec_del k (a, port) (view w) = view w"
      using d(1) del_dest_ok [OF inv key dkey] by (auto simp: spec_del_def split: option.split)
    with d Some show ?thesis by (simp add: DeleteDestination_def handle_lm)
  next
    case None
    then obtain D where D: "view w k = Some D" "(a, port) \<in> D" "view w1 = (view w)(k \<mapsto> D - {(a, port)})"
      using d(3) by auto
    obtain e2 w2 where dead: "DeleteDeadSvc lm ?s w1 = Some (e2, w2)" "invar w2"
      "view w2 = (if D - {(a, port)} = {} then (view w1)(k := None) else view w1)"
      using delete_dead [OF d(2) key, of "D - {(a, port)}"] D(3) by auto
    have "view w2 = spec_del k (a, port) (view w)"
      using D dead(3) by (auto simp: spec_del_def)
    with d(1) dead None show ?thesis
      by (cases e2) (simp_all add: DeleteDestination_def handle_lm)
  qed
  then obtain e w' where r: "DeleteDestination lm ?s ?d w = Some (e, w')" "invar w'"
    "view w' = spec_del k (a, port) (view w)" by blast
  then have "good w'" using w by (simp add: good_world_def owned_spec_del)
  with r Del show ?thesis by (simp add: k_def)
qed

text \<open>\<open>DelRServer\<close>: the inner loop removes the listed real servers with the address \<open>a\<close>.\<close>

lemma del_matching_ok:
  assumes "invar w" and key: "svc_key s = Some k" and "view w k = Some D"
    and "distinct (map dst_key ds)"
    and "\<forall>d \<in> set ds. \<exists>dk \<in> D. dst_key d = Some dk \<and> (IP_Equal (d_Address d) x \<longleftrightarrow> fst dk = a)"
  shows "\<exists>w'. del_matching h s x ds w = Some (None, w') \<and> invar w' \<and>
    view w' = (view w)(k \<mapsto> {dk \<in> D. \<not> (fst dk = a \<and> Some dk \<in> dst_key ` set ds)})"
  using assms
proof (induction ds arbitrary: w D)
  case Nil
  then show ?case by (simp add: map_upd_triv)
next
  case (Cons d ds)
  then obtain dk where dk: "dk \<in> D" "dst_key d = Some dk" "IP_Equal (d_Address d) x \<longleftrightarrow> fst dk = a"
    by auto
  show ?case
  proof (cases "fst dk = a")
    case False
    then have "{e \<in> D. \<not> (fst e = a \<and> Some e \<in> dst_key ` set (d # ds))} =
        {e \<in> D. \<not> (fst e = a \<and> Some e \<in> dst_key ` set ds)}" using dk by auto
    with Cons.IH [OF Cons.prems(1) key Cons.prems(3)] Cons.prems(4,5) dk False show ?thesis by simp
  next
    case True
    obtain e w1 where d: "DelDestination h s d w = Some (e, w1)" "invar w1"
      "if e = None then \<exists>D. view w k = Some D \<and> dk \<in> D \<and> view w1 = (view w)(k \<mapsto> D - {dk})
       else view w1 = view w"
      using del_dest [OF Cons.prems(1) key dk(2)] by blast
    have "e = None" by (rule del_dest_ok [OF Cons.prems(1) key dk(2) Cons.prems(3) dk(1) d(1)])
    with d(3) Cons.prems(3) have v1: "view w1 = (view w)(k \<mapsto> D - {dk})" by auto
    have rest: "\<forall>d' \<in> set ds. \<exists>dk' \<in> D - {dk}. dst_key d' = Some dk' \<and>
        (IP_Equal (d_Address d') x \<longleftrightarrow> fst dk' = a)"
    proof
      fix d' assume "d' \<in> set ds"
      moreover from this have "dst_key d' \<noteq> Some dk" using Cons.prems(4) dk(2) by force
      ultimately show "\<exists>dk' \<in> D - {dk}. dst_key d' = Some dk' \<and> (IP_Equal (d_Address d') x \<longleftrightarrow> fst dk' = a)"
        using Cons.prems(5) by fastforce
    qed
    have D': "{e \<in> D - {dk}. \<not> (fst e = a \<and> Some e \<in> dst_key ` set ds)} =
        {e \<in> D. \<not> (fst e = a \<and> Some e \<in> dst_key ` set (d # ds))}"
      using dk True by auto
    obtain w' where "del_matching h s x ds w1 = Some (None, w')" "invar w'"
      "view w' = (view w1)(k \<mapsto> {e \<in> D - {dk}. \<not> (fst e = a \<and> Some e \<in> dst_key ` set ds)})"
      using Cons.IH [OF d(2) key _ _ rest] v1 Cons.prems(4) by fastforce
    moreover from this(3) have "view w' = (view w)(k \<mapsto> {e \<in> D. \<not> (fst e = a \<and> Some e \<in> dst_key ` set (d # ds))})"
      unfolding v1 D' by simp
    moreover have "del_matching h s x (d # ds) w = del_matching h s x ds w1"
      using d(1) dk True \<open>e = None\<close> by simp
    ultimately show ?thesis by metis
  qed
qed

lemma del_from_services_ok:
  assumes "good w" and "distinct (map svc_key ss)"
    and "\<forall>s \<in> set ss. \<exists>k \<in> dom (view w). svc_key s = Some k" and x: "To4 x = Some a"
  shows "\<exists>w'. del_from_services h x ss w = Some (None, w') \<and> good w' \<and>
    view w' = (\<lambda>k. if Some k \<in> svc_key ` set ss then spec_delrs a (view w) k else view w k)"
  using assms(1-3)
proof (induction ss arbitrary: w)
  case Nil
  then show ?case by simp
next
  case (Cons s ss)
  from Cons.prems(3) obtain k D where key: "svc_key s = Some k" and D: "view w k = Some D" by auto
  define D' where "D' = {dk \<in> D. fst dk \<noteq> a}"
  have inv: "invar w" and len: "\<forall>dk \<in> D. length (fst dk) = 4"
    using Cons.prems(1) D by (auto simp: good_world_def owned_def)
  obtain ds w1 where l: "ListDestinations h s w = Some ((ds, None), w1)" "invar w1" "view w1 = view w"
    "lists_dests (Some D) ds"
    using listed [OF inv key] D by auto
  have "\<forall>d \<in> set ds. \<exists>dk \<in> D. dst_key d = Some dk \<and> (IP_Equal (d_Address d) x \<longleftrightarrow> fst dk = a)"
  proof
    fix d assume "d \<in> set ds"
    then have "dst_key d \<in> Some ` D" using l(4) by (auto simp: lists_dests_def)
    then obtain dk where "dk \<in> D" "dst_key d = Some dk" by auto
    with len x show "\<exists>dk \<in> D. dst_key d = Some dk \<and> (IP_Equal (d_Address d) x \<longleftrightarrow> fst dk = a)"
      by (auto simp: IP_Equal_key)
  qed
  then obtain w2 where m: "del_matching h s x ds w1 = Some (None, w2)" "invar w2"
    "view w2 = (view w1)(k \<mapsto> {dk \<in> D. \<not> (fst dk = a \<and> Some dk \<in> dst_key ` set ds)})"
    using del_matching_ok [OF l(2) key, of D ds x a] l(3,4) D by (auto simp: lists_dests_def)
  moreover have "{dk \<in> D. \<not> (fst dk = a \<and> Some dk \<in> dst_key ` set ds)} = D'"
    using l(4) by (auto simp: D'_def lists_dests_def)
  ultimately have v2: "view w2 = (view w)(k \<mapsto> D')" using l(3) by simp
  obtain ds2 w3 where l2: "ListDestinations h s w2 = Some ((ds2, None), w3)" "invar w3" "view w3 = view w2"
    "length ds2 = 0 \<longleftrightarrow> D' = {}"
    using listed [OF m(2) key, of D'] v2 lists_dests_length by (simp del: length_0_conv) blast
  have spec: "spec_delrs a (view w) k = (if D' = {} then None else Some D')"
    by (auto simp: spec_delrs_def D D'_def Let_def)
  have own: "owned v ((view w)(k := spec_delrs a (view w) k))"
    using Cons.prems(1) by (intro owned_upd [where D = D]) (auto simp: D good_world_def spec D'_def)
  have "\<exists>w4. good w4 \<and> view w4 = (view w)(k := spec_delrs a (view w) k) \<and>
    del_from_services h x (s # ss) w = del_from_services h x ss w4"
  proof (cases "D' = {}")
    case False
    with l2(4) have "del_from_services h x (s # ss) w = del_from_services h x ss w3"
      using l(1) l2(1) m(1) by simp
    moreover have "view w3 = (view w)(k := spec_delrs a (view w) k)"
      using l2(3) v2 spec False by simp
    ultimately show ?thesis using l2(2) own by (auto simp: good_world_def)
  next
    case True
    obtain e w4 where x4: "DelService h s w3 = Some (e, w4)" "invar w4"
      "if e = None then k \<in> dom (view w3) \<and> view w4 = (view w3)(k := None) else view w4 = view w3"
      using del_service [OF l2(2) key] by blast
    have "e = None"
      by (rule del_service_ok [OF l2(2) key _ x4(1)]) (simp add: l2(3) v2)
    with True l2(4) x4(1) have "del_from_services h x (s # ss) w = del_from_services h x ss w4"
      using l(1) l2(1) m(1) by simp
    moreover have "view w4 = (view w)(k := spec_delrs a (view w) k)"
      using x4(3) l2(3) v2 spec True \<open>e = None\<close> by simp
    ultimately show ?thesis using x4(2) own by (auto simp: good_world_def)
  qed
  then obtain w4 where w4: "good w4" "view w4 = (view w)(k := spec_delrs a (view w) k)"
    "del_from_services h x (s # ss) w = del_from_services h x ss w4" by blast
  have "\<forall>s' \<in> set ss. \<exists>k' \<in> dom (view w4). svc_key s' = Some k'"
  proof
    fix s' assume s': "s' \<in> set ss"
    then obtain k' where "k' \<in> dom (view w)" "svc_key s' = Some k'" using Cons.prems(3) by auto
    moreover from this s' have "k' \<noteq> k" using Cons.prems(2) key by force
    ultimately show "\<exists>k' \<in> dom (view w4). svc_key s' = Some k'" using w4(2) by auto
  qed
  then obtain w' where w': "del_from_services h x ss w4 = Some (None, w')" "good w'"
    "view w' = (\<lambda>k. if Some k \<in> svc_key ` set ss then spec_delrs a (view w4) k else view w4 k)"
    using Cons.IH [OF w4(1)] Cons.prems(2) by auto
  moreover have "Some k \<notin> svc_key ` set ss" using Cons.prems(2) key by force
  then have "view w' = (\<lambda>k. if Some k \<in> svc_key ` set (s # ss) then spec_delrs a (view w) k else view w k)"
    using w'(3) w4(2) key by (auto simp: fun_eq_iff spec_delrs_def)
  ultimately show ?case using w4(3) by auto
qed

lemma delrs_spec:
  assumes w: "good w" and a: "addr4 ip = Some a"
  shows "\<exists>w'. DelRServer lm ip w = Some (None, w') \<and> good w' \<and> view w' = spec_delrs a (view w)"
proof -
  have inv: "invar w" using w by (simp add: good_world_def)
  obtain ss e w1 where ls: "ListServices h w = Some ((ss, e), w1)" "invar w1" "view w1 = view w"
    "e = None \<longrightarrow> lists_services (view w) ss"
    using list_services [OF inv] by blast
  with list_services_ok [OF inv ls(1)] have e: "e = None" and l: "lists_services (view w) ss" by auto
  have keys: "svc_key ` set ss = Some ` dom (view w)" and "distinct (map svc_key ss)"
    using l by (simp_all add: lists_services_def)
  moreover have "\<forall>s \<in> set ss. \<exists>k \<in> dom (view w1). svc_key s = Some k"
  proof
    fix s assume "s \<in> set ss"
    then have "svc_key s \<in> Some ` dom (view w)" using keys by blast
    then show "\<exists>k \<in> dom (view w1). svc_key s = Some k" using ls(3) by auto
  qed
  moreover have "good w1" using w ls by (simp add: good_world_def)
  ultimately obtain w' where w': "del_from_services h (ParseIP (string_of_bytes (ip_bytes ip))) ss w1 = Some (None, w')"
    "good w'" "view w' = (\<lambda>k. if Some k \<in> svc_key ` set ss then spec_delrs a (view w1) k else view w1 k)"
    using del_from_services_ok [of w1 ss _ a] a unfolding addr4_def by blast
  have "view w' = spec_delrs a (view w)"
  proof
    fix k
    show "view w' k = spec_delrs a (view w) k"
      using w'(3) ls(3) keys by (cases "view w k") (auto simp: spec_delrs_def domIff)
  qed
  with ls e w' show ?thesis by (simp add: DelRServer_def handle_lm)
qed

end

section \<open>The contract of the controller\<close>

text \<open>
  The table as a relation: which real server serves which service. \<open>Del\<close> and \<open>DelRServer\<close>
  also drop the services they leave without real servers, which the relation does not show.
\<close>

definition rs_of :: "ipvs_view \<Rightarrow> (svc_key \<times> dst_key) set" where
  "rs_of V = {(k, dk). \<exists>D. V k = Some D \<and> dk \<in> D}"

lemma rs_of_empty [simp]: "rs_of Map.empty = {}"
  by (simp add: rs_of_def)

lemma rs_of_spec_add: "rs_of (spec_add k dk V) = insert (k, dk) (rs_of V)"
  by (auto simp: rs_of_def spec_add_def split: option.splits if_splits)

lemma rs_of_spec_del: "rs_of (spec_del k dk V) = rs_of V - {(k, dk)}"
  by (auto simp: rs_of_def spec_del_def split: option.splits if_splits)

lemma rs_of_spec_delrs: "rs_of (spec_delrs a V) = rs_of V - {(k, dk). fst dk = a}"
proof (rule set_eqI, clarify)
  fix k b q
  show "((k, b, q) \<in> rs_of (spec_delrs a V)) = ((k, b, q) \<in> rs_of V - {(k, dk). fst dk = a})"
    by (cases "V k") (auto simp: rs_of_def spec_delrs_def Let_def)
qed

text \<open>A service without real servers is dead. None of the three operations leaves one behind.\<close>

definition no_dead :: "ipvs_view \<Rightarrow> bool" where
  "no_dead V \<longleftrightarrow> (\<forall>k. V k \<noteq> Some {})"

lemma no_dead_spec [simp]:
  "no_dead V \<Longrightarrow> no_dead (spec_add k dk V)" "no_dead V \<Longrightarrow> no_dead (spec_del k dk V)"
  "no_dead (spec_delrs a V)"
  by (auto simp: no_dead_def spec_add_def spec_del_def spec_delrs_def Let_def split: option.splits)

text \<open>Without dead services the relation determines the view.\<close>

lemma no_dead_inj:
  assumes "no_dead V" and "no_dead W" and rs: "rs_of V = rs_of W"
  shows "V = W"
proof
  fix k
  have eq: "(\<exists>D. V k = Some D \<and> dk \<in> D) \<longleftrightarrow> (\<exists>D. W k = Some D \<and> dk \<in> D)" for dk
  proof -
    have "(k, dk) \<in> rs_of V \<longleftrightarrow> (k, dk) \<in> rs_of W" by (simp add: rs)
    then show ?thesis by (simp add: rs_of_def)
  qed
  show "V k = W k"
  proof (cases "V k")
    case None
    with eq have "D = {}" if "W k = Some D" for D using that by auto
    with assms(2) None show ?thesis by (cases "W k") (auto simp: no_dead_def)
  next
    case (Some D)
    with assms(1) have "D \<noteq> {}" by (auto simp: no_dead_def)
    then obtain dk where "dk \<in> D" by auto
    with eq Some obtain D' where "W k = Some D'" by blast
    with eq Some show ?thesis by auto
  qed
qed

text \<open>
  What the controller relies on: the three operations it calls succeed on the addresses and
  ports it may pass them, and change the relation as their names say.
\<close>

locale real_servers =
  fixes add :: "net_IP \<Rightarrow> u16 \<Rightarrow> string \<Rightarrow> 'w effect" and del :: "net_IP \<Rightarrow> u16 \<Rightarrow> string \<Rightarrow> 'w effect"
    and delrs :: "net_IP \<Rightarrow> 'w effect"
    and table :: "'w \<Rightarrow> (svc_key \<times> dst_key) set" and ok :: "'w \<Rightarrow> bool" and v :: bytes
  assumes add_ok: "ok w \<Longrightarrow> addr4 ip = Some a \<Longrightarrow> port \<noteq> 0 \<Longrightarrow> proto = TCP \<or> proto = UDP \<Longrightarrow>
      \<exists>w'. add ip port proto w = Some (None, w') \<and> ok w' \<and>
        table w' = insert (vip_key v proto port, (a, port)) (table w)"
    and del_ok: "ok w \<Longrightarrow> addr4 ip = Some a \<Longrightarrow> port \<noteq> 0 \<Longrightarrow> proto = TCP \<or> proto = UDP \<Longrightarrow>
      \<exists>w'. del ip port proto w = Some (None, w') \<and> ok w' \<and>
        table w' = table w - {(vip_key v proto port, (a, port))}"
    and delrs_ok: "ok w \<Longrightarrow> addr4 ip = Some a \<Longrightarrow>
      \<exists>w'. delrs ip w = Some (None, w') \<and> ok w' \<and> table w' = table w - {(k, dk). fst dk = a}"

sublocale lvs_ready \<subseteq> rs: real_servers "Add hst lm" "Del hst lm" "DelRServer lm"
    "\<lambda>w. rs_of (view w)" good v
proof (unfold_locales, goal_cases)
  case (1 w ip a port proto)
  then show ?case using add_spec by (metis rs_of_spec_add)
next
  case (2 w ip a port proto)
  then show ?case using del_spec by (metis rs_of_spec_del)
next
  case (3 w ip a)
  then show ?case using delrs_spec by (metis rs_of_spec_delrs)
qed

section \<open>A manager that is ready\<close>

text \<open>
  What \<open>Init\<close> leaves: the manager of a configuration, with the handle and the interface
  name it got.
\<close>

definition init_manager :: "Config \<Rightarrow> 'w IPVSHandle \<Rightarrow> string \<Rightarrow> 'w LvsManager" where
  "init_manager cfg h ifc = \<lparr>initialized = True, lm_name = providerName, lm_handle = Some h,
     lm_vip = ParseIP (cfg_Vip cfg), lm_SchedName = cfg_SchedName cfg,
     lm_timeout = of_int (fst (Atoi (cfg_Idle_Timeout cfg))), lm_marked = cfg_Pnmpp cfg, lm_intf = ifc\<rparr>"

lemma Init_manager:
  assumes "Init hst cfg NewLvsManager w = Some (lm, w')"
  shows "\<exists>h ifc. lm = init_manager cfg h ifc"
  using assms
  by (auto simp: Init_def NewLvsManager_def init_manager_def Let_def split: prod.splits option.splits bind_splits)

lemma Init_again: "initialized lm \<Longrightarrow> Init hst cfg lm w = Some (lm, w)"
  by (simp add: Init_def)

text \<open>The manager of a dotted-quad address over the netlink handle of the reference kernel.\<close>

definition quad_config :: "u8 \<Rightarrow> u8 \<Rightarrow> u8 \<Rightarrow> u8 \<Rightarrow> string \<Rightarrow> Config" where
  "quad_config a b c d sched = \<lparr>cfg_NginxServer = [], cfg_SchedName = sched,
     cfg_Vip = dotted_quad a b c d, cfg_Pnmpp = False, cfg_Idle_Timeout = []\<rparr>"

interpretation klm: lvs_ready "netlink_handle (kern_sync (sched # scheds))"
    "kern_view :: 'a kworld_scheme \<Rightarrow> ipvs_view" kern_ok "kern_svc_ok (sched # scheds)" kern_dst_ok
    hst "init_manager (quad_config a b c d sched) (netlink_handle (kern_sync (sched # scheds))) ifc"
    "[a, b, c, d]"
  for sched scheds hst a b c d ifc
  by unfold_locales
     (simp_all add: init_manager_def quad_config_def ParseIP_dotted_quad kern_svc_ok_def kern_dst_ok_def
       base_service_def base_destination_def zero_Destination_def zero_Service_def)

end
