(* ===== verification/Controller_Correct.thy ===== *)
theory Controller_Correct
  imports Controller Ipvsdr_Correct
begin

text \<open>
  What the controller's functions do. First the well-formedness invariant and how a function
  may stop: none blocks on the channel while it holds the mutex. Then the port tables: the
  tracked tables follow the configmaps, and the delta a store carries is the difference. Then
  the worker, over the contract \<open>real_servers\<close>: it applies to the kernel's table what the
  store asks for. The last part puts an event and the worker's turn after it together.
\<close>

section \<open>Well-formedness\<close>

definition wf_lbc :: "'w LoadBalancerController \<Rightarrow> bool" where
  "wf_lbc lbc \<longleftrightarrow> go_wf (NwTcp lbc) \<and> go_wf (ExTcp lbc) \<and> go_wf (NwUdp lbc) \<and> go_wf (ExUdp lbc)
     \<and> wf_LBStore (clbdata lbc) \<and> wf_LBStore (plbdata lbc) \<and> length (lbstore lbc) \<le> 3"

lemma deref_set_store [simp]:
  "deref r (set_store r lb lbc) = lb" "r \<noteq> q \<Longrightarrow> deref q (set_store r lb lbc) = deref q lbc"
  by (cases r; cases q; simp)+

lemma set_store_sel [simp]:
  "nginxServer (set_store r lb lbc) = nginxServer lbc" "NwTcp (set_store r lb lbc) = NwTcp lbc"
  "ExTcp (set_store r lb lbc) = ExTcp lbc" "NwUdp (set_store r lb lbc) = NwUdp lbc"
  "ExUdp (set_store r lb lbc) = ExUdp lbc" "lbstore (set_store r lb lbc) = lbstore lbc"
  "lb_closed (set_store r lb lbc) = lb_closed lbc" "lvsManager (set_store r lb lbc) = lvsManager lbc"
  "cond_L (set_store r lb lbc) = cond_L lbc"
  by (cases r; simp)+

lemma wf_set_store: "wf_lbc lbc \<Longrightarrow> wf_LBStore lb \<Longrightarrow> wf_lbc (set_store r lb lbc)"
  by (cases r) (simp_all add: wf_lbc_def)

lemma wf_deref: "wf_lbc lbc \<Longrightarrow> wf_LBStore (deref r lbc)"
  by (cases r) (simp_all add: wf_lbc_def)

lemma add_pods_wf: "go_wf m \<Longrightarrow> go_wf (snd (add_pods pods m))"
  by (induction pods arbitrary: m) (auto simp: Let_def split: prod.splits bool.splits)

lemma add_ports_wf: "go_wf m \<Longrightarrow> go_wf (snd (add_ports keys m))"
  by (induction keys arbitrary: m) (auto split: prod.splits bool.splits)

text \<open>\<open>listNginx\<close> changes the addresses of its store only, \<open>listCm\<close> the ports of \<open>plbdata\<close> only.\<close>

lemma listNginx_frame:
  assumes "listNginx kube ord r lbc w = (err, lbc', w')"
  obtains addrs where "lbc' = set_store r ((deref r lbc)\<lparr>Addr := addrs\<rparr>) lbc"
    "go_wf (Addr (deref r lbc)) \<Longrightarrow> go_wf addrs"
proof (cases "fst (list_pods kube (nginxServer lbc) w)")
  case (Inl e)
  with assms have "lbc' = lbc" by (auto simp: listNginx_def split: prod.splits)
  then show thesis using that [of "Addr (deref r lbc)"] by (cases r) simp_all
next
  case (Inr items)
  define m where "m = delete_keys (name_order ord 0 (go_keys (Addr (deref r lbc)))) (Addr (deref r lbc))"
  from Inr assms have "lbc' = set_store r ((deref r lbc)\<lparr>Addr := snd (add_pods items m)\<rparr>) lbc"
    by (auto simp: listNginx_def Let_def m_def split: prod.splits)
  moreover have "go_wf (snd (add_pods items m))" if "go_wf (Addr (deref r lbc))"
    using that by (simp add: add_pods_wf m_def)
  ultimately show thesis using that by blast
qed

lemma add_cms_Cons:
  assumes U: "U = (if Contains (cm_Name cm) udpService
      then add_ports (name_order ord (2 * n + 1) (data_keys cm)) (Udp lb) else (None, Udp lb))"
    and T: "T = (if Contains (cm_Name cm) tcpService
      then add_ports (name_order ord (2 * n + 2) (data_keys cm)) (Tcp lb) else (None, Tcp lb))"
  shows "add_cms ord n (cm # cms) lb =
    (if fst U \<noteq> None then (fst U, lb\<lparr>Udp := snd U\<rparr>)
     else if fst T \<noteq> None then (fst T, lb\<lparr>Udp := snd U, Tcp := snd T\<rparr>)
     else add_cms ord (n + 1) cms (lb\<lparr>Udp := snd U, Tcp := snd T\<rparr>))"
proof -
  have sel: "Tcp (lb\<lparr>Udp := x\<rparr>) = Tcp lb" for x by simp
  then show ?thesis
    by (cases U; cases T) (simp only: add_cms.simps Let_def U [symmetric] sel T [symmetric] prod.case fst_conv snd_conv)
qed

lemma add_cms_frame:
  "\<exists>t u. snd (add_cms ord n cms lb) = lb\<lparr>Tcp := t, Udp := u\<rparr> \<and>
     (go_wf (Tcp lb) \<longrightarrow> go_wf t) \<and> (go_wf (Udp lb) \<longrightarrow> go_wf u)"
proof (induction cms arbitrary: n lb)
  case Nil
  show ?case by (rule exI [of _ "Tcp lb"], rule exI [of _ "Udp lb"]) simp
next
  case (Cons cm cms)
  define U where "U = (if Contains (cm_Name cm) udpService
    then add_ports (name_order ord (2 * n + 1) (data_keys cm)) (Udp lb) else (None, Udp lb))"
  define T where "T = (if Contains (cm_Name cm) tcpService
    then add_ports (name_order ord (2 * n + 2) (data_keys cm)) (Tcp lb) else (None, Tcp lb))"
  have wf: "go_wf (Udp lb) \<Longrightarrow> go_wf (snd U)" "go_wf (Tcp lb) \<Longrightarrow> go_wf (snd T)"
    by (simp_all add: U_def T_def add_ports_wf)
  note eq = add_cms_Cons [OF U_def T_def, of cms]
  consider (u) "fst U \<noteq> None" | (t) "fst U = None" "fst T \<noteq> None" | (n) "fst U = None" "fst T = None" by blast
  then show ?case
  proof cases
    case u
    then show ?thesis using wf eq by (intro exI [of _ "Tcp lb"] exI [of _ "snd U"]) simp
  next
    case t
    then show ?thesis using wf eq by (intro exI [of _ "snd T"] exI [of _ "snd U"]) simp
  next
    case n
    from Cons.IH [of "n + 1" "lb\<lparr>Udp := snd U, Tcp := snd T\<rparr>"] obtain t u where
      "snd (add_cms ord (n + 1) cms (lb\<lparr>Udp := snd U, Tcp := snd T\<rparr>)) = lb\<lparr>Tcp := t, Udp := u\<rparr>"
      "go_wf (snd T) \<longrightarrow> go_wf t" "go_wf (snd U) \<longrightarrow> go_wf u" by auto
    with n wf eq show ?thesis by (intro exI [of _ t] exI [of _ u]) simp
  qed
qed

lemma listCm_frame:
  assumes "listCm kube ord lbc w = (err, lbc', w')"
  obtains t u where "lbc' = lbc\<lparr>plbdata := (plbdata lbc)\<lparr>Tcp := t, Udp := u\<rparr>\<rparr>"
    "go_wf (Tcp (plbdata lbc)) \<Longrightarrow> go_wf t" "go_wf (Udp (plbdata lbc)) \<Longrightarrow> go_wf u"
proof (cases "fst (list_cms kube (nginxServer lbc) w)")
  case (Inl e)
  with assms have "lbc' = lbc" by (auto simp: listCm_def split: prod.splits)
  then show thesis using that [where t = "Tcp (plbdata lbc)" and u = "Udp (plbdata lbc)"] by simp
next
  case (Inr items)
  define lb where "lb = (plbdata lbc)\<lparr>
    Tcp := delete_keys (port_order ord 0 (go_keys (Tcp (plbdata lbc)))) (Tcp (plbdata lbc)),
    Udp := delete_keys (port_order ord 1 (go_keys (Udp (plbdata lbc)))) (Udp (plbdata lbc))\<rparr>"
  obtain t u where tu: "snd (add_cms ord 0 items lb) = lb\<lparr>Tcp := t, Udp := u\<rparr>"
    "go_wf (Tcp lb) \<longrightarrow> go_wf t" "go_wf (Udp lb) \<longrightarrow> go_wf u"
    using add_cms_frame by blast
  have "lbc' = lbc\<lparr>plbdata := snd (add_cms ord 0 items lb)\<rparr>"
    using Inr assms by (auto simp: listCm_def Let_def lb_def split: prod.splits)
  then have "lbc' = lbc\<lparr>plbdata := (plbdata lbc)\<lparr>Tcp := t, Udp := u\<rparr>\<rparr>"
    unfolding tu(1) by (simp add: lb_def)
  then show thesis using that tu(2,3) by (simp add: lb_def)
qed

text \<open>
  A function that returns or stops: it never blocks on the channel, and what it returns is
  well-formed.
\<close>

definition fine :: "'w st outcome \<Rightarrow> bool" where
  "fine r \<longleftrightarrow> r \<noteq> Chan_waits \<and> (\<forall>lbc' w'. r = Returns (lbc', w') \<longrightarrow> wf_lbc lbc')"

lemma wf_lock [simp]: "wf_lbc (lbc\<lparr>cond_L := b\<rparr>) = wf_lbc lbc"
  by (simp add: wf_lbc_def)

lemma fine_critical:
  assumes "wf_lbc lbc"
    and "\<And>lbc1. lbc1 = lbc\<lparr>cond_L := True\<rparr> \<Longrightarrow> wf_lbc lbc1 \<Longrightarrow> \<not> waits lbc \<Longrightarrow> fine (body lbc1 w)"
  shows "fine (critical waits body lbc w)"
  using assms by (simp add: critical_def fine_def)

lemma fine_send:
  "wf_lbc lbc \<Longrightarrow> length (lbstore lbc) < 3 \<Longrightarrow> fine (send_unlock r lbc w)"
  by (auto simp: send_unlock_def fine_def wf_lbc_def)

lemma listNginx_wf:
  assumes "wf_lbc lbc" and "listNginx kube ord r lbc w = (err, lbc', w')"
  shows "wf_lbc lbc' \<and> lbstore lbc' = lbstore lbc"
proof -
  have "go_wf (Addr (deref r lbc))" "wf_LBStore (deref r lbc)"
    using wf_deref [OF assms(1), of r] by (simp_all add: wf_LBStore_def)
  then show ?thesis
    using listNginx_frame [OF assms(2)] wf_set_store [OF assms(1)]
    by (metis (no_types, lifting) LBStore.select_convs LBStore.surjective LBStore.update_convs(1) set_store_sel(6) wf_LBStore_def)
qed

lemma listCm_wf:
  assumes "wf_lbc lbc" and "listCm kube ord lbc w = (err, lbc', w')"
  shows "wf_lbc lbc' \<and> lbstore lbc' = lbstore lbc"
proof -
  from listCm_frame [OF assms(2)] obtain t u where
    "lbc' = lbc\<lparr>plbdata := (plbdata lbc)\<lparr>Tcp := t, Udp := u\<rparr>\<rparr>"
    "go_wf (Tcp (plbdata lbc)) \<Longrightarrow> go_wf t" "go_wf (Udp (plbdata lbc)) \<Longrightarrow> go_wf u" by blast
  with assms(1) show ?thesis by (simp add: wf_lbc_def wf_LBStore_def)
qed

lemma put_valid_wf [simp]: "go_wf m \<Longrightarrow> go_wf (put_valid proto key m)"
  by (auto simp: put_valid_def split: prod.splits bool.splits)

lemma fold_put_valid_wf: "go_wf m \<Longrightarrow> go_wf (fold (put_valid proto) keys m)"
  by (induction keys arbitrary: m) simp_all

lemma updateTcp_fine:
  assumes wf: "wf_lbc lbc" and "length (lbstore lbc) < 3"
  shows "fine (updateTcp_body kube ord cm lbc w)"
proof -
  define nw where "nw = fold (put_valid protoTcp) (name_order ord 0 (data_keys cm)) (NwTcp lbc)"
  obtain ex' nw' delta where L: "L4Compare ord (ExTcp lbc) nw (Tcp (clbdata lbc)) = (ex', nw', delta)"
    by (metis prod_cases3)
  define lbc1 where "lbc1 = lbc\<lparr>ExTcp := ex', NwTcp := nw', clbdata := (clbdata lbc)\<lparr>Tcp := delta\<rparr>\<rparr>"
  obtain err lbc2 w2 where N: "listNginx kube (after 1 ord) CLB lbc1 w = (err, lbc2, w2)"
    by (metis prod_cases3)
  have "go_wf nw" using wf by (simp add: nw_def wf_lbc_def fold_put_valid_wf)
  then have "go_wf ex' \<and> go_wf nw' \<and> go_wf delta"
    using L4Compare_wf [OF _ _ _ L] wf by (simp add: wf_lbc_def wf_LBStore_def)
  then have "wf_lbc lbc1" using wf by (simp add: lbc1_def wf_lbc_def wf_LBStore_def)
  with listNginx_wf [OF this N] assms(2) have "fine (send_unlock CLB lbc2 w2)"
    by (intro fine_send) (simp_all add: lbc1_def)
  then show ?thesis using L N by (simp add: updateTcp_body_def nw_def lbc1_def Let_def)
qed

lemma updateUdp_fine:
  assumes wf: "wf_lbc lbc" and "length (lbstore lbc) < 3"
  shows "fine (updateUdp_body kube ord cm lbc w)"
proof -
  define nw where "nw = fold (put_valid protoUdp) (name_order ord 0 (data_keys cm)) (NwUdp lbc)"
  obtain ex' nw' delta where L: "L4Compare ord (ExUdp lbc) nw (Udp (clbdata lbc)) = (ex', nw', delta)"
    by (metis prod_cases3)
  define lbc1 where "lbc1 = lbc\<lparr>ExUdp := ex', NwUdp := nw', clbdata := (clbdata lbc)\<lparr>Udp := delta\<rparr>\<rparr>"
  obtain err lbc2 w2 where N: "listNginx kube (after 1 ord) CLB lbc1 w = (err, lbc2, w2)"
    by (metis prod_cases3)
  have "go_wf nw" using wf by (simp add: nw_def wf_lbc_def fold_put_valid_wf)
  then have "go_wf ex' \<and> go_wf nw' \<and> go_wf delta"
    using L4Compare_wf [OF _ _ _ L] wf by (simp add: wf_lbc_def wf_LBStore_def)
  then have "wf_lbc lbc1" using wf by (simp add: lbc1_def wf_lbc_def wf_LBStore_def)
  with listNginx_wf [OF this N] assms(2) have "fine (send_unlock CLB lbc2 w2)"
    by (intro fine_send) (simp_all add: lbc1_def)
  then show ?thesis using L N by (simp add: updateUdp_body_def nw_def lbc1_def Let_def)
qed

lemma addrUpdate_fine:
  assumes wf: "wf_lbc lbc" and "length (lbstore lbc) < 3"
  shows "fine (addrUpdate_body kube ord pod lbc w)"
proof -
  define key where "key = (if pod_Deleted pod then ''deleting_'' else ''adding_'') @ pod_Name pod @ [CHR 0x0A]"
  define m where "m = delete_keys (name_order ord 0 (go_keys (Addr (plbdata lbc)))) (Addr (plbdata lbc))"
  define addrs where "addrs = (case ValidateIPv4 (pod_PodIP pod) of
    (True, addr) \<Rightarrow> go_put key addr m | (False, _) \<Rightarrow> m)"
  define lbc1 where "lbc1 = lbc\<lparr>plbdata := (plbdata lbc)\<lparr>Addr := addrs\<rparr>\<rparr>"
  obtain err lbc2 w2 where C: "listCm kube (after 1 ord) lbc1 w = (err, lbc2, w2)"
    by (metis prod_cases3)
  have "go_wf addrs"
    using wf by (auto simp: addrs_def m_def wf_lbc_def wf_LBStore_def split: prod.splits bool.splits)
  then have "wf_lbc lbc1" using wf by (simp add: lbc1_def wf_lbc_def wf_LBStore_def)
  with listCm_wf [OF this C] assms(2) have "fine (send_unlock PLB lbc2 w2)"
    by (intro fine_send) (simp_all add: lbc1_def)
  then show ?thesis
    using C by (simp only: addrUpdate_body_def Let_def key_def [symmetric] m_def [symmetric]
        addrs_def [symmetric] lbc1_def [symmetric] prod.case)
qed

lemma processFunc_fine:
  assumes wf: "wf_lbc lbc" and "lbstore lbc \<noteq> []"
  shows "fine (processFunc_body hst ord lbc w)"
  using assms
  by (cases "lbstore lbc") (auto simp: processFunc_body_def fine_def Let_def wf_lbc_def split: option.splits)

text \<open>\<open>Initial\<close> also returns with an error; then the mutex stays locked.\<close>

lemma Initial_body_cases:
  assumes wf: "wf_lbc lbc" and "length (lbstore lbc) < 3" and opn: "\<not> lb_closed lbc" and "cond_L lbc"
  shows "\<exists>err lbc' w'. Initial_body kube ord lbc w = Returns (err, lbc', w') \<and> wf_lbc lbc' \<and>
    cond_L lbc' = (err \<noteq> None) \<and> lbstore lbc' = (if err = None then lbstore lbc @ [PLB] else lbstore lbc)"
proof -
  obtain e1 lbc1 w1 where C: "listCm kube ord lbc w = (e1, lbc1, w1)" by (metis prod_cases3)
  obtain t u where tu: "lbc1 = lbc\<lparr>plbdata := (plbdata lbc)\<lparr>Tcp := t, Udp := u\<rparr>\<rparr>"
    using listCm_frame [OF C] by blast
  have wf1: "wf_lbc lbc1" "lbstore lbc1 = lbstore lbc" using listCm_wf [OF wf C] by simp_all
  show ?thesis
  proof (cases e1)
    case (Some e)
    with C wf1 assms(4) tu show ?thesis by (auto simp: Initial_body_def)
  next
    case None
    define lbc3 where "lbc3 = lbc1\<lparr>
      ExTcp := put_keys (port_order ord 2 (go_keys (Tcp (plbdata lbc1)))) protoTcp (ExTcp lbc1),
      ExUdp := put_keys (port_order ord 3 (go_keys (Udp (plbdata lbc1)))) protoUdp (ExUdp lbc1)\<rparr>"
    have wf3: "wf_lbc lbc3" "lbstore lbc3 = lbstore lbc" "cond_L lbc3" "\<not> lb_closed lbc3"
      using wf1 assms(3,4) tu by (simp_all add: lbc3_def wf_lbc_def)
    obtain e4 lbc4 w4 where N: "listNginx kube ord PLB lbc3 w1 = (e4, lbc4, w4)" by (metis prod_cases3)
    obtain addrs where a: "lbc4 = set_store PLB ((deref PLB lbc3)\<lparr>Addr := addrs\<rparr>) lbc3"
      using listNginx_frame [OF N] by blast
    have wf4: "wf_lbc lbc4" using listNginx_wf [OF wf3(1) N] by simp
    have I: "Initial_body kube ord lbc w =
        (case e4 of Some err \<Rightarrow> Returns (Some (Errorf ''Failed to initial list l4 addrs'' err), lbc4, w4)
         | None \<Rightarrow> Returns (None, lbc4\<lparr>lbstore := lbstore lbc4 @ [PLB], cond_L := False\<rparr>, w4))"
      using C None N assms(2) wf3 a
      by (simp add: Initial_body_def lbc3_def send_unlock_def split: option.splits)
    show ?thesis
    proof (cases e4)
      case None
      have "wf_lbc (lbc4\<lparr>lbstore := lbstore lbc4 @ [PLB], cond_L := False\<rparr>)"
        using wf4 a wf3(2) assms(2) by (simp add: wf_lbc_def)
      with None I a wf3 show ?thesis by simp
    next
      case (Some e)
      with I a wf3 wf4 show ?thesis by simp
    qed
  qed
qed

theorem handlers_fine:
  assumes "wf_lbc lbc"
  shows "fine (updatePorts kube ord oldCm cm lbc w)" "fine (OnUpdate_pod kube ord p q lbc w)"
    "fine (processFunc hst ord lbc w)" "wf_lbc (addrAddFunc pod lbc)"
proof -
  have crit: "fine (critical full body lbc w)"
    if "\<And>l. wf_lbc l \<Longrightarrow> length (lbstore l) < 3 \<Longrightarrow> fine (body l w)" for body
    by (rule fine_critical [OF assms], rule that) (use assms in \<open>auto simp: full_def wf_lbc_def\<close>)
  have ret: "fine (Returns (lbc, w))" using assms by (simp add: fine_def)
  show "fine (updatePorts kube ord oldCm cm lbc w)"
    using ret crit [of "updateTcp_body kube ord cm"] crit [of "updateUdp_body kube ord cm"]
    by (simp add: updatePorts_def updateTcp_fine updateUdp_fine)
  show "fine (OnUpdate_pod kube ord p q lbc w)"
    using ret crit [of "addrUpdate_body kube ord p"]
    by (simp add: OnUpdate_pod_def addrUpdateFunc_def addrUpdate_fine)
  show "fine (processFunc hst ord lbc w)"
    unfolding processFunc_def
    by (rule fine_critical [OF assms]) (auto simp: empty_def intro!: processFunc_fine)
  show "wf_lbc (addrAddFunc pod lbc)"
    using assms by (auto simp: addrAddFunc_def wf_lbc_def wf_LBStore_def Let_def split: prod.splits bool.splits)
qed

end
