(* ===== verification/Port_Tables.thy ===== *)
theory Port_Tables
  imports Controller_Correct
begin

text \<open>
  What the handlers compute: the port sets of configmaps, the addresses of pods, the tracked
  tables \<open>ExTcp\<close> and \<open>ExUdp\<close>, and the delta a store carries. \<open>delta_steps d E E'\<close> says that
  applying the delta \<open>d\<close> to the ports \<open>E\<close> gives \<open>E'\<close>.
\<close>

section \<open>Ports of a configmap\<close>

definition valid_ports :: "string list \<Rightarrow> u16 set" where
  "valid_ports keys = {p. \<exists>key \<in> set keys. ValidatePort key = (True, p)}"

definition port_set :: "string \<Rightarrow> u16 set \<Rightarrow> u16 \<Rightarrow> string option" where
  "port_set proto S = (\<lambda>p. if p \<in> S then Some proto else None)"

definition delta_steps :: "ports \<Rightarrow> u16 set \<Rightarrow> u16 set \<Rightarrow> bool" where
  "delta_steps d E E' \<longleftrightarrow>
     (\<forall>p. p \<in> E' \<longleftrightarrow> (p \<in> E \<or> map_of d p = Some addition) \<and> map_of d p \<noteq> Some deletion)"

lemma port_set_eq [simp]: "port_set proto S = port_set proto T \<longleftrightarrow> S = T"
  by (auto simp: port_set_def fun_eq_iff split: if_splits)

lemma dom_port_set [simp]: "dom (port_set proto S) = S"
  by (auto simp: port_set_def split: if_splits)

lemma valid_ports_simps [simp]:
  "valid_ports [] = {}"
  "valid_ports (k # ks) = (case ValidatePort k of (True, p) \<Rightarrow> insert p (valid_ports ks)
     | (False, _) \<Rightarrow> valid_ports ks)"
  by (auto simp: valid_ports_def split: prod.splits bool.splits)

lemma valid_ports_set: "set ks = set ls \<Longrightarrow> valid_ports ks = valid_ports ls"
  by (simp add: valid_ports_def)

lemma put_valid_set:
  "map_of m = port_set proto L \<Longrightarrow>
     map_of (fold (put_valid proto) keys m) = port_set proto (L \<union> valid_ports keys)"
proof (induction keys arbitrary: m L)
  case (Cons k ks)
  have "map_of (put_valid proto k m) =
      port_set proto (case ValidatePort k of (True, p) \<Rightarrow> insert p L | (False, _) \<Rightarrow> L)"
    using Cons.prems
    by (auto simp: put_valid_def port_set_def fun_eq_iff split: prod.splits bool.splits)
  from Cons.IH [OF this] show ?case by (auto split: prod.splits bool.splits)
qed simp

lemma add_ports_set:
  assumes "add_ports keys m = (None, m')" and "map_of m = port_set addition L"
  shows "map_of m' = port_set addition (L \<union> valid_ports keys)"
  using assms
proof (induction keys arbitrary: m L)
  case (Cons k ks)
  then obtain p where p: "ValidatePort k = (True, p)" "add_ports ks (go_put p addition m) = (None, m')"
    by (auto split: prod.splits bool.splits)
  have "map_of (go_put p addition m) = port_set addition (insert p L)"
    using Cons.prems(2) by (auto simp: port_set_def fun_eq_iff)
  from Cons.IH [OF p(2) this] p(1) show ?case by simp
qed auto

text \<open>The comparison: the old table becomes the new one, and the delta leads from one to the other.\<close>

lemma L4Compare_tracks:
  assumes wf: "go_wf ex" "go_wf nw" and fair: "fair_orders ord"
    and ex: "map_of ex = port_set proto E" and nw: "map_of nw = port_set proto N"
    and d: "delta_steps delta E E" and L: "L4Compare ord ex nw delta = (ex', nw', delta')"
  shows "map_of ex' = port_set proto N \<and> map_of nw' = port_set proto (if E = N then N else {})
    \<and> delta_steps delta' E N \<and> delta_steps delta' N N \<and> dom (map_of delta') \<subseteq> E \<union> N \<union> dom (map_of delta)"
proof (cases "E = N")
  case True
  with L4Compare_unchanged [OF wf, of ord delta] L ex nw d show ?thesis by simp
next
  case False
  with ex nw have "map_of ex \<noteq> map_of nw" by simp
  from L4Compare_changed [OF wf fair this L]
  have r: "map_of ex' = map_of nw" "nw' = []" "map_of delta' = port_delta ex nw" by simp_all
  have has: "go_has ex p \<longleftrightarrow> p \<in> E" "go_has nw p \<longleftrightarrow> p \<in> N" for p
    by (simp_all add: go_has_dom ex nw)
  have "delta_steps delta' E N" "delta_steps delta' N N"
    unfolding delta_steps_def r(3) port_delta_def has
    by (auto simp: addition_def deletion_def split: if_splits)
  moreover have "dom (map_of delta') \<subseteq> E \<union> N"
    unfolding r(3) port_delta_def has by (auto split: if_splits)
  ultimately show ?thesis using r nw False by (auto simp: port_set_def)
qed

section \<open>Addresses of pods\<close>

definition nginx_pods :: "Pod list \<Rightarrow> Pod list" where
  "nginx_pods pods = filter (\<lambda>pod. Contains (pod_Name pod) nginxPattern \<and> pod_PodIP pod \<noteq> []) pods"

definition pod_addr :: "Pod \<Rightarrow> bytes option" where
  "pod_addr pod = To4 (ParseIP (pod_PodIP pod))"

definition pod_addrs :: "Pod list \<Rightarrow> bytes set" where
  "pod_addrs pods = {a. \<exists>pod \<in> set (nginx_pods pods). pod_addr pod = Some a}"

text \<open>Pods with distinct names and dotted-quad addresses, as the API server has them.\<close>

definition good_pods :: "Pod list \<Rightarrow> bool" where
  "good_pods pods \<longleftrightarrow> distinct (map pod_Name (nginx_pods pods)) \<and>
     (\<forall>pod \<in> set (nginx_pods pods). fst (ValidateIPv4 (pod_PodIP pod)) \<and> pod_addr pod \<noteq> None)"

text \<open>The addresses of a store and what is to be done with them.\<close>

definition addrs_with :: "string \<Rightarrow> LBStore \<Rightarrow> bytes set \<Rightarrow> bool" where
  "addrs_with act lb A \<longleftrightarrow>
     (\<forall>key ip. map_of (Addr lb) key = Some ip \<longrightarrow> hd (Split key CHR ''_'') = act \<and> addr4 ip \<in> Some ` A) \<and>
     (\<forall>a \<in> A. \<exists>key ip. map_of (Addr lb) key = Some ip \<and> addr4 ip = Some a)"

lemma hd_Split_key [simp]:
  "hd (Split (''adding_'' @ s) CHR ''_'') = addition"
  "hd (Split (''deleting_'' @ s) CHR ''_'') = deletion"
  using Split_hd [of "CHR ''_''" "''adding''" s] Split_hd [of "CHR ''_''" "''deleting''" s]
  by (simp_all add: addition_def deletion_def)

lemma ValidateIPv4_addr4: "ValidateIPv4 s = (True, ip) \<Longrightarrow> addr4 ip = To4 (ParseIP s)"
  using ValidateIPv4_True [of s ip] by (auto simp: addr4_def)

lemma add_pods_ok:
  assumes "good_pods pods" and "\<forall>pod \<in> set (nginx_pods pods). ''adding_'' @ pod_Name pod \<notin> dom (map_of m)"
  shows "\<exists>m'. add_pods pods m = (None, m') \<and> (\<forall>key ip. map_of m' key = Some ip \<longleftrightarrow>
     map_of m key = Some ip \<or> (\<exists>pod \<in> set (nginx_pods pods). key = ''adding_'' @ pod_Name pod \<and>
       ip = Some (bytes_of_string (pod_PodIP pod))))"
  using assms
proof (induction pods arbitrary: m)
  case Nil
  then show ?case by (simp add: nginx_pods_def)
next
  case (Cons pod pods)
  show ?case
  proof (cases "Contains (pod_Name pod) nginxPattern \<and> pod_PodIP pod \<noteq> []")
    case False
    then have "nginx_pods (pod # pods) = nginx_pods pods" by (auto simp: nginx_pods_def)
    with Cons False show ?thesis by (auto simp: good_pods_def)
  next
    case True
    then have np: "nginx_pods (pod # pods) = pod # nginx_pods pods" by (simp add: nginx_pods_def)
    let ?k = "''adding_'' @ pod_Name pod" and ?ip = "Some (bytes_of_string (pod_PodIP pod))"
    have v: "ValidateIPv4 (pod_PodIP pod) = (True, ?ip)"
      using Cons.prems(1) np ValidateIPv4_True [of "pod_PodIP pod"]
      by (cases "ValidateIPv4 (pod_PodIP pod)") (auto simp: good_pods_def)
    have "pod_Name pod \<notin> pod_Name ` set (nginx_pods pods)"
      using Cons.prems(1) np by (simp add: good_pods_def)
    then have "pod_Name p \<noteq> pod_Name pod" if "p \<in> set (nginx_pods pods)" for p
      using that by (metis image_eqI)
    then have "good_pods pods" "\<forall>p \<in> set (nginx_pods pods). ''adding_'' @ pod_Name p \<notin> dom (map_of (go_put ?k ?ip m))"
      using Cons.prems np by (auto simp: good_pods_def)
    from Cons.IH [OF this] obtain m' where m': "add_pods pods (go_put ?k ?ip m) = (None, m')"
      "\<And>key ip. map_of m' key = Some ip \<longleftrightarrow> map_of (go_put ?k ?ip m) key = Some ip \<or>
        (\<exists>pod \<in> set (nginx_pods pods). key = ''adding_'' @ pod_Name pod \<and> ip = Some (bytes_of_string (pod_PodIP pod)))"
      by blast
    have "map_of m ?k = None" using Cons.prems(2) np by (auto simp: domIff)
    then have "map_of m' key = Some ip \<longleftrightarrow> map_of m key = Some ip \<or>
        (\<exists>pod' \<in> set (nginx_pods (pod # pods)). key = ''adding_'' @ pod_Name pod' \<and> ip = Some (bytes_of_string (pod_PodIP pod')))"
      for key ip using m'(2) np by auto
    with m'(1) v True show ?thesis by simp
  qed
qed

lemma listNginx_ok:
  assumes fair: "fair_orders ord" and pods: "list_pods kube (nginxServer lbc) w = (Inr pods, w')"
    and good: "good_pods pods"
  shows "\<exists>addrs. listNginx kube ord r lbc w = (None, set_store r ((deref r lbc)\<lparr>Addr := addrs\<rparr>) lbc, w') \<and>
    addrs_with addition ((deref r lbc)\<lparr>Addr := addrs\<rparr>) (pod_addrs pods) \<and>
    dom (map_of addrs) \<subseteq> (\<lambda>pod. ''adding_'' @ pod_Name pod) ` set pods"
proof -
  have "delete_keys (name_order ord 0 (go_keys (Addr (deref r lbc)))) (Addr (deref r lbc)) = []"
    by (rule delete_all_keys) (simp add: fair)
  moreover obtain m' where m': "add_pods pods [] = (None, m')"
    "\<And>key ip. map_of m' key = Some ip \<longleftrightarrow> (\<exists>pod \<in> set (nginx_pods pods).
        key = ''adding_'' @ pod_Name pod \<and> ip = Some (bytes_of_string (pod_PodIP pod)))"
    using add_pods_ok [OF good, of "[]"] by auto
  ultimately have "listNginx kube ord r lbc w = (None, set_store r ((deref r lbc)\<lparr>Addr := m'\<rparr>) lbc, w')"
    using pods by (simp add: listNginx_def Let_def)
  moreover have a4: "addr4 (Some (bytes_of_string (pod_PodIP pod))) = pod_addr pod" for pod
    by (simp add: addr4_def pod_addr_def)
  have "addrs_with addition ((deref r lbc)\<lparr>Addr := m'\<rparr>) (pod_addrs pods)"
    unfolding addrs_with_def
  proof (intro conjI allI impI ballI)
    fix key ip assume "map_of (Addr ((deref r lbc)\<lparr>Addr := m'\<rparr>)) key = Some ip"
    then obtain pod where pod: "pod \<in> set (nginx_pods pods)" "key = ''adding_'' @ pod_Name pod"
      "ip = Some (bytes_of_string (pod_PodIP pod))" using m'(2) by auto
    with good obtain a where "pod_addr pod = Some a" by (auto simp: good_pods_def)
    with pod a4 show "hd (Split key CHR ''_'') = addition" "addr4 ip \<in> Some ` pod_addrs pods"
      by (simp_all only: hd_Split_key) (auto simp: pod_addrs_def)
  next
    fix a assume "a \<in> pod_addrs pods"
    then obtain pod where pod: "pod \<in> set (nginx_pods pods)" "pod_addr pod = Some a"
      by (auto simp: pod_addrs_def)
    then have "map_of m' (''adding_'' @ pod_Name pod) = Some (Some (bytes_of_string (pod_PodIP pod)))"
      using m'(2) by blast
    moreover have "addr4 (Some (bytes_of_string (pod_PodIP pod))) = Some a" using a4 pod(2) by metis
    ultimately show "\<exists>key ip. map_of (Addr ((deref r lbc)\<lparr>Addr := m'\<rparr>)) key = Some ip \<and> addr4 ip = Some a"
      by fastforce
  qed
  moreover have "dom (map_of m') \<subseteq> (\<lambda>pod. ''adding_'' @ pod_Name pod) ` set pods"
    by (auto simp: m'(2) nginx_pods_def)
  ultimately show ?thesis by blast
qed

section \<open>Tracking\<close>

text \<open>
  The tracked ports of the controller, and the delta of its store for configmap events: what
  it asks for is already so.
\<close>

definition tracked :: "'w LoadBalancerController \<Rightarrow> u16 set \<Rightarrow> u16 set \<Rightarrow> bool" where
  "tracked lbc T U \<longleftrightarrow> map_of (ExTcp lbc) = port_set protoTcp T \<and> map_of (ExUdp lbc) = port_set protoUdp U
     \<and> delta_steps (Tcp (clbdata lbc)) T T \<and> delta_steps (Udp (clbdata lbc)) U U"

text \<open>The ports left over in \<open>NwTcp\<close> and \<open>NwUdp\<close> by earlier events.\<close>

definition leftover :: "'w LoadBalancerController \<Rightarrow> u16 set \<Rightarrow> u16 set \<Rightarrow> bool" where
  "leftover lbc L M \<longleftrightarrow> map_of (NwTcp lbc) = port_set protoTcp L \<and> map_of (NwUdp lbc) = port_set protoUdp M"

definition ready_to_send :: "'w LoadBalancerController \<Rightarrow> bool" where
  "ready_to_send lbc \<longleftrightarrow> wf_lbc lbc \<and> length (lbstore lbc) < 3 \<and> \<not> lb_closed lbc"

lemma updateTcp_tracks:
  fixes cm :: ConfigMap
  assumes ok: "ready_to_send lbc" and fair: "fair_orders ord"
    and t: "tracked lbc T U" and l: "leftover lbc L M"
    and pods: "list_pods kube (nginxServer lbc) w = (Inr pods, w')" "good_pods pods"
  defines "N \<equiv> L \<union> valid_ports (data_keys cm)"
  shows "\<exists>lbc'. updateTcp_body kube ord cm lbc w = Returns (lbc', w') \<and> tracked lbc' N U \<and>
    leftover lbc' (if T = N then N else {}) M \<and> delta_steps (Tcp (clbdata lbc')) T N \<and>
    Udp (clbdata lbc') = Udp (clbdata lbc) \<and>
    dom (map_of (Tcp (clbdata lbc'))) \<subseteq> T \<union> N \<union> dom (map_of (Tcp (clbdata lbc))) \<and>
    plbdata lbc' = plbdata lbc \<and> addrs_with addition (clbdata lbc') (pod_addrs pods) \<and> lbstore lbc' = lbstore lbc @ [CLB] \<and>
    lvsManager lbc' = lvsManager lbc \<and> nginxServer lbc' = nginxServer lbc \<and> \<not> cond_L lbc' \<and> \<not> lb_closed lbc'"
proof -
  have wf: "wf_lbc lbc" using ok by (simp add: ready_to_send_def)
  define nw where "nw = fold (put_valid protoTcp) (name_order ord 0 (data_keys cm)) (NwTcp lbc)"
  obtain ex' nw' delta where L: "L4Compare ord (ExTcp lbc) nw (Tcp (clbdata lbc)) = (ex', nw', delta)"
    by (metis prod_cases3)
  define lbc1 where "lbc1 = lbc\<lparr>ExTcp := ex', NwTcp := nw', clbdata := (clbdata lbc)\<lparr>Tcp := delta\<rparr>\<rparr>"
  have nw: "map_of nw = port_set protoTcp N"
    using put_valid_set [of "NwTcp lbc" protoTcp L "name_order ord 0 (data_keys cm)"] l fair
      valid_ports_set [of "name_order ord 0 (data_keys cm)" "data_keys cm"]
    by (simp add: leftover_def nw_def N_def)
  have "go_wf nw" using wf by (simp add: nw_def wf_lbc_def fold_put_valid_wf)
  with L4Compare_tracks [OF _ _ fair _ nw _ L] t wf
  have c: "map_of ex' = port_set protoTcp N" "map_of nw' = port_set protoTcp (if T = N then N else {})"
    "delta_steps delta T N" "delta_steps delta N N"
    "dom (map_of delta) \<subseteq> T \<union> N \<union> dom (map_of (Tcp (clbdata lbc)))"
    by (auto simp: tracked_def wf_lbc_def)
  have "list_pods kube (nginxServer lbc1) w = (Inr pods, w')" using pods by (simp add: lbc1_def)
  from listNginx_ok [OF fair_after [OF fair] this pods(2)] obtain addrs where
    n: "listNginx kube (after 1 ord) CLB lbc1 w = (None, lbc1\<lparr>clbdata := (clbdata lbc1)\<lparr>Addr := addrs\<rparr>\<rparr>, w')"
    "addrs_with addition ((clbdata lbc1)\<lparr>Addr := addrs\<rparr>) (pod_addrs pods)"
    by (metis deref.simps(1) set_store.simps(1))
  define lbc2 where "lbc2 = lbc1\<lparr>clbdata := (clbdata lbc1)\<lparr>Addr := addrs\<rparr>\<rparr>"
  have "updateTcp_body kube ord cm lbc w = send_unlock CLB lbc2 w'"
    using n(1) unfolding updateTcp_body_def Let_def nw_def [symmetric] L prod.case lbc1_def [symmetric]
    by (simp add: lbc2_def)
  moreover have "send_unlock CLB lbc2 w' = Returns (lbc2\<lparr>lbstore := lbstore lbc @ [CLB], cond_L := False\<rparr>, w')"
    using ok by (simp add: send_unlock_def lbc2_def lbc1_def ready_to_send_def)
  ultimately show ?thesis
    using c t l n(2) ok
    by (simp add: tracked_def leftover_def lbc2_def lbc1_def ready_to_send_def)
qed

lemma updateUdp_tracks:
  fixes cm :: ConfigMap
  assumes ok: "ready_to_send lbc" and fair: "fair_orders ord"
    and t: "tracked lbc T U" and l: "leftover lbc L M"
    and pods: "list_pods kube (nginxServer lbc) w = (Inr pods, w')" "good_pods pods"
  defines "N \<equiv> M \<union> valid_ports (data_keys cm)"
  shows "\<exists>lbc'. updateUdp_body kube ord cm lbc w = Returns (lbc', w') \<and> tracked lbc' T N \<and>
    leftover lbc' L (if U = N then N else {}) \<and> delta_steps (Udp (clbdata lbc')) U N \<and>
    Tcp (clbdata lbc') = Tcp (clbdata lbc) \<and>
    dom (map_of (Udp (clbdata lbc'))) \<subseteq> U \<union> N \<union> dom (map_of (Udp (clbdata lbc))) \<and>
    plbdata lbc' = plbdata lbc \<and> addrs_with addition (clbdata lbc') (pod_addrs pods) \<and> lbstore lbc' = lbstore lbc @ [CLB] \<and>
    lvsManager lbc' = lvsManager lbc \<and> nginxServer lbc' = nginxServer lbc \<and> \<not> cond_L lbc' \<and> \<not> lb_closed lbc'"
proof -
  have wf: "wf_lbc lbc" using ok by (simp add: ready_to_send_def)
  define nw where "nw = fold (put_valid protoUdp) (name_order ord 0 (data_keys cm)) (NwUdp lbc)"
  obtain ex' nw' delta where L: "L4Compare ord (ExUdp lbc) nw (Udp (clbdata lbc)) = (ex', nw', delta)"
    by (metis prod_cases3)
  define lbc1 where "lbc1 = lbc\<lparr>ExUdp := ex', NwUdp := nw', clbdata := (clbdata lbc)\<lparr>Udp := delta\<rparr>\<rparr>"
  have nw: "map_of nw = port_set protoUdp N"
    using put_valid_set [of "NwUdp lbc" protoUdp M "name_order ord 0 (data_keys cm)"] l fair
      valid_ports_set [of "name_order ord 0 (data_keys cm)" "data_keys cm"]
    by (simp add: leftover_def nw_def N_def)
  have "go_wf nw" using wf by (simp add: nw_def wf_lbc_def fold_put_valid_wf)
  with L4Compare_tracks [OF _ _ fair _ nw _ L] t wf
  have c: "map_of ex' = port_set protoUdp N" "map_of nw' = port_set protoUdp (if U = N then N else {})"
    "delta_steps delta U N" "delta_steps delta N N"
    "dom (map_of delta) \<subseteq> U \<union> N \<union> dom (map_of (Udp (clbdata lbc)))"
    by (auto simp: tracked_def wf_lbc_def)
  have "list_pods kube (nginxServer lbc1) w = (Inr pods, w')" using pods by (simp add: lbc1_def)
  from listNginx_ok [OF fair_after [OF fair] this pods(2)] obtain addrs where
    n: "listNginx kube (after 1 ord) CLB lbc1 w = (None, lbc1\<lparr>clbdata := (clbdata lbc1)\<lparr>Addr := addrs\<rparr>\<rparr>, w')"
    "addrs_with addition ((clbdata lbc1)\<lparr>Addr := addrs\<rparr>) (pod_addrs pods)"
    by (metis deref.simps(1) set_store.simps(1))
  define lbc2 where "lbc2 = lbc1\<lparr>clbdata := (clbdata lbc1)\<lparr>Addr := addrs\<rparr>\<rparr>"
  have "updateUdp_body kube ord cm lbc w = send_unlock CLB lbc2 w'"
    using n(1) unfolding updateUdp_body_def Let_def nw_def [symmetric] L prod.case lbc1_def [symmetric]
    by (simp add: lbc2_def)
  moreover have "send_unlock CLB lbc2 w' = Returns (lbc2\<lparr>lbstore := lbstore lbc @ [CLB], cond_L := False\<rparr>, w')"
    using ok by (simp add: send_unlock_def lbc2_def lbc1_def ready_to_send_def)
  ultimately show ?thesis
    using c t l n(2) ok
    by (simp add: tracked_def leftover_def lbc2_def lbc1_def ready_to_send_def)
qed

section \<open>Listing the configmaps\<close>

definition cm_ports :: "string \<Rightarrow> ConfigMap list \<Rightarrow> u16 set" where
  "cm_ports pattern cms = (\<Union>cm \<in> {cm \<in> set cms. Contains (cm_Name cm) pattern}. valid_ports (data_keys cm))"

text \<open>Every key of the two configmaps is a port number.\<close>

definition good_cms :: "ConfigMap list \<Rightarrow> bool" where
  "good_cms cms \<longleftrightarrow> (\<forall>cm \<in> set cms. Contains (cm_Name cm) tcpService \<or> Contains (cm_Name cm) udpService \<longrightarrow>
     (\<forall>key \<in> set (data_keys cm). fst (ValidatePort key)))"

lemma cm_ports_simps [simp]:
  "cm_ports pattern [] = {}"
  "cm_ports pattern (cm # cms) =
     (if Contains (cm_Name cm) pattern then valid_ports (data_keys cm) else {}) \<union> cm_ports pattern cms"
  by (auto simp: cm_ports_def)

lemma add_ports_None:
  "\<forall>key \<in> set keys. fst (ValidatePort key) \<Longrightarrow> \<exists>m'. add_ports keys m = (None, m')"
  by (induction keys arbitrary: m) (auto split: prod.splits bool.splits)

text \<open>One configmap of the loop, for one protocol.\<close>

lemma add_cm_ports:
  assumes "fair_orders ord" and "map_of m = port_set addition S"
    and "Contains (cm_Name cm) pattern \<longrightarrow> (\<forall>key \<in> set (data_keys cm). fst (ValidatePort key))"
  shows "\<exists>m'. (if Contains (cm_Name cm) pattern then add_ports (name_order ord n (data_keys cm)) m else (None, m)) =
      (None, m') \<and> map_of m' = port_set addition (S \<union> cm_ports pattern [cm])"
proof (cases "Contains (cm_Name cm) pattern")
  case True
  define ks where "ks = name_order ord n (data_keys cm)"
  have ks: "set ks = set (data_keys cm)" using assms(1) by (simp add: ks_def)
  with assms(3) True obtain m' where "add_ports ks m = (None, m')" using add_ports_None by metis
  with add_ports_set [OF this assms(2)] valid_ports_set [OF ks] True show ?thesis
    by (simp add: ks_def)
qed (simp add: assms(2))

lemma add_cms_ok:
  assumes "fair_orders ord" and "good_cms cms"
    and "map_of (Tcp lb) = port_set addition T" and "map_of (Udp lb) = port_set addition U"
  shows "\<exists>t u. add_cms ord n cms lb = (None, lb\<lparr>Tcp := t, Udp := u\<rparr>) \<and>
    map_of t = port_set addition (T \<union> cm_ports tcpService cms) \<and>
    map_of u = port_set addition (U \<union> cm_ports udpService cms)"
  using assms(2-4)
proof (induction cms arbitrary: n lb T U)
  case Nil
  then show ?case by (intro exI [of _ "Tcp lb"] exI [of _ "Udp lb"]) simp
next
  case (Cons cm cms)
  have good: "good_cms cms" using Cons.prems(1) by (simp add: good_cms_def)
  obtain u where u: "(if Contains (cm_Name cm) udpService
      then add_ports (name_order ord (2 * n + 1) (data_keys cm)) (Udp lb) else (None, Udp lb)) = (None, u)"
    "map_of u = port_set addition (U \<union> cm_ports udpService [cm])"
    using add_cm_ports [OF assms(1) Cons.prems(3), of cm udpService "2 * n + 1"] Cons.prems(1)
    by (auto simp: good_cms_def)
  obtain t where t: "(if Contains (cm_Name cm) tcpService
      then add_ports (name_order ord (2 * n + 2) (data_keys cm)) (Tcp lb) else (None, Tcp lb)) = (None, t)"
    "map_of t = port_set addition (T \<union> cm_ports tcpService [cm])"
    using add_cm_ports [OF assms(1) Cons.prems(2), of cm tcpService "2 * n + 2"] Cons.prems(1)
    by (auto simp: good_cms_def)
  have sel: "Tcp (lb\<lparr>Udp := x\<rparr>) = Tcp lb" for x by simp
  have "add_cms ord n (cm # cms) lb = add_cms ord (n + 1) cms (lb\<lparr>Udp := u, Tcp := t\<rparr>)"
    using u(1) t(1) by (simp only: add_cms.simps Let_def sel prod.case) simp
  moreover obtain t' u' where tu:
    "add_cms ord (n + 1) cms (lb\<lparr>Udp := u, Tcp := t\<rparr>) = (None, lb\<lparr>Udp := u, Tcp := t, Tcp := t', Udp := u'\<rparr>)"
    "map_of t' = port_set addition (T \<union> cm_ports tcpService [cm] \<union> cm_ports tcpService cms)"
    "map_of u' = port_set addition (U \<union> cm_ports udpService [cm] \<union> cm_ports udpService cms)"
    using Cons.IH [OF good, of "lb\<lparr>Udp := u, Tcp := t\<rparr>" _ _ "n + 1"] t(2) u(2)
    by (simp del: cm_ports_simps) blast
  ultimately have eq: "add_cms ord n (cm # cms) lb = (None, lb\<lparr>Tcp := t', Udp := u'\<rparr>)" by simp
  show ?case
    unfolding eq using tu(2,3)
    by (intro exI [of _ t'] exI [of _ u']) (simp add: Un_assoc)
qed

lemma listCm_ok:
  assumes fair: "fair_orders ord" and cms: "list_cms kube (nginxServer lbc) w = (Inr cms, w')" "good_cms cms"
  shows "\<exists>t u. listCm kube ord lbc w = (None, lbc\<lparr>plbdata := (plbdata lbc)\<lparr>Tcp := t, Udp := u\<rparr>\<rparr>, w') \<and>
    map_of t = port_set addition (cm_ports tcpService cms) \<and>
    map_of u = port_set addition (cm_ports udpService cms)"
proof -
  have "delete_keys (port_order ord 0 (go_keys m)) m = []" "delete_keys (port_order ord 1 (go_keys m)) m = []"
    for m :: ports by (rule delete_all_keys, simp add: fair)+
  then have C: "listCm kube ord lbc w = (case add_cms ord 0 cms ((plbdata lbc)\<lparr>Tcp := [], Udp := []\<rparr>) of
      (err, lb') \<Rightarrow> (err, lbc\<lparr>plbdata := lb'\<rparr>, w'))"
    using cms(1) by (simp add: listCm_def Let_def)
  have "map_of [] = port_set addition {}" by (simp add: port_set_def fun_eq_iff)
  then obtain t u where "add_cms ord 0 cms ((plbdata lbc)\<lparr>Tcp := [], Udp := []\<rparr>) =
      (None, (plbdata lbc)\<lparr>Tcp := t, Udp := u\<rparr>)"
    "map_of t = port_set addition (cm_ports tcpService cms)"
    "map_of u = port_set addition (cm_ports udpService cms)"
    using add_cms_ok [OF fair cms(2), of "(plbdata lbc)\<lparr>Tcp := [], Udp := []\<rparr>" "{}" "{}" 0] by auto
  then show ?thesis unfolding C by (intro exI [of _ t] exI [of _ u]) simp
qed

text \<open>\<open>Initial\<close> and the pod handler, when the listings succeed.\<close>

lemma Initial_tracks:
  assumes ok: "ready_to_send lbc" and fair: "fair_orders ord" and t: "tracked lbc {} {}"
    and cms: "list_cms kube (nginxServer lbc) w = (Inr cms, w1)" "good_cms cms"
    and pods: "list_pods kube (nginxServer lbc) w1 = (Inr pods, w2)" "good_pods pods"
  defines "T \<equiv> cm_ports tcpService cms" and "U \<equiv> cm_ports udpService cms"
  shows "\<exists>lbc'. Initial_body kube ord lbc w = Returns (None, lbc', w2) \<and>
    map_of (ExTcp lbc') = port_set protoTcp T \<and> map_of (ExUdp lbc') = port_set protoUdp U \<and>
    clbdata lbc' = clbdata lbc \<and> NwTcp lbc' = NwTcp lbc \<and> NwUdp lbc' = NwUdp lbc \<and>
    map_of (Tcp (plbdata lbc')) = port_set addition T \<and> map_of (Udp (plbdata lbc')) = port_set addition U \<and>
    addrs_with addition (plbdata lbc') (pod_addrs pods) \<and>
    dom (map_of (Addr (plbdata lbc'))) \<subseteq> (\<lambda>pod. ''adding_'' @ pod_Name pod) ` set pods \<and> lbstore lbc' = lbstore lbc @ [PLB] \<and>
    lvsManager lbc' = lvsManager lbc \<and> nginxServer lbc' = nginxServer lbc \<and> \<not> cond_L lbc' \<and> \<not> lb_closed lbc'"
proof -
  obtain t u where C: "listCm kube ord lbc w = (None, lbc\<lparr>plbdata := (plbdata lbc)\<lparr>Tcp := t, Udp := u\<rparr>\<rparr>, w1)"
    "map_of t = port_set addition T" "map_of u = port_set addition U"
    using listCm_ok [OF fair cms] unfolding T_def U_def by blast
  define lbc3 where "lbc3 = lbc\<lparr>plbdata := (plbdata lbc)\<lparr>Tcp := t, Udp := u\<rparr>,
      ExTcp := put_keys (port_order ord 2 (go_keys t)) protoTcp (ExTcp lbc),
      ExUdp := put_keys (port_order ord 3 (go_keys u)) protoUdp (ExUdp lbc)\<rparr>"
  have ex: "map_of (ExTcp lbc3) = port_set protoTcp T" "map_of (ExUdp lbc3) = port_set protoUdp U"
    using t fair C(2,3)
    by (auto simp: lbc3_def tracked_def map_of_put_keys port_set_def fun_eq_iff domIff)
  have "list_pods kube (nginxServer lbc3) w1 = (Inr pods, w2)" using pods by (simp add: lbc3_def)
  from listNginx_ok [OF fair this pods(2), of PLB] obtain addrs where
    N: "listNginx kube ord PLB lbc3 w1 = (None, lbc3\<lparr>plbdata := (plbdata lbc3)\<lparr>Addr := addrs\<rparr>\<rparr>, w2)"
    "addrs_with addition ((plbdata lbc3)\<lparr>Addr := addrs\<rparr>) (pod_addrs pods)"
    "dom (map_of addrs) \<subseteq> (\<lambda>pod. ''adding_'' @ pod_Name pod) ` set pods" by auto
  define lbc4 where "lbc4 = lbc3\<lparr>plbdata := (plbdata lbc3)\<lparr>Addr := addrs\<rparr>\<rparr>"
  have "Initial_body kube ord lbc w = Returns (None, lbc4\<lparr>lbstore := lbstore lbc @ [PLB], cond_L := False\<rparr>, w2)"
    using C(1) N(1) ok
    by (simp add: Initial_body_def lbc4_def lbc3_def send_unlock_def ready_to_send_def)
  then show ?thesis
    using ex C(2,3) N(2,3) ok by (simp add: lbc4_def lbc3_def ready_to_send_def)
qed

lemma addrUpdate_tracks:
  assumes ok: "ready_to_send lbc" and fair: "fair_orders ord"
    and cms: "list_cms kube (nginxServer lbc) w = (Inr cms, w1)" "good_cms cms"
    and pod: "fst (ValidateIPv4 (pod_PodIP pod))" "pod_addr pod = Some a"
  defines "T \<equiv> cm_ports tcpService cms" and "U \<equiv> cm_ports udpService cms"
  shows "\<exists>lb. addrUpdate_body kube ord pod lbc w =
      Returns (lbc\<lparr>plbdata := lb, lbstore := lbstore lbc @ [PLB], cond_L := False\<rparr>, w1) \<and>
    addrs_with (if pod_Deleted pod then deletion else addition) lb {a} \<and>
    map_of (Tcp lb) = port_set addition T \<and> map_of (Udp lb) = port_set addition U"
proof -
  define key where "key = (if pod_Deleted pod then ''deleting_'' else ''adding_'') @ pod_Name pod @ [CHR 0x0A]"
  define ip where "ip = snd (ValidateIPv4 (pod_PodIP pod))"
  define m where "m = delete_keys (name_order ord 0 (go_keys (Addr (plbdata lbc)))) (Addr (plbdata lbc))"
  have m: "m = []" unfolding m_def by (rule delete_all_keys) (simp add: fair)
  have v: "ValidateIPv4 (pod_PodIP pod) = (True, ip)"
    using pod(1) by (cases "ValidateIPv4 (pod_PodIP pod)") (simp add: ip_def)
  have a: "addr4 ip = Some a" using ValidateIPv4_addr4 [OF v] pod(2) by (simp add: pod_addr_def)
  define lbc1 where "lbc1 = lbc\<lparr>plbdata := (plbdata lbc)\<lparr>Addr := go_put key ip []\<rparr>\<rparr>"
  obtain t u where C: "listCm kube (after 1 ord) lbc1 w = (None, lbc1\<lparr>plbdata := (plbdata lbc1)\<lparr>Tcp := t, Udp := u\<rparr>\<rparr>, w1)"
    "map_of t = port_set addition T" "map_of u = port_set addition U"
    using listCm_ok [OF fair_after [OF fair], of kube lbc1 w cms w1 1] cms
    unfolding T_def U_def by (auto simp: lbc1_def)
  define lb where "lb = (plbdata lbc1)\<lparr>Tcp := t, Udp := u\<rparr>"
  have "addrUpdate_body kube ord pod lbc w = send_unlock PLB (lbc1\<lparr>plbdata := lb\<rparr>) w1"
    unfolding addrUpdate_body_def Let_def key_def [symmetric] m_def [symmetric] v prod.case bool.case m
      lbc1_def [symmetric] C(1) lb_def ..
  moreover have "send_unlock PLB (lbc1\<lparr>plbdata := lb\<rparr>) w1 =
      Returns (lbc\<lparr>plbdata := lb, lbstore := lbstore lbc @ [PLB], cond_L := False\<rparr>, w1)"
    using ok by (simp add: send_unlock_def lbc1_def ready_to_send_def)
  moreover have "hd (Split key CHR ''_'') = (if pod_Deleted pod then deletion else addition)"
    unfolding key_def by (simp only: hd_Split_key split: if_split) simp
  then have "addrs_with (if pod_Deleted pod then deletion else addition) lb {a}"
    using a by (simp add: addrs_with_def lb_def lbc1_def)
  ultimately show ?thesis using C(2,3) by (auto simp: lb_def)
qed

end
