(* ===== verification/Worker.thy ===== *)
theory Worker
  imports Port_Tables
begin

text \<open>
  The worker over the contract \<open>real_servers\<close>: what a store asks for (\<open>store_adds\<close>,
  \<open>store_dels\<close>) and the proof that the loops of \<open>processFunc\<close> apply it to the kernel's table
  whatever the order of the range loops, and never panic on a store that is in order.
\<close>

section \<open>What a store asks for\<close>

definition upd :: "'a set \<Rightarrow> 'a set \<Rightarrow> 'a set \<Rightarrow> 'a set" where
  "upd A D S = (S \<union> A) - D"

lemma upd_upd: "B \<inter> D = {} \<Longrightarrow> upd B E (upd A D S) = upd (A \<union> B) (D \<union> E) S"
  by (auto simp: upd_def)

lemma upd_empty [simp]: "upd {} {} S = S"
  by (simp add: upd_def)

definition with_act :: "string \<Rightarrow> bytes \<Rightarrow> string \<Rightarrow> ports \<Rightarrow> bytes \<Rightarrow> u16 set \<Rightarrow> (svc_key \<times> dst_key) set" where
  "with_act act v proto acts a P = {(vip_key v proto p, (a, p)) | p. p \<in> P \<and> map_of acts p = Some act}"

definition key_addr :: "LBStore \<Rightarrow> string \<Rightarrow> bytes option" where
  "key_addr lb key = (case map_of (Addr lb) key of None \<Rightarrow> None | Some ip \<Rightarrow> addr4 ip)"

definition addr_adds :: "bytes \<Rightarrow> LBStore \<Rightarrow> bytes \<Rightarrow> (svc_key \<times> dst_key) set" where
  "addr_adds v lb a = with_act addition v TCP (Tcp lb) a UNIV \<union> with_act addition v UDP (Udp lb) a UNIV"

definition addr_dels :: "bytes \<Rightarrow> LBStore \<Rightarrow> bytes \<Rightarrow> (svc_key \<times> dst_key) set" where
  "addr_dels v lb a = with_act deletion v TCP (Tcp lb) a UNIV \<union> with_act deletion v UDP (Udp lb) a UNIV"

definition key_adds :: "bytes \<Rightarrow> LBStore \<Rightarrow> string \<Rightarrow> (svc_key \<times> dst_key) set" where
  "key_adds v lb key = (case key_addr lb key of None \<Rightarrow> {}
     | Some a \<Rightarrow> if hd (Split key CHR ''_'') = addition then addr_adds v lb a else {})"

definition key_dels :: "bytes \<Rightarrow> LBStore \<Rightarrow> string \<Rightarrow> (svc_key \<times> dst_key) set" where
  "key_dels v lb key = (case key_addr lb key of None \<Rightarrow> {}
     | Some a \<Rightarrow> if hd (Split key CHR ''_'') = addition then addr_dels v lb a
         else if hd (Split key CHR ''_'') = deletion then {(k, dk). fst dk = a} else {})"

definition store_adds :: "bytes \<Rightarrow> LBStore \<Rightarrow> (svc_key \<times> dst_key) set" where
  "store_adds v lb = (\<Union>key \<in> dom (map_of (Addr lb)). key_adds v lb key)"

definition store_dels :: "bytes \<Rightarrow> LBStore \<Rightarrow> (svc_key \<times> dst_key) set" where
  "store_dels v lb = (\<Union>key \<in> dom (map_of (Addr lb)). key_dels v lb key)"

text \<open>
  A store in order: IPv4 addresses, no port 0, and nothing that is both to be added and to be
  removed.
\<close>

definition store_ok :: "bytes \<Rightarrow> LBStore \<Rightarrow> bool" where
  "store_ok v lb \<longleftrightarrow> (\<forall>key ip. map_of (Addr lb) key = Some ip \<longrightarrow> addr4 ip \<noteq> None) \<and>
     0 \<notin> dom (map_of (Tcp lb)) \<and> 0 \<notin> dom (map_of (Udp lb)) \<and> store_adds v lb \<inter> store_dels v lb = {}"

text \<open>A store the loops do not panic on: nothing is said of what it asks for.\<close>

definition store_sane :: "LBStore \<Rightarrow> bool" where
  "store_sane lb \<longleftrightarrow> (\<forall>key ip. map_of (Addr lb) key = Some ip \<longrightarrow> addr4 ip \<noteq> None) \<and>
     0 \<notin> dom (map_of (Tcp lb)) \<and> 0 \<notin> dom (map_of (Udp lb))"

lemma store_ok_sane: "store_ok v lb \<Longrightarrow> store_sane lb"
  by (simp add: store_ok_def store_sane_def)

text \<open>Of a table \<open>S\<close> only elements of \<open>D\<close> are gone, and only elements of \<open>A\<close> have come.\<close>

definition within :: "'a set \<Rightarrow> 'a set \<Rightarrow> 'a set \<Rightarrow> 'a set \<Rightarrow> bool" where
  "within A D S S' \<longleftrightarrow> S' \<subseteq> S \<union> A \<and> S - D \<subseteq> S'"

lemma within_upd: "within A D S (upd A D S)"
  by (auto simp: within_def upd_def)

lemma within_trans: "within A D S S' \<Longrightarrow> within B E S' S'' \<Longrightarrow> within (A \<union> B) (D \<union> E) S S''"
  by (auto simp: within_def)

lemma vip_key_eq: "vip_key v p a = vip_key v q b \<longleftrightarrow> proto_num p = proto_num q \<and> a = b"
  by (simp add: vip_key_def)

lemma proto_num_simps [simp]: "proto_num TCP = 6" "proto_num UDP = 17" "proto_num TCP \<noteq> proto_num UDP"
  by (simp_all add: proto_num_def TCP_def UDP_def)

lemma protos [simp]: "protoTcp = TCP" "protoUdp = UDP"
  by (simp_all add: protoTcp_def protoUdp_def TCP_def UDP_def)

lemma actions [simp]: "addition \<noteq> deletion" "deletion \<noteq> addition"
  by (simp_all add: addition_def deletion_def)

lemma with_act_insert:
  "with_act act v proto acts a (insert p P) =
     (if map_of acts p = Some act then {(vip_key v proto p, (a, p))} else {}) \<union> with_act act v proto acts a P"
  by (auto simp: with_act_def)

lemma with_act_empty [simp]: "with_act act v proto acts a {} = {}"
  by (simp add: with_act_def)

lemma with_act_UNIV: "with_act act v proto acts a (dom (map_of acts)) = with_act act v proto acts a UNIV"
  by (auto simp: with_act_def)

lemma with_act_disjoint:
  "with_act addition v proto acts a P \<inter> with_act deletion v proto acts a Q = {}"
  by (auto simp: with_act_def vip_key_eq)

lemma with_act_protos: "with_act act v UDP acts a P \<inter> with_act act' v TCP acts' a' Q = {}"
  by (auto simp: with_act_def vip_key_eq)

section \<open>The loops\<close>

context real_servers
begin

lemma sync_ports_ok:
  assumes "ok w" and a: "addr4 ip = Some a" and proto: "proto = TCP \<or> proto = UDP"
    and "0 \<notin> set ps" and "set ps \<subseteq> dom (map_of acts)"
  shows "\<exists>w'. sync_ports add del ip proto acts ps w = Some w' \<and> ok w' \<and>
    table w' = upd (with_act addition v proto acts a (set ps)) (with_act deletion v proto acts a (set ps)) (table w)"
  using assms(1,4,5)
proof (induction ps arbitrary: w)
  case Nil
  then show ?case by simp
next
  case (Cons p ps)
  then obtain act where act: "map_of acts p = Some act" by auto
  then have get: "go_get_str acts p = act" by (rule go_get_str_Some)
  have p: "p \<noteq> 0" using Cons.prems by auto
  let ?x = "(vip_key v proto p, (a, p))"
  let ?A = "if act = addition then {?x} else {}" and ?D = "if act = deletion then {?x} else {}"
  have "\<exists>w1 err. (if act = addition then add ip p proto w else if act = deletion then del ip p proto w
      else Some (None, w)) = Some (err, w1) \<and> ok w1 \<and> table w1 = upd ?A ?D (table w)"
    using add_ok [OF Cons.prems(1) a p proto] del_ok [OF Cons.prems(1) a p proto] Cons.prems(1)
    by (auto simp: upd_def)
  then obtain w1 err where w1: "(if act = addition then add ip p proto w else if act = deletion then del ip p proto w
      else Some (None, w)) = Some (err, w1)" "ok w1" "table w1 = upd ?A ?D (table w)" by blast
  obtain w' where w': "sync_ports add del ip proto acts ps w1 = Some w'" "ok w'"
    "table w' = upd (with_act addition v proto acts a (set ps)) (with_act deletion v proto acts a (set ps)) (table w1)"
    using Cons.IH [OF w1(2)] Cons.prems by auto
  have "with_act addition v proto acts a (set ps) \<inter> ?D = {}"
    using act by (auto simp: with_act_def vip_key_eq)
  with w'(3) have "table w' = upd (with_act addition v proto acts a (set (p # ps)))
      (with_act deletion v proto acts a (set (p # ps))) (table w)"
    using act w1(3) by (simp add: upd_upd with_act_insert)
  moreover have "sync_ports add del ip proto acts (p # ps) w = Some w'"
    using w1(1) w'(1) get by (simp only: sync_ports.simps Let_def get) simp
  ultimately show ?case using w'(2) by blast
qed

lemma sync_addr_ok:
  assumes w: "ok w" and fair: "fair_orders ord" and ip: "map_of (Addr lb) key = Some ip"
    and lb: "store_sane lb"
  shows "\<exists>w'. sync_addr add del delrs ord lb key ip w = Some w' \<and> ok w' \<and>
    table w' = upd (key_adds v lb key) (key_dels v lb key) (table w)"
proof -
  have "addr4 ip \<noteq> None" using ip lb unfolding store_sane_def by blast
  then obtain a where a: "addr4 ip = Some a" by auto
  have ka: "key_addr lb key = Some a" using ip a by (simp add: key_addr_def)
  consider (add) "hd (Split key CHR ''_'') = addition" | (del) "hd (Split key CHR ''_'') = deletion"
    | (other) "hd (Split key CHR ''_'') \<noteq> addition" "hd (Split key CHR ''_'') \<noteq> deletion" by blast
  then show ?thesis
  proof cases
    case add
    define ps where "ps = port_order ord 0 (go_keys (Tcp lb))"
    define qs where "qs = port_order ord 1 (go_keys (Udp lb))"
    have ps: "set ps = dom (map_of (Tcp lb))" "0 \<notin> set ps"
      and qs: "set qs = dom (map_of (Udp lb))" "0 \<notin> set qs"
      using fair lb by (simp_all add: ps_def qs_def store_sane_def)
    obtain w1 where w1: "sync_ports add del ip TCP (Tcp lb) ps w = Some w1" "ok w1"
      "table w1 = upd (with_act addition v TCP (Tcp lb) a UNIV) (with_act deletion v TCP (Tcp lb) a UNIV) (table w)"
      using sync_ports_ok [OF w a _ ps(2), of TCP "Tcp lb"] ps(1) by (auto simp: with_act_UNIV)
    obtain w2 where w2: "sync_ports add del ip UDP (Udp lb) qs w1 = Some w2" "ok w2"
      "table w2 = upd (with_act addition v UDP (Udp lb) a UNIV) (with_act deletion v UDP (Udp lb) a UNIV) (table w1)"
      using sync_ports_ok [OF w1(2) a _ qs(2), of UDP "Udp lb"] qs(1) by (auto simp: with_act_UNIV)
    have "table w2 = upd (key_adds v lb key) (key_dels v lb key) (table w)"
      using w1(3) w2(3) ka add
      by (simp add: upd_upd with_act_protos key_adds_def key_dels_def addr_adds_def addr_dels_def)
    with w1(1) w2(1,2) add show ?thesis
      by (simp add: sync_addr_def ps_def qs_def)
  next
    case del
    with delrs_ok [OF w a] ka show ?thesis
      by (auto simp: sync_addr_def key_adds_def key_dels_def upd_def)
  next
    case other
    with w ka show ?thesis by (simp add: sync_addr_def key_adds_def key_dels_def)
  qed
qed

lemma sync_addrs_ok:
  assumes "ok w" and "fair_orders ord" and "set keys \<subseteq> dom (map_of (Addr lb))" and lb: "store_ok v lb"
  shows "\<exists>w'. sync_addrs add del delrs ord lb keys w = Some w' \<and> ok w' \<and>
    table w' = upd (\<Union>key \<in> set keys. key_adds v lb key) (\<Union>key \<in> set keys. key_dels v lb key) (table w)"
  using assms(1-3)
proof (induction keys arbitrary: w ord)
  case Nil
  then show ?case by simp
next
  case (Cons key keys)
  then obtain ip where ip: "map_of (Addr lb) key = Some ip" by auto
  obtain w1 where w1: "sync_addr add del delrs ord lb key ip w = Some w1" "ok w1"
    "table w1 = upd (key_adds v lb key) (key_dels v lb key) (table w)"
    using sync_addr_ok [OF Cons.prems(1,2) ip store_ok_sane [OF lb]] by blast
  obtain w' where w': "sync_addrs add del delrs (after 2 ord) lb keys w1 = Some w'" "ok w'"
    "table w' = upd (\<Union>key \<in> set keys. key_adds v lb key) (\<Union>key \<in> set keys. key_dels v lb key) (table w1)"
    using Cons.IH [OF w1(2), of "after 2 ord"] Cons.prems by auto
  have "key \<in> dom (map_of (Addr lb))" "set keys \<subseteq> dom (map_of (Addr lb))" using Cons.prems(3) by simp_all
  then have "(\<Union>key \<in> set keys. key_adds v lb key) \<subseteq> store_adds v lb" "key_dels v lb key \<subseteq> store_dels v lb"
    unfolding store_adds_def store_dels_def by blast+
  moreover have "store_adds v lb \<inter> store_dels v lb = {}" using lb by (simp add: store_ok_def)
  ultimately have "(\<Union>key \<in> set keys. key_adds v lb key) \<inter> key_dels v lb key = {}" by blast
  then have "table w' = upd (\<Union>k \<in> set (key # keys). key_adds v lb k) (\<Union>k \<in> set (key # keys). key_dels v lb k) (table w)"
    using w1(3) w'(3) by (simp add: upd_upd)
  then show ?case using w1(1) w'(1,2) ip by simp
qed

text \<open>Whatever a store asks for, the loops touch nothing else.\<close>

lemma sync_addrs_within:
  assumes "ok w" and "fair_orders ord" and "set keys \<subseteq> dom (map_of (Addr lb))" and lb: "store_sane lb"
  shows "\<exists>w'. sync_addrs add del delrs ord lb keys w = Some w' \<and> ok w' \<and>
    within (\<Union>key \<in> set keys. key_adds v lb key) (\<Union>key \<in> set keys. key_dels v lb key) (table w) (table w')"
  using assms(1-3)
proof (induction keys arbitrary: w ord)
  case Nil
  then show ?case by (simp add: within_def)
next
  case (Cons key keys)
  then obtain ip where ip: "map_of (Addr lb) key = Some ip" by auto
  obtain w1 where w1: "sync_addr add del delrs ord lb key ip w = Some w1" "ok w1"
    "table w1 = upd (key_adds v lb key) (key_dels v lb key) (table w)"
    using sync_addr_ok [OF Cons.prems(1,2) ip lb] by blast
  obtain w' where w': "sync_addrs add del delrs (after 2 ord) lb keys w1 = Some w'" "ok w'"
    "within (\<Union>key \<in> set keys. key_adds v lb key) (\<Union>key \<in> set keys. key_dels v lb key) (table w1) (table w')"
    using Cons.IH [OF w1(2), of "after 2 ord"] Cons.prems by auto
  have "within (key_adds v lb key) (key_dels v lb key) (table w) (table w1)" unfolding w1(3) by (rule within_upd)
  from within_trans [OF this w'(3)] show ?case using w1(1) w'(1,2) ip by simp
qed

lemma sync_store_within:
  assumes "ok w" and "fair_orders ord" and "store_sane lb"
  shows "\<exists>w'. sync_addrs add del delrs ord lb (name_order ord 0 (go_keys (Addr lb))) w = Some w' \<and> ok w' \<and>
    within (store_adds v lb) (store_dels v lb) (table w) (table w')"
  using sync_addrs_within [of w ord "name_order ord 0 (go_keys (Addr lb))" lb] assms
  by (simp add: store_adds_def store_dels_def)

lemma sync_store_ok:
  assumes "ok w" and "fair_orders ord" and "store_ok v lb"
  shows "\<exists>w'. sync_addrs add del delrs ord lb (name_order ord 0 (go_keys (Addr lb))) w = Some w' \<and> ok w' \<and>
    table w' = upd (store_adds v lb) (store_dels v lb) (table w)"
  using sync_addrs_ok [of w ord "name_order ord 0 (go_keys (Addr lb))" lb] assms
  by (simp add: store_adds_def store_dels_def)

end

end
