(* ===== verification/Sync.thy ===== *)
theory Sync
  imports Worker
begin

text \<open>
  The controller at rest, and what one event does to it. \<open>want v A T U\<close> is the table the
  program is for: every address of \<open>A\<close> serves every tcp port of \<open>T\<close> and every udp port of
  \<open>U\<close> under the virtual address \<open>v\<close>. A controller is \<open>at_rest\<close> when its queue is empty, its
  tables track \<open>T\<close> and \<open>U\<close>, and the kernel's table is \<open>want v A T U\<close>. The relation
  \<open>quiet_run\<close> is a run in which the worker takes its turn after each event.
\<close>

definition want :: "bytes \<Rightarrow> bytes set \<Rightarrow> u16 set \<Rightarrow> u16 set \<Rightarrow> (svc_key \<times> dst_key) set" where
  "want v A T U = {(vip_key v TCP p, (a, p)) | a p. a \<in> A \<and> p \<in> T} \<union>
     {(vip_key v UDP p, (a, p)) | a p. a \<in> A \<and> p \<in> U}"

section \<open>Stores of one kind\<close>

lemma key_addr_Some: "key_addr lb key = Some a \<longleftrightarrow> (\<exists>ip. map_of (Addr lb) key = Some ip \<and> addr4 ip = Some a)"
  by (auto simp: key_addr_def split: option.splits)

lemma store_adding:
  assumes "addrs_with addition lb A"
  shows "store_adds v lb = (\<Union>a \<in> A. addr_adds v lb a)" "store_dels v lb = (\<Union>a \<in> A. addr_dels v lb a)"
proof -
  define K where "K = dom (map_of (Addr lb))"
  define f where "f key = the (key_addr lb key)" for key
  have key: "hd (Split key CHR ''_'') = addition \<and> key_addr lb key = Some (f key) \<and> f key \<in> A" if k: "key \<in> K" for key
  proof -
    from k obtain ip where "map_of (Addr lb) key = Some ip" by (auto simp: K_def)
    moreover from this have "hd (Split key CHR ''_'') = addition" "addr4 ip \<in> Some ` A"
      using assms unfolding addrs_with_def by blast+
    ultimately show ?thesis by (auto simp: key_addr_def f_def)
  qed
  have "\<exists>key \<in> K. f key = a" if "a \<in> A" for a
  proof -
    from that obtain key ip where "map_of (Addr lb) key = Some ip" "addr4 ip = Some a"
      using assms unfolding addrs_with_def by blast
    then show ?thesis by (intro bexI [of _ key]) (auto simp: K_def f_def key_addr_def)
  qed
  with key have A: "A = f ` K" by blast
  have "key_adds v lb key = addr_adds v lb (f key)" "key_dels v lb key = addr_dels v lb (f key)" if "key \<in> K" for key
    using key [OF that] by (simp_all add: key_adds_def key_dels_def)
  then show "store_adds v lb = (\<Union>a \<in> A. addr_adds v lb a)" "store_dels v lb = (\<Union>a \<in> A. addr_dels v lb a)"
    by (simp_all add: store_adds_def store_dels_def A K_def)
qed

lemma store_deleting:
  assumes "addrs_with deletion lb {a}"
  shows "store_adds v lb = {}" "store_dels v lb = {(k, dk). fst dk = a}"
proof -
  have key: "key_addr lb key = Some a \<and> hd (Split key CHR ''_'') = deletion"
    if "key \<in> dom (map_of (Addr lb))" for key
    using assms that unfolding addrs_with_def key_addr_def by fastforce
  obtain key where "key \<in> dom (map_of (Addr lb))"
    using assms unfolding addrs_with_def by fastforce
  with key show "store_dels v lb = {(k, dk). fst dk = a}"
    unfolding store_dels_def key_dels_def by (auto split: if_splits)
  show "store_adds v lb = {}"
    unfolding store_adds_def key_adds_def using key by fastforce
qed

lemma addr_adds_dels: "addr_adds v lb a \<inter> addr_dels v lb b = {}"
  by (auto simp: addr_adds_def addr_dels_def with_act_def vip_key_eq)

lemma addrs_with_addr4: "addrs_with act lb A \<Longrightarrow> map_of (Addr lb) key = Some ip \<Longrightarrow> addr4 ip \<noteq> None"
  unfolding addrs_with_def by fastforce

lemma store_ok_adding:
  assumes "addrs_with addition lb A" and "0 \<notin> dom (map_of (Tcp lb))" and "0 \<notin> dom (map_of (Udp lb))"
  shows "store_ok v lb"
proof -
  have "store_adds v lb \<inter> store_dels v lb = {}"
    unfolding store_adding [OF assms(1)] using addr_adds_dels by blast
  with assms(2,3) addrs_with_addr4 [OF assms(1)] show ?thesis by (auto simp: store_ok_def)
qed

lemma store_ok_deleting:
  assumes "addrs_with deletion lb {a}" and "0 \<notin> dom (map_of (Tcp lb))" and "0 \<notin> dom (map_of (Udp lb))"
  shows "store_ok v lb"
  using assms(2,3) addrs_with_addr4 [OF assms(1)] store_deleting [OF assms(1)] by (auto simp: store_ok_def)

section \<open>What a store does to the wanted table\<close>

lemma in_want:
  "(vip_key v TCP p, (a, q)) \<in> want v A T U \<longleftrightarrow> a \<in> A \<and> p \<in> T \<and> p = q"
  "(vip_key v UDP p, (a, q)) \<in> want v A T U \<longleftrightarrow> a \<in> A \<and> p \<in> U \<and> p = q"
  by (auto simp: want_def vip_key_eq)

text \<open>A delta store, sent to all addresses.\<close>

lemma upd_want_delta:
  assumes lb: "addrs_with addition lb A" and T: "delta_steps (Tcp lb) T T'" and U: "delta_steps (Udp lb) U U'"
  shows "upd (store_adds v lb) (store_dels v lb) (want v A T U) = want v A T' U'"
proof (rule set_eqI)
  fix x :: "svc_key \<times> dst_key"
  have T': "p \<in> T' \<longleftrightarrow> (p \<in> T \<or> map_of (Tcp lb) p = Some addition) \<and> map_of (Tcp lb) p \<noteq> Some deletion" for p
    using T by (simp add: delta_steps_def)
  have U': "p \<in> U' \<longleftrightarrow> (p \<in> U \<or> map_of (Udp lb) p = Some addition) \<and> map_of (Udp lb) p \<noteq> Some deletion" for p
    using U by (simp add: delta_steps_def)
  have adds: "x \<in> store_adds v lb \<longleftrightarrow> (\<exists>a \<in> A. \<exists>p. x = (vip_key v TCP p, (a, p)) \<and> map_of (Tcp lb) p = Some addition
      \<or> x = (vip_key v UDP p, (a, p)) \<and> map_of (Udp lb) p = Some addition)"
    unfolding store_adding [OF lb] addr_adds_def with_act_def by blast
  have dels: "x \<in> store_dels v lb \<longleftrightarrow> (\<exists>a \<in> A. \<exists>p. x = (vip_key v TCP p, (a, p)) \<and> map_of (Tcp lb) p = Some deletion
      \<or> x = (vip_key v UDP p, (a, p)) \<and> map_of (Udp lb) p = Some deletion)"
    unfolding store_adding [OF lb] addr_dels_def with_act_def by blast
  consider (t) a p where "x = (vip_key v TCP p, (a, p))" | (u) a p where "x = (vip_key v UDP p, (a, p))"
    | (n) "x \<notin> want v A T U" "x \<notin> want v A T' U'" "x \<notin> store_adds v lb"
    unfolding adds want_def by blast
  then show "x \<in> upd (store_adds v lb) (store_dels v lb) (want v A T U) \<longleftrightarrow> x \<in> want v A T' U'"
  proof cases
    case t
    then show ?thesis unfolding upd_def Un_iff Diff_iff adds dels by (auto simp: in_want T' vip_key_eq)
  next
    case u
    then show ?thesis unfolding upd_def Un_iff Diff_iff adds dels by (auto simp: in_want U' vip_key_eq)
  next
    case n
    then show ?thesis by (simp add: upd_def)
  qed
qed

text \<open>A store of all ports, sent to the addresses \<open>B\<close>.\<close>

lemma addr_adds_all:
  "map_of (Tcp lb) = port_set addition T \<Longrightarrow> map_of (Udp lb) = port_set addition U \<Longrightarrow>
     (\<Union>a \<in> B. addr_adds v lb a) = want v B T U \<and> (\<Union>a \<in> B. addr_dels v lb a) = {}"
  by (auto simp: addr_adds_def addr_dels_def with_act_def port_set_def want_def split: if_splits)

lemma upd_want_all:
  assumes "addrs_with addition lb B"
    and "map_of (Tcp lb) = port_set addition T" and "map_of (Udp lb) = port_set addition U"
  shows "upd (store_adds v lb) (store_dels v lb) (want v A T U) = want v (A \<union> B) T U"
  using addr_adds_all [OF assms(2,3), where B = B and v = v] store_adding [OF assms(1), where v = v]
  by (auto simp: upd_def want_def)

lemma upd_want_gone:
  assumes "addrs_with deletion lb {a}"
  shows "upd (store_adds v lb) (store_dels v lb) (want v A T U) = want v (A - {a}) T U"
  unfolding store_deleting [OF assms] by (auto simp: upd_def want_def)

lemma want_empty [simp]: "want v {} T U = {}"
  by (simp add: want_def)

section \<open>Events and turns\<close>

datatype event = CmEvent ConfigMap ConfigMap | PodEvent Pod Pod

fun handle :: "'w kube \<Rightarrow> orders \<Rightarrow> event \<Rightarrow> 'w LoadBalancerController \<Rightarrow> 'w \<Rightarrow> 'w st outcome" where
  "handle kube ord (CmEvent oldCm cm) lbc w = updatePorts kube ord oldCm cm lbc w"
| "handle kube ord (PodEvent oldPod newPod) lbc w = OnUpdate_pod kube ord oldPod newPod lbc w"

text \<open>The handler of an event, then the worker if there is an item.\<close>

definition turn :: "'w kube \<Rightarrow> 'w host \<Rightarrow> orders \<Rightarrow> orders \<Rightarrow> event \<Rightarrow> 'w LoadBalancerController \<Rightarrow> 'w \<Rightarrow> 'w st outcome" where
  "turn kube hst ord ord' ev lbc w =
     (case handle kube ord ev lbc w of
        Returns (lbc1, w1) \<Rightarrow> if lbstore lbc1 = [] then Returns (lbc1, w1) else processFunc hst ord' lbc1 w1
      | r \<Rightarrow> r)"

definition at_rest :: "bytes \<Rightarrow> bytes set \<Rightarrow> u16 set \<Rightarrow> u16 set \<Rightarrow> ipvs_view \<Rightarrow> 'w LoadBalancerController \<Rightarrow> bool" where
  "at_rest v A T U V lbc \<longleftrightarrow> wf_lbc lbc \<and> \<not> cond_L lbc \<and> \<not> lb_closed lbc \<and> lbstore lbc = [] \<and>
     tracked lbc T U \<and> leftover lbc {} {} \<and> 0 \<notin> T \<and> 0 \<notin> U \<and>
     0 \<notin> dom (map_of (Tcp (clbdata lbc))) \<and> 0 \<notin> dom (map_of (Udp (clbdata lbc))) \<and> rs_of V = want v A T U"

text \<open>The environment: a ready manager and an API client that leaves the kernel's table alone.\<close>

locale controller_env = lvs_ready h view invar svc_ok dst_ok hst lm v
  for h :: "'w IPVSHandle" and view :: "'w \<Rightarrow> ipvs_view" and invar :: "'w \<Rightarrow> bool"
    and svc_ok :: "Service \<Rightarrow> bool" and dst_ok :: "Service \<Rightarrow> Destination \<Rightarrow> bool"
    and hst :: "'w host" and lm :: "'w LvsManager" and v :: bytes +
  fixes kube :: "'w kube"
  assumes pods_quiet: "invar w \<Longrightarrow> list_pods kube ns w = (ps, w') \<Longrightarrow> invar w' \<and> view w' = view w"
    and cms_quiet: "invar w \<Longrightarrow> list_cms kube ns w = (cs, w') \<Longrightarrow> invar w' \<and> view w' = view w"
begin

lemma good_pods_list: "good w \<Longrightarrow> list_pods kube ns w = (ps, w') \<Longrightarrow> good w' \<and> view w' = view w"
  using pods_quiet by (auto simp: good_world_def)

lemma good_cms_list: "good w \<Longrightarrow> list_cms kube ns w = (cs, w') \<Longrightarrow> good w' \<and> view w' = view w"
  using cms_quiet by (auto simp: good_world_def)

lemma processFunc_one:
  assumes "good w" and "lvsManager lbc = lm" and "lbstore lbc = r # rs" and "\<not> cond_L lbc"
    and "fair_orders ord" and "store_ok v (deref r lbc)"
  shows "\<exists>w'. processFunc hst ord lbc w = Returns (lbc\<lparr>lbstore := rs, cond_L := False\<rparr>, w') \<and> good w' \<and>
    rs_of (view w') = upd (store_adds v (deref r lbc)) (store_dels v (deref r lbc)) (rs_of (view w))"
proof -
  have d: "deref r (lbc\<lparr>cond_L := True\<rparr>) = deref r lbc" by (cases r) simp_all
  show ?thesis
    using rs.sync_store_ok [OF assms(1,5,6)] assms(2-4)
    by (auto simp: processFunc_def critical_def empty_def processFunc_body_def d Let_def)
qed

lemma turn_tcp:
  assumes rest: "at_rest v A T U (view w) lbc" and lm: "lvsManager lbc = lm" and w: "good w"
    and fair: "fair_orders ord" "fair_orders ord'"
    and ev: "\<not> data_eq (cm_Data old) (cm_Data cm)" "cm_Name cm = tcpService"
    and pods: "list_pods kube (nginxServer lbc) w = (Inr pods, w1)" "good_pods pods" "pod_addrs pods = A"
    and N: "valid_ports (data_keys cm) = N" "N \<noteq> T" "0 \<notin> N"
  shows "\<exists>lbc' w'. turn kube hst ord ord' (CmEvent old cm) lbc w = Returns (lbc', w') \<and>
    at_rest v A N U (view w') lbc' \<and> lvsManager lbc' = lm \<and> nginxServer lbc' = nginxServer lbc \<and> good w'"
proof -
  let ?lbc = "lbc\<lparr>cond_L := True\<rparr>"
  have r: "ready_to_send ?lbc" "tracked ?lbc T U" "leftover ?lbc {} {}" "list_pods kube (nginxServer ?lbc) w = (Inr pods, w1)"
    using rest pods by (simp_all add: at_rest_def ready_to_send_def tracked_def leftover_def)
  obtain lbc1 where u: "updateTcp_body kube ord cm ?lbc w = Returns (lbc1, w1)" "tracked lbc1 N U"
    "leftover lbc1 {} {}" "delta_steps (Tcp (clbdata lbc1)) T N" "Udp (clbdata lbc1) = Udp (clbdata lbc)"
    "dom (map_of (Tcp (clbdata lbc1))) \<subseteq> T \<union> N \<union> dom (map_of (Tcp (clbdata lbc)))"
    "addrs_with addition (clbdata lbc1) A" "lbstore lbc1 = [CLB]" "lvsManager lbc1 = lm"
    "nginxServer lbc1 = nginxServer lbc" "\<not> cond_L lbc1" "\<not> lb_closed lbc1"
    using updateTcp_tracks [OF r(1) fair(1) r(2,3,4) pods(2), of cm] N rest lm pods(3)
    by (auto simp: at_rest_def)
  have wf1: "wf_lbc lbc1"
    using updateTcp_fine [of ?lbc kube ord cm w] rest u(1) by (auto simp: at_rest_def fine_def)
  have w1: "good w1" "view w1 = view w" using good_pods_list [OF w pods(1)] by simp_all
  have z: "0 \<notin> dom (map_of (Tcp (clbdata lbc1)))" "0 \<notin> dom (map_of (Udp (clbdata lbc1)))"
    using u(5,6) rest N(3) by (auto simp: at_rest_def)
  have ok: "store_ok v (deref CLB lbc1)" using store_ok_adding [OF u(7)] z by simp
  obtain w2 where p: "processFunc hst ord' lbc1 w1 = Returns (lbc1\<lparr>lbstore := [], cond_L := False\<rparr>, w2)" "good w2"
    "rs_of (view w2) = upd (store_adds v (clbdata lbc1)) (store_dels v (clbdata lbc1)) (rs_of (view w1))"
    using processFunc_one [OF w1(1) u(9,8,11) fair(2) ok] by auto
  have "rs_of (view w2) = want v A N U"
    using p(3) w1(2) rest u(5) upd_want_delta [OF u(7,4), of U U] by (simp add: at_rest_def tracked_def)
  then have "at_rest v A N U (view w2) (lbc1\<lparr>lbstore := [], cond_L := False\<rparr>)"
    using wf1 u z rest N(3) by (simp add: at_rest_def tracked_def leftover_def wf_lbc_def)
  moreover have "turn kube hst ord ord' (CmEvent old cm) lbc w = processFunc hst ord' lbc1 w1"
    using ev rest u(1,8) by (simp add: turn_def updatePorts_def critical_def full_def at_rest_def)
  ultimately show ?thesis using p(1,2) u(9,10) by simp
qed

lemma turn_udp:
  assumes rest: "at_rest v A T U (view w) lbc" and lm: "lvsManager lbc = lm" and w: "good w"
    and fair: "fair_orders ord" "fair_orders ord'"
    and ev: "\<not> data_eq (cm_Data old) (cm_Data cm)" "cm_Name cm = udpService"
    and pods: "list_pods kube (nginxServer lbc) w = (Inr pods, w1)" "good_pods pods" "pod_addrs pods = A"
    and N: "valid_ports (data_keys cm) = N" "N \<noteq> U" "0 \<notin> N"
  shows "\<exists>lbc' w'. turn kube hst ord ord' (CmEvent old cm) lbc w = Returns (lbc', w') \<and>
    at_rest v A T N (view w') lbc' \<and> lvsManager lbc' = lm \<and> nginxServer lbc' = nginxServer lbc \<and> good w'"
proof -
  let ?lbc = "lbc\<lparr>cond_L := True\<rparr>"
  have r: "ready_to_send ?lbc" "tracked ?lbc T U" "leftover ?lbc {} {}" "list_pods kube (nginxServer ?lbc) w = (Inr pods, w1)"
    using rest pods by (simp_all add: at_rest_def ready_to_send_def tracked_def leftover_def)
  obtain lbc1 where u: "updateUdp_body kube ord cm ?lbc w = Returns (lbc1, w1)" "tracked lbc1 T N"
    "leftover lbc1 {} {}" "delta_steps (Udp (clbdata lbc1)) U N" "Tcp (clbdata lbc1) = Tcp (clbdata lbc)"
    "dom (map_of (Udp (clbdata lbc1))) \<subseteq> U \<union> N \<union> dom (map_of (Udp (clbdata lbc)))"
    "addrs_with addition (clbdata lbc1) A" "lbstore lbc1 = [CLB]" "lvsManager lbc1 = lm"
    "nginxServer lbc1 = nginxServer lbc" "\<not> cond_L lbc1" "\<not> lb_closed lbc1"
    using updateUdp_tracks [OF r(1) fair(1) r(2,3,4) pods(2), of cm] N rest lm pods(3)
    by (auto simp: at_rest_def)
  have wf1: "wf_lbc lbc1"
    using updateUdp_fine [of ?lbc kube ord cm w] rest u(1) by (auto simp: at_rest_def fine_def)
  have w1: "good w1" "view w1 = view w" using good_pods_list [OF w pods(1)] by simp_all
  have z: "0 \<notin> dom (map_of (Tcp (clbdata lbc1)))" "0 \<notin> dom (map_of (Udp (clbdata lbc1)))"
    using u(5,6) rest N(3) by (auto simp: at_rest_def)
  have ok: "store_ok v (deref CLB lbc1)" using store_ok_adding [OF u(7)] z by simp
  obtain w2 where p: "processFunc hst ord' lbc1 w1 = Returns (lbc1\<lparr>lbstore := [], cond_L := False\<rparr>, w2)" "good w2"
    "rs_of (view w2) = upd (store_adds v (clbdata lbc1)) (store_dels v (clbdata lbc1)) (rs_of (view w1))"
    using processFunc_one [OF w1(1) u(9,8,11) fair(2) ok] by auto
  have "rs_of (view w2) = want v A T N"
    using p(3) w1(2) rest u(5) upd_want_delta [OF u(7) _ u(4), of T T] by (simp add: at_rest_def tracked_def)
  then have "at_rest v A T N (view w2) (lbc1\<lparr>lbstore := [], cond_L := False\<rparr>)"
    using wf1 u z rest N(3) by (simp add: at_rest_def tracked_def leftover_def wf_lbc_def)
  moreover have "turn kube hst ord ord' (CmEvent old cm) lbc w = processFunc hst ord' lbc1 w1"
    using ev rest u(1,8)
    by (simp add: turn_def updatePorts_def critical_def full_def at_rest_def tcpService_def udpService_def)
  ultimately show ?thesis using p(1,2) u(9,10) by simp
qed

lemma turn_pod:
  assumes rest: "at_rest v A T U (view w) lbc" and lm: "lvsManager lbc = lm" and w: "good w"
    and fair: "fair_orders ord" "fair_orders ord'"
    and ev: "pod_Namespace old = nginxServer lbc" "pod_PodIP old \<noteq> []" "fst (ValidateIPv4 (pod_PodIP old))"
      "pod_addr old = Some a"
    and cms: "list_cms kube (nginxServer lbc) w = (Inr cms, w1)" "good_cms cms"
      "cm_ports tcpService cms = T" "cm_ports udpService cms = U"
  defines "A' \<equiv> (if pod_Deleted old then A - {a} else A \<union> {a})"
  shows "\<exists>lbc' w'. turn kube hst ord ord' (PodEvent old new) lbc w = Returns (lbc', w') \<and>
    at_rest v A' T U (view w') lbc' \<and> lvsManager lbc' = lm \<and> nginxServer lbc' = nginxServer lbc \<and> good w'"
proof -
  let ?lbc = "lbc\<lparr>cond_L := True\<rparr>"
  have r: "ready_to_send ?lbc" "list_cms kube (nginxServer ?lbc) w = (Inr cms, w1)"
    using rest cms by (simp_all add: at_rest_def ready_to_send_def)
  obtain lb where u: "addrUpdate_body kube ord old ?lbc w =
      Returns (lbc\<lparr>plbdata := lb, lbstore := [PLB], cond_L := False\<rparr>, w1)"
    "addrs_with (if pod_Deleted old then deletion else addition) lb {a}"
    "map_of (Tcp lb) = port_set addition T" "map_of (Udp lb) = port_set addition U"
    using addrUpdate_tracks [OF r(1) fair(1) r(2) cms(2) ev(3,4)] cms(3,4) rest by (auto simp: at_rest_def)
  let ?lbc1 = "lbc\<lparr>plbdata := lb, lbstore := [PLB], cond_L := False\<rparr>"
  have wf1: "wf_lbc ?lbc1"
    using addrUpdate_fine [of ?lbc kube ord old w] rest u(1) by (auto simp: at_rest_def fine_def)
  have w1: "good w1" "view w1 = view w" using good_cms_list [OF w cms(1)] by simp_all
  have z: "0 \<notin> dom (map_of (Tcp lb))" "0 \<notin> dom (map_of (Udp lb))"
    using u(3,4) rest by (auto simp: at_rest_def)
  have ok: "store_ok v (deref PLB ?lbc1)"
    using store_ok_adding [of lb "{a}" v] store_ok_deleting [of lb a v] u(2) z by (auto split: if_splits)
  obtain w2 where p: "processFunc hst ord' ?lbc1 w1 = Returns (?lbc1\<lparr>lbstore := [], cond_L := False\<rparr>, w2)" "good w2"
    "rs_of (view w2) = upd (store_adds v lb) (store_dels v lb) (rs_of (view w1))"
    using processFunc_one [OF w1(1) _ _ _ fair(2) ok] lm by auto
  have "rs_of (view w2) = want v A' T U"
    using p(3) w1(2) rest u(2) upd_want_all [of lb "{a}" T U v A] u(3,4) upd_want_gone [of lb a v A T U]
    by (auto simp: at_rest_def A'_def split: if_splits)
  then have "at_rest v A' T U (view w2) (?lbc1\<lparr>lbstore := [], cond_L := False\<rparr>)"
    using wf1 rest by (simp add: at_rest_def tracked_def leftover_def wf_lbc_def)
  moreover have "turn kube hst ord ord' (PodEvent old new) lbc w = processFunc hst ord' ?lbc1 w1"
    using ev rest u(1)
    by (simp add: turn_def OnUpdate_pod_def addrUpdateFunc_def critical_def full_def at_rest_def)
  ultimately show ?thesis using p(1,2) lm by simp
qed

end

end
