(* ===== verification/Quiet_Run.thy ===== *)
theory Quiet_Run
  imports Sync
begin

text \<open>
  Runs of the controller from its start. \<open>boot_env\<close> is the environment of a whole run: a
  reliable handle, a host whose shell and \<open>libipvs.New\<close> work, a configuration with an IPv4
  address and without marking, an API client. \<open>quiet_run\<close> is the run in which the worker takes
  its turn after each event; it carries the addresses and ports the cluster has. Its theorem
  is that the kernel's table is always the wanted one.
\<close>

section \<open>The start\<close>

definition fresh :: "Config \<Rightarrow> 'w LvsManager \<Rightarrow> 'w LoadBalancerController" where
  "fresh cfg lm = \<lparr>nginxServer = (if cfg_NginxServer cfg \<noteq> [] then cfg_NginxServer cfg else nginxDefault),
     NwTcp = [], ExTcp = [], NwUdp = [], ExUdp = [], clbdata = NewLBStore, plbdata = NewLBStore,
     lbstore = [], lb_closed = False, lvsManager = lm, cond_L = False\<rparr>"

lemma New_fresh:
  "NewLoadBalancerController hst cfg w = map_option (\<lambda>(lm, w1). (fresh cfg lm, w1)) (Init hst cfg NewLvsManager w)"
  by (cases "Init hst cfg NewLvsManager w") (auto simp: NewLoadBalancerController_def fresh_def)

lemma port_set_empty [simp]: "port_set proto {} = Map.empty"
  by (simp add: port_set_def fun_eq_iff)

lemma fresh_sel [simp]:
  "lbstore (fresh cfg lm) = []" "lb_closed (fresh cfg lm) = False" "cond_L (fresh cfg lm) = False"
  "lvsManager (fresh cfg lm) = lm" "clbdata (fresh cfg lm) = NewLBStore"
  "NwTcp (fresh cfg lm) = []" "NwUdp (fresh cfg lm) = []" "ExTcp (fresh cfg lm) = []" "ExUdp (fresh cfg lm) = []"
  "nginxServer (fresh cfg lm) = (if cfg_NginxServer cfg \<noteq> [] then cfg_NginxServer cfg else nginxDefault)"
  by (simp_all add: fresh_def)

lemma fresh_ok:
  "wf_lbc (fresh cfg lm)" "tracked (fresh cfg lm) {} {}" "leftover (fresh cfg lm) {} {}"
  by (simp_all add: wf_lbc_def fresh_def tracked_def leftover_def NewLBStore_def wf_LBStore_def delta_steps_def
      port_set_def fun_eq_iff)

locale boot_env = reliable_handle h view invar svc_ok dst_ok
  for h :: "'w IPVSHandle" and view :: "'w \<Rightarrow> ipvs_view" and invar :: "'w \<Rightarrow> bool"
    and svc_ok :: "Service \<Rightarrow> bool" and dst_ok :: "Service \<Rightarrow> Destination \<Rightarrow> bool" +
  fixes hst :: "'w host" and cfg :: Config and v :: bytes and kube :: "'w kube"
  assumes shell_quiet: "invar w \<Longrightarrow> run_sh hst c w = (out, w') \<Longrightarrow> invar w' \<and> view w' = view w"
    and new_handle: "invar w \<Longrightarrow> \<exists>w'. libipvs_New hst w = ((Some h, None), w') \<and> invar w' \<and> view w' = view w"
    and cfg_unmarked: "\<not> cfg_Pnmpp cfg"
    and cfg_vip: "To4 (ParseIP (cfg_Vip cfg)) = Some v"
    and cfg_svc_ok: "svc_ok (base_service (init_manager cfg h ifc) p port 0)"
    and cfg_dst_ok: "dst_ok (base_service (init_manager cfg h ifc) p port 0) (base_destination ip port)"
    and kube_pods_quiet: "invar w \<Longrightarrow> list_pods kube ns w = (ps, w') \<Longrightarrow> invar w' \<and> view w' = view w"
    and kube_cms_quiet: "invar w \<Longrightarrow> list_cms kube ns w = (cs, w') \<Longrightarrow> invar w' \<and> view w' = view w"

sublocale boot_env \<subseteq> env: controller_env h view invar svc_ok dst_ok hst "init_manager cfg h ifc" v kube for ifc
proof (unfold_locales, goal_cases)
  case 1 show ?case by (simp add: init_manager_def)
next
  case 2 show ?case using cfg_unmarked by (simp add: init_manager_def)
next
  case 3 show ?case using cfg_vip by (simp add: init_manager_def)
next
  case (4 p port) show ?case by (rule cfg_svc_ok)
next
  case (5 p port ip) show ?case by (rule cfg_dst_ok)
next
  case (6 w ns ps w') then show ?case by (rule kube_pods_quiet)
next
  case (7 w ns cs w') then show ?case by (rule kube_cms_quiet)
qed

context boot_env
begin

lemma Init_ok:
  assumes "invar w"
  shows "\<exists>ifc w'. Init hst cfg NewLvsManager w = Some (init_manager cfg h ifc, w') \<and> invar w' \<and> view w' = Map.empty"
proof -
  obtain iTime ierr where it: "Atoi (cfg_Idle_Timeout cfg) = (iTime, ierr)" by (cases "Atoi (cfg_Idle_Timeout cfg)")
  obtain out err w1 where sh: "run_sh hst DefaultRoute w = ((out, err), w1)" by (metis surj_pair)
  then have w1: "invar w1" using shell_quiet [OF assms] by blast
  obtain w2 where new: "libipvs_New hst w1 = ((Some h, None), w2)" "invar w2" using new_handle [OF w1] by blast
  obtain e w3 where f: "Flush h w2 = Some (e, w3)" "invar w3" "view w3 = (if e = None then Map.empty else view w2)"
    using flush [OF new(2)] by blast
  have "e = None" by (rule flush_ok [OF new(2) f(1)])
  obtain out' err' w4 where sh2: "run_sh hst FlushMangle w3 = ((out', err'), w4)" by (metis surj_pair)
  then have "invar w4 \<and> view w4 = view w3" using shell_quiet [OF f(2)] by blast
  moreover have "Init hst cfg NewLvsManager w = Some (init_manager cfg h (drop_newlines out), w4)"
    using it sh new(1) f(1) sh2
    by (simp add: Init_def NewLvsManager_def Intf_def initIptables_def init_manager_def)
  ultimately show ?thesis using f(3) \<open>e = None\<close> by auto
qed

text \<open>\<open>settled\<close> is rest in the world of this environment.\<close>

definition settled :: "'w st \<Rightarrow> bytes set \<Rightarrow> u16 set \<Rightarrow> u16 set \<Rightarrow> bool" where
  "settled s A T U \<longleftrightarrow> at_rest v A T U (view (snd s)) (fst s) \<and> good_world v view invar (snd s) \<and>
     (\<exists>ifc. lvsManager (fst s) = init_manager cfg h ifc)"

text \<open>What \<open>Initial\<close> leaves behind: the store with the pods and ports it has listed is queued.\<close>

definition primed :: "'w st \<Rightarrow> bytes set \<Rightarrow> u16 set \<Rightarrow> u16 set \<Rightarrow> bool" where
  "primed s A T U \<longleftrightarrow> wf_lbc (fst s) \<and> \<not> cond_L (fst s) \<and> \<not> lb_closed (fst s) \<and> lbstore (fst s) = [PLB] \<and>
     map_of (ExTcp (fst s)) = port_set protoTcp T \<and> map_of (ExUdp (fst s)) = port_set protoUdp U \<and>
     clbdata (fst s) = NewLBStore \<and> NwTcp (fst s) = [] \<and> NwUdp (fst s) = [] \<and>
     map_of (Tcp (plbdata (fst s))) = port_set addition T \<and> map_of (Udp (plbdata (fst s))) = port_set addition U \<and>
     addrs_with addition (plbdata (fst s)) A \<and> 0 \<notin> T \<and> 0 \<notin> U \<and>
     good_world v view invar (snd s) \<and> view (snd s) = Map.empty \<and> (\<exists>ifc. lvsManager (fst s) = init_manager cfg h ifc)"

lemma boot_primes:
  assumes w: "invar w" and fair: "fair_orders ord"
    and new: "NewLoadBalancerController hst cfg w = Some (lbc0, w0)"
    and cms: "list_cms kube (nginxServer lbc0) w0 = (Inr cms, w1)" "good_cms cms"
      "0 \<notin> cm_ports tcpService cms" "0 \<notin> cm_ports udpService cms"
    and pods: "list_pods kube (nginxServer lbc0) w1 = (Inr pods, w2)" "good_pods pods"
  shows "\<exists>lbc1. Initial kube ord lbc0 w0 = Returns (None, lbc1, w2) \<and>
    primed (lbc1, w2) (pod_addrs pods) (cm_ports tcpService cms) (cm_ports udpService cms) \<and>
    dom (map_of (Addr (plbdata lbc1))) \<subseteq> (\<lambda>pod. ''adding_'' @ pod_Name pod) ` set pods \<and> nginxServer lbc1 = nginxServer lbc0"
proof -
  let ?T = "cm_ports tcpService cms" and ?U = "cm_ports udpService cms" and ?A = "pod_addrs pods"
  obtain ifc where init: "Init hst cfg NewLvsManager w = Some (init_manager cfg h ifc, w0)" "invar w0" "view w0 = Map.empty"
    and lbc0: "lbc0 = fresh cfg (init_manager cfg h ifc)"
    using Init_ok [OF w] new by (auto simp: New_fresh)
  define lm where "lm = init_manager cfg h ifc"
  let ?l = "(fresh cfg lm)\<lparr>cond_L := True\<rparr>"
  have l: "ready_to_send ?l" "tracked ?l {} {}" "nginxServer ?l = nginxServer lbc0"
    using fresh_ok [of cfg lm] by (simp_all add: ready_to_send_def tracked_def lbc0)
  obtain lbc1 where i: "Initial_body kube ord ?l w0 = Returns (None, lbc1, w2)"
    "map_of (ExTcp lbc1) = port_set protoTcp ?T" "map_of (ExUdp lbc1) = port_set protoUdp ?U"
    "clbdata lbc1 = NewLBStore" "NwTcp lbc1 = []" "NwUdp lbc1 = []"
    "map_of (Tcp (plbdata lbc1)) = port_set addition ?T" "map_of (Udp (plbdata lbc1)) = port_set addition ?U"
    "addrs_with addition (plbdata lbc1) ?A" "lbstore lbc1 = [PLB]" "lvsManager lbc1 = lm"
    "\<not> cond_L lbc1" "\<not> lb_closed lbc1" "nginxServer lbc1 = nginxServer lbc0"
    "dom (map_of (Addr (plbdata lbc1))) \<subseteq> (\<lambda>pod. ''adding_'' @ pod_Name pod) ` set pods"
    using Initial_tracks [OF l(1) fair(1) l(2), of kube w0 cms w1 pods w2] cms(1,2) pods l(3) by auto
  have wf1: "wf_lbc lbc1"
    using Initial_body_cases [of ?l kube ord w0] fresh_ok(1) [of cfg lm] i(1) by auto
  have "good_world v view invar w2" "view w2 = Map.empty"
    using kube_cms_quiet [OF init(2) cms(1)] kube_pods_quiet [of w1, OF _ pods(1)] init(3)
    by (auto simp: good_world_def)
  then have "primed (lbc1, w2) ?A ?T ?U" using wf1 i cms(3,4) by (auto simp: primed_def lm_def)
  moreover have "Initial kube ord lbc0 w0 = Returns (None, lbc1, w2)"
    using i(1) by (simp add: lbc0 lm_def Initial_def critical_def full_def)
  ultimately show ?thesis using i(14,15) by blast
qed

lemma primed_settles:
  assumes "primed (lbc, w) A T U" and fair: "fair_orders ord"
  shows "\<exists>s. processFunc hst ord lbc w = Returns s \<and> settled s A T U"
proof -
  obtain ifc where i: "lvsManager lbc = init_manager cfg h ifc" using assms(1) by (auto simp: primed_def)
  note p = assms(1) [unfolded primed_def fst_conv snd_conv]
  have ok: "store_ok v (deref PLB lbc)" using store_ok_adding [of "plbdata lbc" A v] p by simp
  obtain w3 where w3: "processFunc hst ord lbc w = Returns (lbc\<lparr>lbstore := [], cond_L := False\<rparr>, w3)"
    "good_world v view invar w3"
    "rs_of (view w3) = upd (store_adds v (plbdata lbc)) (store_dels v (plbdata lbc)) (rs_of (view w))"
    using env.processFunc_one [of w lbc ifc PLB "[]" ord] p i fair ok by auto
  have "rs_of (view w3) = want v A T U"
    using w3(3) p upd_want_all [of "plbdata lbc" A T U v "{}"] by simp
  then have "settled (lbc\<lparr>lbstore := [], cond_L := False\<rparr>, w3) A T U"
    using p w3(2)
    by (auto simp: settled_def at_rest_def tracked_def leftover_def wf_lbc_def NewLBStore_def delta_steps_def)
  with w3(1) show ?thesis by blast
qed

lemma boot_settles:
  assumes "invar w" and "fair_orders ord" "fair_orders ord'"
    and "NewLoadBalancerController hst cfg w = Some (lbc0, w0)"
    and "list_cms kube (nginxServer lbc0) w0 = (Inr cms, w1)" "good_cms cms"
      "0 \<notin> cm_ports tcpService cms" "0 \<notin> cm_ports udpService cms"
    and "list_pods kube (nginxServer lbc0) w1 = (Inr pods, w2)" "good_pods pods"
  shows "\<exists>lbc1 s. Initial kube ord lbc0 w0 = Returns (None, lbc1, w2) \<and>
    processFunc hst ord' lbc1 w2 = Returns s \<and>
    settled s (pod_addrs pods) (cm_ports tcpService cms) (cm_ports udpService cms)"
  using boot_primes [OF assms(1,2,4-10)] primed_settles [OF _ assms(3)] by blast

end

section \<open>The run\<close>

text \<open>
  What an event must satisfy for the run: the listing the handler makes shows the addresses
  (for a configmap event) or the ports (for a pod event) the cluster has, port numbers are not
  0, and a configmap event changes the set of ports.
\<close>

definition cm_event :: "'w kube \<Rightarrow> string \<Rightarrow> bytes set \<Rightarrow> u16 set \<Rightarrow> u16 set \<Rightarrow> ConfigMap \<Rightarrow> ConfigMap
    \<Rightarrow> 'w LoadBalancerController \<Rightarrow> 'w \<Rightarrow> bool" where
  "cm_event kube name A E N old cm lbc w \<longleftrightarrow> \<not> data_eq (cm_Data old) (cm_Data cm) \<and> cm_Name cm = name \<and>
     valid_ports (data_keys cm) = N \<and> N \<noteq> E \<and> 0 \<notin> N \<and>
     (\<exists>pods w1. list_pods kube (nginxServer lbc) w = (Inr pods, w1) \<and> good_pods pods \<and> pod_addrs pods = A)"

definition pod_event :: "'w kube \<Rightarrow> bytes \<Rightarrow> u16 set \<Rightarrow> u16 set \<Rightarrow> Pod \<Rightarrow> 'w LoadBalancerController \<Rightarrow> 'w \<Rightarrow> bool" where
  "pod_event kube a T U old lbc w \<longleftrightarrow> pod_Namespace old = nginxServer lbc \<and> pod_PodIP old \<noteq> [] \<and>
     fst (ValidateIPv4 (pod_PodIP old)) \<and> pod_addr old = Some a \<and>
     (\<exists>cms w1. list_cms kube (nginxServer lbc) w = (Inr cms, w1) \<and> good_cms cms \<and>
        cm_ports tcpService cms = T \<and> cm_ports udpService cms = U)"

inductive quiet_run :: "('w \<Rightarrow> bool) \<Rightarrow> ('w \<Rightarrow> 'w \<Rightarrow> bool) \<Rightarrow> 'w kube \<Rightarrow> 'w host \<Rightarrow> Config
    \<Rightarrow> 'w st \<Rightarrow> bytes set \<Rightarrow> u16 set \<Rightarrow> u16 set \<Rightarrow> bool"
  for start_ok :: "'w \<Rightarrow> bool" and elsewhere :: "'w \<Rightarrow> 'w \<Rightarrow> bool" and kube :: "'w kube"
    and hst :: "'w host" and cfg :: Config where
  start: "start_ok w \<Longrightarrow> fair_orders ord \<Longrightarrow> fair_orders ord' \<Longrightarrow>
     NewLoadBalancerController hst cfg w = Some (lbc0, w0) \<Longrightarrow>
     list_cms kube (nginxServer lbc0) w0 = (Inr cms, w1) \<Longrightarrow> good_cms cms \<Longrightarrow>
     0 \<notin> cm_ports tcpService cms \<Longrightarrow> 0 \<notin> cm_ports udpService cms \<Longrightarrow>
     list_pods kube (nginxServer lbc0) w1 = (Inr pods, w2) \<Longrightarrow> good_pods pods \<Longrightarrow>
     Initial kube ord lbc0 w0 = Returns (None, lbc1, w2) \<Longrightarrow> processFunc hst ord' lbc1 w2 = Returns s \<Longrightarrow>
     quiet_run start_ok elsewhere kube hst cfg s (pod_addrs pods) (cm_ports tcpService cms) (cm_ports udpService cms)"
| elsewhere: "quiet_run start_ok elsewhere kube hst cfg (lbc, w) A T U \<Longrightarrow> elsewhere w w' \<Longrightarrow>
     quiet_run start_ok elsewhere kube hst cfg (lbc, w') A T U"
| tcp: "quiet_run start_ok elsewhere kube hst cfg (lbc, w) A T U \<Longrightarrow> fair_orders ord \<Longrightarrow> fair_orders ord' \<Longrightarrow>
     cm_event kube tcpService A T N old cm lbc w \<Longrightarrow>
     turn kube hst ord ord' (CmEvent old cm) lbc w = Returns s \<Longrightarrow>
     quiet_run start_ok elsewhere kube hst cfg s A N U"
| udp: "quiet_run start_ok elsewhere kube hst cfg (lbc, w) A T U \<Longrightarrow> fair_orders ord \<Longrightarrow> fair_orders ord' \<Longrightarrow>
     cm_event kube udpService A U N old cm lbc w \<Longrightarrow>
     turn kube hst ord ord' (CmEvent old cm) lbc w = Returns s \<Longrightarrow>
     quiet_run start_ok elsewhere kube hst cfg s A T N"
| pod: "quiet_run start_ok elsewhere kube hst cfg (lbc, w) A T U \<Longrightarrow> fair_orders ord \<Longrightarrow> fair_orders ord' \<Longrightarrow>
     pod_event kube a T U old lbc w \<Longrightarrow>
     turn kube hst ord ord' (PodEvent old new) lbc w = Returns s \<Longrightarrow>
     quiet_run start_ok elsewhere kube hst cfg s (if pod_Deleted old then A - {a} else A \<union> {a}) T U"

context boot_env
begin

lemma settled_tcp:
  assumes "settled (lbc, w) A T U" "fair_orders ord" "fair_orders ord'"
    and "cm_event kube tcpService A T N old cm lbc w"
  shows "\<exists>s. turn kube hst ord ord' (CmEvent old cm) lbc w = Returns s \<and> settled s A N U"
proof -
  from assms(1) obtain ifc where r: "at_rest v A T U (view w) lbc" "lvsManager lbc = init_manager cfg h ifc"
    "good_world v view invar w" by (auto simp: settled_def)
  from assms(4) obtain pods w1 where c: "\<not> data_eq (cm_Data old) (cm_Data cm)" "cm_Name cm = tcpService"
    "list_pods kube (nginxServer lbc) w = (Inr pods, w1)" "good_pods pods" "pod_addrs pods = A"
    "valid_ports (data_keys cm) = N" "N \<noteq> T" "0 \<notin> N" by (auto simp: cm_event_def)
  from env.turn_tcp [OF r assms(2,3) c] show ?thesis by (auto simp: settled_def)
qed

lemma settled_udp:
  assumes "settled (lbc, w) A T U" "fair_orders ord" "fair_orders ord'"
    and "cm_event kube udpService A U N old cm lbc w"
  shows "\<exists>s. turn kube hst ord ord' (CmEvent old cm) lbc w = Returns s \<and> settled s A T N"
proof -
  from assms(1) obtain ifc where r: "at_rest v A T U (view w) lbc" "lvsManager lbc = init_manager cfg h ifc"
    "good_world v view invar w" by (auto simp: settled_def)
  from assms(4) obtain pods w1 where c: "\<not> data_eq (cm_Data old) (cm_Data cm)" "cm_Name cm = udpService"
    "list_pods kube (nginxServer lbc) w = (Inr pods, w1)" "good_pods pods" "pod_addrs pods = A"
    "valid_ports (data_keys cm) = N" "N \<noteq> U" "0 \<notin> N" by (auto simp: cm_event_def)
  from env.turn_udp [OF r assms(2,3) c] show ?thesis by (auto simp: settled_def)
qed

lemma settled_pod:
  assumes "settled (lbc, w) A T U" "fair_orders ord" "fair_orders ord'"
    and "pod_event kube a T U old lbc w"
  shows "\<exists>s. turn kube hst ord ord' (PodEvent old new) lbc w = Returns s \<and>
    settled s (if pod_Deleted old then A - {a} else A \<union> {a}) T U"
proof -
  from assms(1) obtain ifc where r: "at_rest v A T U (view w) lbc" "lvsManager lbc = init_manager cfg h ifc"
    "good_world v view invar w" by (auto simp: settled_def)
  from assms(4) obtain cms w1 where c: "pod_Namespace old = nginxServer lbc" "pod_PodIP old \<noteq> []"
    "fst (ValidateIPv4 (pod_PodIP old))" "pod_addr old = Some a"
    "list_cms kube (nginxServer lbc) w = (Inr cms, w1)" "good_cms cms"
    "cm_ports tcpService cms = T" "cm_ports udpService cms = U" by (auto simp: pod_event_def)
  from env.turn_pod [OF r assms(2,3) c, of new] show ?thesis by (fastforce simp: settled_def)
qed

lemma quiet_run_settled:
  assumes quiet: "\<And>w w'. elsewhere w w' \<Longrightarrow> invar w \<Longrightarrow> invar w' \<and> view w' = view w"
    and run: "quiet_run invar elsewhere kube hst cfg s A T U"
  shows "settled s A T U"
  using run
proof induction
  case (start w ord ord' lbc0 w0 cms w1 pods w2 lbc1 s)
  from boot_settles [OF start(1-10)] start(11,12) show ?case by auto
next
  case (elsewhere lbc w A T U w')
  then show ?case using quiet [OF elsewhere(2)] by (auto simp: settled_def good_world_def)
next
  case (tcp lbc w A T U ord ord' N old cm s)
  from settled_tcp [OF tcp(6,2,3,4)] tcp(5) show ?case by auto
next
  case (udp lbc w A T U ord ord' N old cm s)
  from settled_udp [OF udp(6,2,3,4)] udp(5) show ?case by auto
next
  case (pod lbc w A T U ord ord' a old new s)
  from settled_pod [OF pod(6,2,3,4), of new] pod(5) show ?case by auto
qed

text \<open>A run goes on: the start and every event return.\<close>

lemma quiet_run_start:
  assumes "invar w"
  shows "\<exists>lbc0 w0. NewLoadBalancerController hst cfg w = Some (lbc0, w0) \<and> invar w0 \<and> view w0 = Map.empty"
  using Init_ok [OF assms] by (auto simp: New_fresh)

end

end
