(* ===== verification/Goroutines.thy ===== *)
theory Goroutines
  imports Sync
begin

text \<open>
  The goroutines that share the controller after a successful \<open>Initial\<close>: the two informers,
  which call the handlers one event after the other, and the \<open>n\<close> workers of \<open>Run\<close>, which
  call \<open>processFunc\<close> forever. They meet at one mutex and one condition variable. A step is what
  a goroutine does between two synchronisation points; the handlers and \<open>processFunc\<close> hold the
  mutex from their \<open>Lock\<close> to their \<open>Unlock\<close>, so their whole effect is one step, and the wake-up
  after it (\<open>Signal\<close> for a handler, \<open>Broadcast\<close> for a worker) is another. The range loops of a
  section visit each key once, in any order (\<open>fair_orders\<close>). \<open>Signal\<close> may wake
  any waiter. A panic ends the process.

  Shown: the queue never holds more than 3 items and no goroutine blocks on the channel; no
  wake-up is lost (\<open>sys_inv\<close>); and without new events every run ends, with an empty queue.
\<close>

section \<open>States and steps\<close>

datatype thread = PodInf | CmInf | Worker nat

text \<open>
  Where a goroutine is: \<open>Trying\<close> to lock the mutex (before its first look at the queue, or
  woken up), \<open>Parked\<close> in \<open>cond.Wait\<close>, or about to wake others. The job of an informer is the
  event it handles.
\<close>

datatype pc = Idle | Trying "event option" | Parked "event option" | Signalling | Broadcasting

record 'w sys =
  ctl :: "'w LoadBalancerController"
  world :: 'w
  pcs :: "thread \<Rightarrow> pc"
  crashed :: bool

fun wake :: "pc \<Rightarrow> pc" where
  "wake (Parked j) = Trying j"
| "wake p = p"

fun is_parked :: "pc \<Rightarrow> bool" where
  "is_parked (Parked j) = True"
| "is_parked p = False"

definition informers :: "thread list" where
  "informers = [PodInf, CmInf]"

definition workers :: "nat \<Rightarrow> thread list" where
  "workers n = map Worker [0..<n]"

definition threads :: "nat \<Rightarrow> thread list" where
  "threads n = informers @ workers n"

text \<open>The events whose handler goes to the mutex; the others are dropped at once.\<close>

fun locks :: "event \<Rightarrow> 'w LoadBalancerController \<Rightarrow> bool" where
  "locks (CmEvent old cm) lbc \<longleftrightarrow>
     \<not> data_eq (cm_Data old) (cm_Data cm) \<and> (cm_Name cm = tcpService \<or> cm_Name cm = udpService)"
| "locks (PodEvent old new) lbc \<longleftrightarrow> pod_Namespace old = nginxServer lbc \<and> pod_PodIP old \<noteq> []"

inductive internal :: "'w kube \<Rightarrow> 'w host \<Rightarrow> nat \<Rightarrow> 'w sys \<Rightarrow> 'w sys \<Rightarrow> bool"
  for kube :: "'w kube" and hst :: "'w host" and n :: nat where
  push: "\<not> crashed s \<Longrightarrow> t \<in> set informers \<Longrightarrow> pcs s t = Trying (Some ev) \<Longrightarrow>
     handle kube ord ev (ctl s) (world s) = Returns (l, w) \<Longrightarrow> fair_orders ord \<Longrightarrow>
     internal kube hst n s (s\<lparr>ctl := l, world := w, pcs := (pcs s)(t := Signalling)\<rparr>)"
| park_informer: "\<not> crashed s \<Longrightarrow> t \<in> set informers \<Longrightarrow> pcs s t = Trying (Some ev) \<Longrightarrow>
     handle kube ord ev (ctl s) (world s) = Cond_waits \<Longrightarrow> fair_orders ord \<Longrightarrow>
     internal kube hst n s (s\<lparr>pcs := (pcs s)(t := Parked (Some ev))\<rparr>)"
| signal: "\<not> crashed s \<Longrightarrow> t \<in> set informers \<Longrightarrow> pcs s t = Signalling \<Longrightarrow>
     u \<in> set (threads n) \<Longrightarrow> pcs s u = Parked j \<Longrightarrow>
     internal kube hst n s (s\<lparr>pcs := (pcs s)(t := Idle, u := Trying j)\<rparr>)"
| signal_none: "\<not> crashed s \<Longrightarrow> t \<in> set informers \<Longrightarrow> pcs s t = Signalling \<Longrightarrow>
     \<forall>u \<in> set (threads n). \<not> is_parked (pcs s u) \<Longrightarrow>
     internal kube hst n s (s\<lparr>pcs := (pcs s)(t := Idle)\<rparr>)"
| process: "\<not> crashed s \<Longrightarrow> t \<in> set (workers n) \<Longrightarrow> pcs s t = Trying None \<Longrightarrow>
     processFunc hst ord (ctl s) (world s) = Returns (l, w) \<Longrightarrow> fair_orders ord \<Longrightarrow>
     internal kube hst n s (s\<lparr>ctl := l, world := w, pcs := (pcs s)(t := Broadcasting)\<rparr>)"
| park_worker: "\<not> crashed s \<Longrightarrow> t \<in> set (workers n) \<Longrightarrow> pcs s t = Trying None \<Longrightarrow>
     processFunc hst ord (ctl s) (world s) = Cond_waits \<Longrightarrow> fair_orders ord \<Longrightarrow>
     internal kube hst n s (s\<lparr>pcs := (pcs s)(t := Parked None)\<rparr>)"
| broadcast: "\<not> crashed s \<Longrightarrow> t \<in> set (workers n) \<Longrightarrow> pcs s t = Broadcasting \<Longrightarrow>
     internal kube hst n s (s\<lparr>pcs := (\<lambda>u. if u = t then Trying None else wake (pcs s u))\<rparr>)"
| panic_informer: "\<not> crashed s \<Longrightarrow> t \<in> set informers \<Longrightarrow> pcs s t = Trying (Some ev) \<Longrightarrow>
     handle kube ord ev (ctl s) (world s) = Panics \<Longrightarrow> fair_orders ord \<Longrightarrow> internal kube hst n s (s\<lparr>crashed := True\<rparr>)"
| panic_worker: "\<not> crashed s \<Longrightarrow> t \<in> set (workers n) \<Longrightarrow> pcs s t = Trying None \<Longrightarrow>
     processFunc hst ord (ctl s) (world s) = Panics \<Longrightarrow> fair_orders ord \<Longrightarrow> internal kube hst n s (s\<lparr>crashed := True\<rparr>)"

text \<open>What comes from outside: an event for an idle informer, an added pod, a change of the world.\<close>

inductive external :: "'w sys \<Rightarrow> 'w sys \<Rightarrow> bool" where
  event: "t \<in> set informers \<Longrightarrow> pcs s t = Idle \<Longrightarrow> locks ev (ctl s) \<Longrightarrow>
     external s (s\<lparr>pcs := (pcs s)(t := Trying (Some ev))\<rparr>)"
| added: "pcs s PodInf = Idle \<Longrightarrow> external s (s\<lparr>ctl := addrAddFunc pod (ctl s)\<rparr>)"
| elsewhere: "external s (s\<lparr>world := w\<rparr>)"

definition started :: "nat \<Rightarrow> 'w sys \<Rightarrow> bool" where
  "started n s \<longleftrightarrow> wf_lbc (ctl s) \<and> \<not> cond_L (ctl s) \<and> \<not> lb_closed (ctl s) \<and> \<not> crashed s \<and>
     (\<forall>t \<in> set informers. pcs s t = Idle) \<and> (\<forall>t \<in> set (workers n). pcs s t = Trying None)"

inductive reachable :: "'w kube \<Rightarrow> 'w host \<Rightarrow> nat \<Rightarrow> 'w sys \<Rightarrow> bool"
  for kube :: "'w kube" and hst :: "'w host" and n :: nat where
  init: "started n s \<Longrightarrow> reachable kube hst n s"
| internal: "reachable kube hst n s \<Longrightarrow> internal kube hst n s s' \<Longrightarrow> reachable kube hst n s'"
| external: "reachable kube hst n s \<Longrightarrow> external s s' \<Longrightarrow> reachable kube hst n s'"

section \<open>What the critical sections do to the queue\<close>

lemma send_unlock_queue:
  assumes "\<not> lb_closed lbc" and "length (lbstore lbc) < 3"
  shows "\<exists>lbc'. send_unlock r lbc w = Returns (lbc', w) \<and> length (lbstore lbc') = Suc (length (lbstore lbc)) \<and>
    \<not> cond_L lbc' \<and> \<not> lb_closed lbc' \<and> nginxServer lbc' = nginxServer lbc"
  using assms by (simp add: send_unlock_def)

text \<open>The controller after a push, and after one item is taken.\<close>

definition pushed :: "'w LoadBalancerController \<Rightarrow> 'w st outcome \<Rightarrow> bool" where
  "pushed lbc r \<longleftrightarrow> (\<exists>lbc' w'. r = Returns (lbc', w') \<and> length (lbstore lbc') = Suc (length (lbstore lbc)) \<and>
     \<not> cond_L lbc' \<and> \<not> lb_closed lbc' \<and> nginxServer lbc' = nginxServer lbc)"

lemma pushed_send:
  assumes "\<not> lb_closed lbc'" and "length (lbstore lbc') < 3" and "lbstore lbc' = lbstore lbc"
    and "nginxServer lbc' = nginxServer lbc"
  shows "pushed lbc (send_unlock r lbc' w)"
  using send_unlock_queue [OF assms(1,2), of r w] assms(3,4) by (auto simp: pushed_def)

lemma listNginx_same:
  assumes "listNginx kube ord r lbc w = (err, lbc', w')"
  shows "lbstore lbc' = lbstore lbc \<and> lb_closed lbc' = lb_closed lbc \<and> nginxServer lbc' = nginxServer lbc"
  using listNginx_frame [OF assms] by (metis set_store_sel(1,6,7))

lemma listCm_same:
  assumes "listCm kube ord lbc w = (err, lbc', w')"
  shows "lbstore lbc' = lbstore lbc \<and> lb_closed lbc' = lb_closed lbc \<and> nginxServer lbc' = nginxServer lbc"
proof -
  obtain t u where "lbc' = lbc\<lparr>plbdata := (plbdata lbc)\<lparr>Tcp := t, Udp := u\<rparr>\<rparr>"
    using listCm_frame [OF assms] by blast
  then show ?thesis by simp
qed

lemma bodies_push:
  assumes "\<not> lb_closed lbc" and "length (lbstore lbc) < 3"
  shows "pushed lbc (updateTcp_body kube ord cm lbc w)" "pushed lbc (updateUdp_body kube ord cm lbc w)"
    "pushed lbc (addrUpdate_body kube ord pod lbc w)"
  using assms
  by (auto simp: updateTcp_body_def updateUdp_body_def addrUpdate_body_def Let_def split: prod.split
      dest!: listNginx_same listCm_same intro!: pushed_send)

lemma handle_cases:
  assumes "\<not> cond_L lbc" and "\<not> lb_closed lbc" and "wf_lbc lbc" and "locks ev lbc"
  shows "if length (lbstore lbc) = 3 then handle kube ord ev lbc w = Cond_waits
    else pushed lbc (handle kube ord ev lbc w)"
proof -
  have len: "length (lbstore lbc) < 3" if "length (lbstore lbc) \<noteq> 3"
    using assms(3) that by (simp add: wf_lbc_def)
  have eq: "pushed (lbc\<lparr>cond_L := True\<rparr>) r = pushed lbc r" for r by (simp add: pushed_def)
  note push = bodies_push [of "lbc\<lparr>cond_L := True\<rparr>", unfolded eq]
  show ?thesis
    using assms(1,2,4) len push
    by (cases ev) (auto simp: updatePorts_def OnUpdate_pod_def addrUpdateFunc_def critical_def full_def)
qed

lemma processFunc_cases:
  assumes "\<not> cond_L lbc"
  shows "if lbstore lbc = [] then processFunc hst ord lbc w = Cond_waits
    else processFunc hst ord lbc w = Panics \<or>
      (\<exists>w'. processFunc hst ord lbc w = Returns (lbc\<lparr>lbstore := tl (lbstore lbc), cond_L := False\<rparr>, w'))"
  using assms
  by (cases "lbstore lbc")
     (auto simp: processFunc_def critical_def empty_def processFunc_body_def Let_def split: option.split)

section \<open>The invariant\<close>

text \<open>The places a goroutine can be at.\<close>

definition informer_ok :: "'w LoadBalancerController \<Rightarrow> pc \<Rightarrow> bool" where
  "informer_ok lbc p \<longleftrightarrow> p = Idle \<or> p = Signalling \<or>
     (\<exists>ev. (p = Trying (Some ev) \<or> p = Parked (Some ev)) \<and> locks ev lbc)"

definition worker_ok :: "pc \<Rightarrow> bool" where
  "worker_ok p \<longleftrightarrow> p = Trying None \<or> p = Parked None \<or> p = Broadcasting"

type_synonym places = "thread \<Rightarrow> pc"

definition placed :: "nat \<Rightarrow> 'w LoadBalancerController \<Rightarrow> places \<Rightarrow> bool" where
  "placed n lbc p \<longleftrightarrow> (\<forall>t \<in> set informers. informer_ok lbc (p t)) \<and> (\<forall>t \<in> set (workers n). worker_ok (p t))"

definition signals :: "places \<Rightarrow> nat" where
  "signals p = length (filter (\<lambda>t. p t = Signalling) informers)"

text \<open>
  A parked informer waits for a full queue or for a broadcast that is on its way; if all
  workers are parked, a signal is on its way for every item.
\<close>

definition sys_inv :: "nat \<Rightarrow> 'w LoadBalancerController \<Rightarrow> places \<Rightarrow> bool" where
  "sys_inv n lbc p \<longleftrightarrow> wf_lbc lbc \<and> \<not> cond_L lbc \<and> \<not> lb_closed lbc \<and> placed n lbc p \<and>
     ((\<exists>t \<in> set informers. is_parked (p t)) \<longrightarrow>
        length (lbstore lbc) = 3 \<or> (\<exists>t \<in> set (workers n). p t = Broadcasting)) \<and>
     ((\<forall>t \<in> set (workers n). is_parked (p t)) \<longrightarrow> length (lbstore lbc) \<le> signals p)"

lemma sys_invD:
  assumes "sys_inv n lbc p"
  shows "wf_lbc lbc" "\<not> cond_L lbc" "\<not> lb_closed lbc" "placed n lbc p"
    "\<exists>t \<in> set informers. is_parked (p t) \<Longrightarrow> length (lbstore lbc) = 3 \<or> (\<exists>t \<in> set (workers n). p t = Broadcasting)"
    "\<forall>t \<in> set (workers n). is_parked (p t) \<Longrightarrow> length (lbstore lbc) \<le> signals p"
  using assms unfolding sys_inv_def by blast+

lemma set_informers: "set informers = {PodInf, CmInf}"
  by (simp add: informers_def)

lemma set_workers: "set (workers n) = Worker ` {..<n}"
  by (auto simp: workers_def)

lemma informer_worker: "t \<in> set informers \<Longrightarrow> u \<in> set (workers n) \<Longrightarrow> t \<noteq> u"
  by (auto simp: set_informers set_workers)

lemma signals_eq:
  "signals p = (if p PodInf = Signalling then 1 else 0) + (if p CmInf = Signalling then 1 else 0)"
  by (simp add: signals_def informers_def)

lemma signals_le: "signals p \<le> 2"
  by (simp add: signals_eq)

lemma signals_worker: "u \<in> set (workers n) \<Longrightarrow> signals (p(u := q)) = signals p"
  by (auto simp: signals_eq set_workers)

lemma signals_informer:
  assumes "t \<in> set informers"
  shows "p t \<noteq> Signalling \<Longrightarrow> q \<noteq> Signalling \<Longrightarrow> signals (p(t := q)) = signals p"
    "p t \<noteq> Signalling \<Longrightarrow> signals (p(t := Signalling)) = Suc (signals p)"
    "p t = Signalling \<Longrightarrow> q \<noteq> Signalling \<Longrightarrow> Suc (signals (p(t := q))) = signals p"
  using assms by (auto simp: signals_eq set_informers)

lemma locks_server: "nginxServer lbc' = nginxServer lbc \<Longrightarrow> locks ev lbc' = locks ev lbc"
  by (cases ev) simp_all

lemma placed_server:
  assumes "nginxServer lbc' = nginxServer lbc"
  shows "placed n lbc' p = placed n lbc p"
  unfolding placed_def informer_ok_def by (simp add: locks_server [OF assms])

lemma wake_ok: "informer_ok lbc p \<Longrightarrow> informer_ok lbc (wake p)" "worker_ok p \<Longrightarrow> worker_ok (wake p)"
  unfolding informer_ok_def worker_ok_def by auto

lemma is_parked_wake [simp]: "\<not> is_parked (wake p)" "wake p = Signalling \<longleftrightarrow> p = Signalling"
  "wake p = Idle \<longleftrightarrow> p = Idle" "wake p = Broadcasting \<longleftrightarrow> p = Broadcasting"
  by (cases p; simp)+

lemma placed_informer:
  "placed n lbc p \<Longrightarrow> t \<in> set informers \<Longrightarrow> informer_ok lbc q \<Longrightarrow> placed n lbc (p(t := q))"
  unfolding placed_def by (auto dest: informer_worker)

lemma placed_worker:
  "placed n lbc p \<Longrightarrow> t \<in> set (workers n) \<Longrightarrow> worker_ok q \<Longrightarrow> placed n lbc (p(t := q))"
  unfolding placed_def by (auto dest: informer_worker)

lemma placed_locks:
  assumes "placed n lbc p" and "t \<in> set informers"
  shows "p t = Trying j \<or> p t = Parked j \<Longrightarrow> \<exists>ev. j = Some ev \<and> locks ev lbc"
  using assms unfolding placed_def informer_ok_def by fastforce

lemma placed_job:
  assumes "placed n lbc p" and "t \<in> set (workers n)"
  shows "p t = Trying j \<or> p t = Parked j \<Longrightarrow> j = None"
  using assms unfolding placed_def worker_ok_def by fastforce

section \<open>Each step keeps it\<close>

lemma handle_queue:
  assumes inv: "sys_inv n lbc p" and t: "t \<in> set informers" "p t = Trying (Some ev)"
    and h: "handle kube ord ev lbc w = Returns (l, w')"
  shows "length (lbstore lbc) < 3 \<and> wf_lbc l \<and> \<not> cond_L l \<and> \<not> lb_closed l \<and>
    length (lbstore l) = Suc (length (lbstore lbc)) \<and> nginxServer l = nginxServer lbc"
proof -
  note i = sys_invD(1-4) [OF inv]
  have "locks ev lbc" using placed_locks [OF i(4) t(1)] t(2) by blast
  from handle_cases [OF i(2,3,1) this, of kube ord w] h
  have q: "length (lbstore lbc) \<noteq> 3" "pushed lbc (Returns (l, w'))" by (auto split: if_splits)
  moreover have "length (lbstore lbc) \<le> 3" using i(1) by (simp add: wf_lbc_def)
  moreover have "fine (handle kube ord ev lbc w)"
    using handlers_fine(1,2) [OF i(1)] by (cases ev) simp_all
  then have "wf_lbc l" using h by (simp add: fine_def)
  ultimately show ?thesis by (auto simp: pushed_def)
qed

lemma process_queue:
  assumes inv: "sys_inv n lbc p" and h: "processFunc hst ord lbc w = Returns (l, w')"
  shows "lbstore lbc \<noteq> [] \<and> wf_lbc l \<and> \<not> cond_L l \<and> \<not> lb_closed l \<and>
    lbstore l = tl (lbstore lbc) \<and> nginxServer l = nginxServer lbc"
proof -
  note i = sys_invD(1-4) [OF inv]
  have "fine (processFunc hst ord lbc w)" by (rule handlers_fine(3) [OF i(1)])
  then have "wf_lbc l" using h by (simp add: fine_def)
  then show ?thesis
    using processFunc_cases [OF i(2), of hst ord w] h i(3) by (auto split: if_splits)
qed

lemma park_full:
  assumes inv: "sys_inv n lbc p" and t: "t \<in> set informers" "p t = Trying (Some ev)"
    and h: "handle kube ord ev lbc w = Cond_waits"
  shows "length (lbstore lbc) = 3 \<and> locks ev lbc"
proof -
  note i = sys_invD(1-4) [OF inv]
  have l: "locks ev lbc" using placed_locks [OF i(4) t(1)] t(2) by blast
  from handle_cases [OF i(2,3,1) l, of kube ord w] h l
  show ?thesis by (auto simp: pushed_def split: if_splits)
qed

lemma park_empty:
  assumes inv: "sys_inv n lbc p" and h: "processFunc hst ord lbc w = Cond_waits"
  shows "lbstore lbc = []"
  using processFunc_cases [OF sys_invD(2) [OF inv], of hst ord w] h by (auto split: if_splits)

lemma inv_push:
  assumes inv: "sys_inv n lbc p" and t: "t \<in> set informers" "p t = Trying (Some ev)"
    and h: "handle kube ord ev lbc w = Returns (l, w')"
  shows "sys_inv n l (p(t := Signalling))"
proof -
  note q = handle_queue [OF inv t h] and i = sys_invD [OF inv]
  have "placed n l (p(t := Signalling))"
    using placed_informer [OF i(4) t(1)] placed_server [of l lbc] q by (simp add: informer_ok_def)
  moreover have "length (lbstore l) = 3 \<or> (\<exists>x \<in> set (workers n). (p(t := Signalling)) x = Broadcasting)"
    if "\<exists>x \<in> set informers. is_parked ((p(t := Signalling)) x)"
  proof -
    have "\<exists>x \<in> set informers. is_parked (p x)" using that by (auto split: if_splits)
    with i(5) q obtain x where "x \<in> set (workers n)" "p x = Broadcasting" by auto
    with informer_worker [OF t(1) this(1)] show ?thesis by auto
  qed
  moreover have "length (lbstore l) \<le> signals (p(t := Signalling))"
    if "\<forall>x \<in> set (workers n). is_parked ((p(t := Signalling)) x)"
  proof -
    have "\<forall>x \<in> set (workers n). is_parked (p x)" using that informer_worker [OF t(1)] by fastforce
    with i(6) q signals_informer(2) [OF t(1), of p] t(2) show ?thesis by simp
  qed
  ultimately show ?thesis using q unfolding sys_inv_def by blast
qed

lemma inv_process:
  assumes inv: "sys_inv n lbc p" and t: "t \<in> set (workers n)"
    and h: "processFunc hst ord lbc w = Returns (l, w')"
  shows "sys_inv n l (p(t := Broadcasting))"
proof -
  note q = process_queue [OF inv h] and i = sys_invD [OF inv]
  have "placed n l (p(t := Broadcasting))"
    using placed_worker [OF i(4) t] placed_server [of l lbc] q by (simp add: worker_ok_def)
  moreover have "(p(t := Broadcasting)) t = Broadcasting" "\<not> is_parked ((p(t := Broadcasting)) t)" by simp_all
  ultimately show ?thesis using q t unfolding sys_inv_def by blast
qed

lemma inv_park_informer:
  assumes inv: "sys_inv n lbc p" and t: "t \<in> set informers" "p t = Trying (Some ev)"
    and h: "handle kube ord ev lbc w = Cond_waits"
  shows "sys_inv n lbc (p(t := Parked (Some ev)))"
proof -
  note q = park_full [OF inv t h] and i = sys_invD [OF inv]
  have "placed n lbc (p(t := Parked (Some ev)))"
    using placed_informer [OF i(4) t(1)] q by (simp add: informer_ok_def)
  moreover have "length (lbstore lbc) \<le> signals (p(t := Parked (Some ev)))"
    if "\<forall>x \<in> set (workers n). is_parked ((p(t := Parked (Some ev))) x)"
  proof -
    have "\<forall>x \<in> set (workers n). is_parked (p x)" using that informer_worker [OF t(1)] by fastforce
    with i(6) signals_informer(1) [OF t(1), of p] t(2) show ?thesis by simp
  qed
  ultimately show ?thesis using q i(1-3) unfolding sys_inv_def by blast
qed

lemma inv_park_worker:
  assumes inv: "sys_inv n lbc p" and t: "t \<in> set (workers n)" "p t = Trying None"
    and h: "processFunc hst ord lbc w = Cond_waits"
  shows "sys_inv n lbc (p(t := Parked None))"
proof -
  note q = park_empty [OF inv h] and i = sys_invD [OF inv]
  have "placed n lbc (p(t := Parked None))"
    using placed_worker [OF i(4) t(1)] by (simp add: worker_ok_def)
  moreover have "length (lbstore lbc) = 3 \<or> (\<exists>x \<in> set (workers n). (p(t := Parked None)) x = Broadcasting)"
    if "\<exists>x \<in> set informers. is_parked ((p(t := Parked None)) x)"
  proof -
    have "\<exists>x \<in> set informers. is_parked (p x)" using that informer_worker [OF _ t(1)] by fastforce
    with i(5) q obtain x where "x \<in> set (workers n)" "p x = Broadcasting" by auto
    moreover from this t(2) have "x \<noteq> t" by auto
    ultimately show ?thesis by auto
  qed
  ultimately show ?thesis using q i(1-3) unfolding sys_inv_def by simp
qed

text \<open>
  The signal is where a wake-up could be lost: if all workers are parked there are at most two
  items, so no informer is parked and the signal reaches a worker.
\<close>

lemma inv_signal:
  assumes inv: "sys_inv n lbc p" and t: "t \<in> set informers" "p t = Signalling"
    and u: "u \<in> set (threads n)" "p u = Parked j"
  shows "sys_inv n lbc (p(t := Idle, u := Trying j))" (is "sys_inv n lbc ?p")
proof -
  note i = sys_invD [OF inv]
  have tu: "t \<noteq> u" using t u by auto
  have u': "u \<in> set informers \<or> u \<in> set (workers n)" using u(1) by (simp add: threads_def)
  have p1: "placed n lbc (p(t := Idle))" using placed_informer [OF i(4) t(1)] by (simp add: informer_ok_def)
  have p2: "placed n lbc ?p"
    using u'
  proof
    assume ui: "u \<in> set informers"
    then have "informer_ok lbc (Trying j)" using placed_locks [OF i(4) ui] u(2) by (auto simp: informer_ok_def)
    then show ?thesis by (rule placed_informer [OF p1 ui])
  next
    assume uw: "u \<in> set (workers n)"
    then have "worker_ok (Trying j)" using placed_job [OF i(4) uw] u(2) by (simp add: worker_ok_def)
    then show ?thesis by (rule placed_worker [OF p1 uw])
  qed
  have bcast: "x \<in> set (workers n) \<Longrightarrow> p x = Broadcasting \<Longrightarrow> ?p x = Broadcasting" for x
    using u(2) t(2) by auto
  have parked: "is_parked (?p x) \<Longrightarrow> is_parked (p x)" for x
    by (auto split: if_splits)
  have "length (lbstore lbc) \<le> signals ?p" if all: "\<forall>x \<in> set (workers n). is_parked (?p x)"
  proof -
    have "u \<notin> set (workers n)" using all tu by auto
    then have "\<exists>x \<in> set informers. is_parked (p x)" using u' u(2) by force
    moreover have w: "\<forall>x \<in> set (workers n). is_parked (p x)" using all parked by blast
    then have "\<not> (\<exists>x \<in> set (workers n). p x = Broadcasting)" by fastforce
    ultimately have "length (lbstore lbc) = 3" using i(5) by blast
    moreover have "length (lbstore lbc) \<le> signals p" using i(6) w by blast
    ultimately show ?thesis using signals_le [of p] by simp
  qed
  then show ?thesis using i p2 bcast parked unfolding sys_inv_def by meson
qed

lemma inv_signal_none:
  assumes inv: "sys_inv n lbc p" and t: "t \<in> set informers" "p t = Signalling" and n: "0 < n"
    and none: "\<forall>u \<in> set (threads n). \<not> is_parked (p u)"
  shows "sys_inv n lbc (p(t := Idle))"
proof -
  note i = sys_invD [OF inv]
  have none': "x \<in> set informers \<Longrightarrow> \<not> is_parked ((p(t := Idle)) x)"
    "x \<in> set (workers n) \<Longrightarrow> \<not> is_parked ((p(t := Idle)) x)" for x
    using none by (auto simp: threads_def)
  have "Worker 0 \<in> set (workers n)" using n by (simp add: set_workers)
  moreover have "placed n lbc (p(t := Idle))" using placed_informer [OF i(4) t(1)] by (simp add: informer_ok_def)
  ultimately show ?thesis using none' i(1-3) unfolding sys_inv_def by blast
qed

lemma inv_broadcast:
  assumes inv: "sys_inv n lbc p" and t: "t \<in> set (workers n)"
  shows "sys_inv n lbc (\<lambda>u. if u = t then Trying None else wake (p u))" (is "sys_inv n lbc ?p")
proof -
  note i = sys_invD [OF inv]
  have "placed n lbc ?p"
    using i(4) informer_worker [OF _ t] unfolding placed_def by (auto simp: worker_ok_def wake_ok)
  moreover have "\<not> is_parked (?p x)" for x by simp
  ultimately show ?thesis using t i(1-3) unfolding sys_inv_def by blast
qed

definition sys_ok :: "nat \<Rightarrow> 'w sys \<Rightarrow> bool" where
  "sys_ok n s \<longleftrightarrow> sys_inv n (ctl s) (pcs s)"

lemma internal_ok:
  assumes "internal kube hst n s s'" and "sys_ok n s" and "0 < n"
  shows "sys_ok n s'"
  using assms
proof induction
  case (push s t ev ord l w)
  then show ?case using inv_push by (fastforce simp: sys_ok_def)
next
  case (park_informer s t ev ord)
  then show ?case using inv_park_informer by (fastforce simp: sys_ok_def)
next
  case (signal s t u j)
  then show ?case using inv_signal by (fastforce simp: sys_ok_def)
next
  case (signal_none s t)
  then show ?case using inv_signal_none by (fastforce simp: sys_ok_def)
next
  case (process s t ord l w)
  then show ?case using inv_process by (fastforce simp: sys_ok_def)
next
  case (park_worker s t ord)
  then show ?case using inv_park_worker by (fastforce simp: sys_ok_def)
next
  case (broadcast s t)
  then show ?case using inv_broadcast by (fastforce simp: sys_ok_def)
qed (simp_all add: sys_ok_def)

lemma external_ok:
  assumes "external s s'" and "sys_ok n s"
  shows "sys_ok n s'"
  using assms
proof induction
  case (event t s ev)
  let ?p = "(pcs s)(t := Trying (Some ev))"
  note i = sys_invD [OF event(4) [unfolded sys_ok_def]]
  have pl: "placed n (ctl s) ?p"
    using placed_informer [OF i(4) event(1)] event(3) by (simp add: informer_ok_def)
  have "signals ?p = signals (pcs s)" using signals_informer(1) [OF event(1), of "pcs s"] event(2) by simp
  moreover have "is_parked (?p x) = is_parked (pcs s x)" "?p x = Broadcasting \<longleftrightarrow> pcs s x = Broadcasting" for x
    using event(2) by auto
  ultimately show ?case using i pl unfolding sys_ok_def sys_inv_def by (simp del: fun_upd_apply)
next
  case (added s pod)
  have "nginxServer (addrAddFunc pod (ctl s)) = nginxServer (ctl s) \<and> cond_L (addrAddFunc pod (ctl s)) = cond_L (ctl s) \<and>
      lb_closed (addrAddFunc pod (ctl s)) = lb_closed (ctl s) \<and> lbstore (addrAddFunc pod (ctl s)) = lbstore (ctl s)"
    by (auto simp: addrAddFunc_def Let_def split: prod.splits bool.splits)
  with added handlers_fine(4) [of "ctl s" pod] placed_server [of "addrAddFunc pod (ctl s)" "ctl s"]
  show ?case by (simp add: sys_ok_def sys_inv_def)
qed (simp add: sys_ok_def)

lemma started_ok: "started n s \<Longrightarrow> 0 < n \<Longrightarrow> sys_ok n s"
proof -
  assume st: "started n s" and n: "0 < n"
  then have "Worker 0 \<in> set (workers n)" by (simp add: set_workers)
  with st show "sys_ok n s"
    unfolding sys_ok_def sys_inv_def started_def placed_def informer_ok_def worker_ok_def by fastforce
qed

lemma reachable_ok:
  assumes "reachable kube hst n s" and "0 < n"
  shows "sys_ok n s"
  using assms by induction (auto simp: started_ok internal_ok external_ok)

section \<open>Every run without new events ends\<close>

text \<open>
  A measure that every internal step makes smaller: an item in the queue pays for the
  broadcast after it, a pending event for the item it will push, a broadcast for the goroutines
  it wakes.
\<close>

fun weight :: "nat \<Rightarrow> pc \<Rightarrow> nat" where
  "weight n Idle = 0"
| "weight n (Trying None) = 1"
| "weight n (Trying (Some ev)) = n + 7"
| "weight n (Parked None) = 0"
| "weight n (Parked (Some ev)) = n + 6"
| "weight n Signalling = 2"
| "weight n Broadcasting = n + 4"

definition effort :: "nat \<Rightarrow> 'w sys \<Rightarrow> nat" where
  "effort n s = (n + 4) * length (lbstore (ctl s)) + (\<Sum>t \<in> set (threads n). weight n (pcs s t)) +
     (if crashed s then 0 else 1)"

lemma set_threads: "set (threads n) = set informers \<union> set (workers n)"
  by (simp add: threads_def)

lemma card_threads: "card (set (threads n)) = n + 2"
proof -
  have "card (set (workers n)) = n" by (simp add: set_workers card_image inj_on_def)
  moreover have "set informers \<inter> set (workers n) = {}" by (auto dest: informer_worker)
  moreover have "card (set informers) = 2" by (simp add: set_informers)
  ultimately show ?thesis by (simp add: set_threads card_Un_disjoint)
qed

lemma sum_upd:
  fixes f :: "'b \<Rightarrow> nat"
  assumes "finite A" and "t \<in> A"
  shows "(\<Sum>x \<in> A. f ((p(t := q)) x)) + f (p t) = (\<Sum>x \<in> A. f (p x)) + f q"
proof -
  have "(\<Sum>x \<in> A - {t}. f ((p(t := q)) x)) = (\<Sum>x \<in> A - {t}. f (p x))"
    by (rule sum.cong) auto
  then show ?thesis
    using sum.remove [OF assms, of "\<lambda>x. f ((p(t := q)) x)"] sum.remove [OF assms, of "\<lambda>x. f (p x)"] by simp
qed

lemma weight_upd:
  "t \<in> set (threads n) \<Longrightarrow>
     (\<Sum>x \<in> set (threads n). weight n ((p(t := q)) x)) + weight n (p t) = (\<Sum>x \<in> set (threads n). weight n (p x)) + weight n q"
  by (rule sum_upd) simp_all

lemma weight_wake: "weight n (wake p) \<le> Suc (weight n p)"
proof (cases p)
  case (Parked j)
  then show ?thesis by (cases j) simp_all
qed simp_all

lemma broadcast_weight:
  assumes "t \<in> set (threads n)" and "p t = Broadcasting"
  shows "(\<Sum>x \<in> set (threads n). weight n (if x = t then Trying None else wake (p x))) <
    (\<Sum>x \<in> set (threads n). weight n (p x))"
proof -
  let ?A = "set (threads n)"
  have "(\<Sum>x \<in> ?A - {t}. weight n (if x = t then Trying None else wake (p x))) \<le> (\<Sum>x \<in> ?A - {t}. Suc (weight n (p x)))"
    by (rule sum_mono) (use weight_wake in auto)
  also have "\<dots> = (\<Sum>x \<in> ?A - {t}. weight n (p x)) + (n + 1)"
    using assms(1) by (simp add: sum_Suc card_threads)
  finally show ?thesis
    using assms sum.remove [OF _ assms(1), of "\<lambda>x. weight n (if x = t then Trying None else wake (p x))"]
      sum.remove [OF _ assms(1), of "\<lambda>x. weight n (p x)"] by simp
qed

lemma internal_effort:
  assumes "internal kube hst n s s'" and "sys_ok n s"
  shows "effort n s' < effort n s"
  using assms
proof induction
  case (push s t ev ord l w)
  have "length (lbstore l) = Suc (length (lbstore (ctl s)))"
    using handle_queue [OF push(6) [unfolded sys_ok_def] push(2,3,4)] by blast
  with push weight_upd [of t n "pcs s" Signalling] show ?case by (simp add: effort_def set_threads)
next
  case (park_informer s t ev ord)
  with weight_upd [of t n "pcs s" "Parked (Some ev)"] show ?case by (simp add: effort_def set_threads)
next
  case (signal s t u j)
  have tu: "t \<noteq> u" using signal by auto
  have "weight n (Trying j) = Suc (weight n (Parked j))" by (cases j) simp_all
  with weight_upd [of t n "pcs s" Idle] weight_upd [of u n "(pcs s)(t := Idle)" "Trying j"] signal tu
  show ?case by (simp add: effort_def set_threads)
next
  case (signal_none s t)
  with weight_upd [of t n "pcs s" Idle] show ?case by (simp add: effort_def set_threads)
next
  case (process s t ord l w)
  have q: "lbstore (ctl s) \<noteq> []" "lbstore l = tl (lbstore (ctl s))"
    using process_queue [OF process(6) [unfolded sys_ok_def] process(4)] by auto
  then have "(n + 4) * length (lbstore (ctl s)) = (n + 4) * length (lbstore l) + (n + 4)"
    by (cases "lbstore (ctl s)") simp_all
  with process weight_upd [of t n "pcs s" Broadcasting] show ?case by (simp add: effort_def set_threads)
next
  case (park_worker s t ord)
  with weight_upd [of t n "pcs s" "Parked None"] show ?case by (simp add: effort_def set_threads)
next
  case (broadcast s t)
  with broadcast_weight [of t n "pcs s"] show ?case by (simp add: effort_def set_threads)
qed (simp_all add: effort_def)

lemma run_length:
  assumes "(internal kube hst n ^^ k) s s'" and "sys_ok n s" and "0 < n"
  shows "k + effort n s' \<le> effort n s \<and> sys_ok n s'"
  using assms
proof (induction k arbitrary: s')
  case (Suc k)
  then obtain s1 where "(internal kube hst n ^^ k) s s1" "internal kube hst n s1 s'" by auto
  with Suc.IH [of s1] Suc.prems internal_effort [of kube hst n s1 s'] internal_ok [of kube hst n s1 s']
  show ?case by fastforce
qed simp

section \<open>Where a run ends\<close>

definition drained :: "nat \<Rightarrow> 'w sys \<Rightarrow> bool" where
  "drained n s \<longleftrightarrow> lbstore (ctl s) = [] \<and> (\<forall>t \<in> set informers. pcs s t = Idle) \<and>
     (\<forall>t \<in> set (workers n). pcs s t = Parked None)"

lemma stuck_drained:
  assumes ok: "sys_ok n s" and stuck: "\<nexists>s'. internal kube hst n s s'" and nc: "\<not> crashed s"
  shows "drained n s"
proof -
  note i = sys_invD [OF ok [unfolded sys_ok_def]]
  have w: "pcs s t = Parked None" if t: "t \<in> set (workers n)" for t
  proof -
    have "worker_ok (pcs s t)" using i(4) t by (simp add: placed_def)
    moreover have "pcs s t \<noteq> Broadcasting" using stuck internal.broadcast [OF nc t] by blast
    moreover have "pcs s t \<noteq> Trying None"
      using stuck internal.process [OF nc t] internal.park_worker [OF nc t] internal.panic_worker [OF nc t]
        processFunc_cases [OF i(2), of hst id_orders "world s"] fair_id_orders by (metis (no_types, lifting))
    ultimately show ?thesis by (auto simp: worker_ok_def)
  qed
  have sig: "pcs s t \<noteq> Signalling" if t: "t \<in> set informers" for t
  proof
    assume st: "pcs s t = Signalling"
    show False
    proof (cases "\<exists>u \<in> set (threads n). is_parked (pcs s u)")
      case True
      then obtain u j where "u \<in> set (threads n)" "pcs s u = Parked j" by (metis is_parked.elims(2))
      with stuck internal.signal [OF nc t st] show False by blast
    next
      case False
      with stuck internal.signal_none [OF nc t st] show False by blast
    qed
  qed
  then have "signals (pcs s) = 0" by (simp add: signals_eq set_informers)
  then have empty: "lbstore (ctl s) = []" using i(6) w by simp
  have "pcs s t = Idle" if t: "t \<in> set informers" for t
  proof -
    have "informer_ok (ctl s) (pcs s t)" using i(4) t by (simp add: placed_def)
    moreover have "pcs s t \<noteq> Trying (Some ev)" if lk: "locks ev (ctl s)" for ev
    proof
      assume tr: "pcs s t = Trying (Some ev)"
      obtain l w where "handle kube id_orders ev (ctl s) (world s) = Returns (l, w)"
        using handle_cases [OF i(2,3,1) lk, of kube id_orders "world s"] empty by (auto simp: pushed_def)
      from internal.push [OF nc t tr this fair_id_orders] stuck show False by blast
    qed
    moreover have "\<not> is_parked (pcs s t)"
      using i(5) t w empty by force
    ultimately show ?thesis using sig [OF t] by (auto simp: informer_ok_def)
  qed
  with w empty show ?thesis by (simp add: drained_def)
qed

section \<open>The mutex that is never released\<close>

text \<open>A held mutex stops every handler that locks, and every worker.\<close>

lemma locked_out:
  assumes "cond_L lbc"
  shows "processFunc hst ord lbc w = Lock_waits" "locks ev lbc \<Longrightarrow> handle kube ord ev lbc w = Lock_waits"
  using assms
  by (auto simp: processFunc_def critical_def updatePorts_def OnUpdate_pod_def addrUpdateFunc_def
      tcpService_def udpService_def split: event.splits elim!: locks.elims)

lemma locked_stuck:
  assumes "cond_L (ctl s)" and "\<forall>t \<in> set informers. pcs s t = Idle \<or> (\<exists>ev. pcs s t = Trying (Some ev) \<and> locks ev (ctl s))"
    and "\<forall>t \<in> set (workers n). pcs s t = Trying None"
  shows "\<not> internal kube hst n s s'"
proof
  assume "internal kube hst n s s'"
  then show False
    using assms locked_out by cases fastforce+
qed

end
