(* ===== verification/App.thy ===== *)
theory App
  imports Goroutines
begin

text \<open>
  The command: the flags of \<open>pkg/config/config.go\<close> and \<open>cmd/lvs-controller/options/options.go\<close>
  and the functions \<open>RunController\<close> and \<open>main\<close> of \<open>main.go\<close>. \<open>RunController\<close> builds the clients,
  constructs the controller, synchronises once and starts the workers. A flag is its name and the store to its
  destination; usage texts are left out. The construction of the API clients
  (\<open>clientcmd.BuildConfigFromFlags\<close>, \<open>kubernetes.NewForConfig\<close>) is a parameter.
\<close>

section \<open>Flags\<close>

record Options =
  Kubeconfig :: string
  Debug :: bool
  Cfg :: Config

definition NewOptions :: Options where
  "NewOptions = \<lparr>Kubeconfig = [], Debug = False, Cfg = \<lparr>cfg_NginxServer = [], cfg_SchedName = [],
     cfg_Vip = [], cfg_Pnmpp = False, cfg_Idle_Timeout = []\<rparr>\<rparr>"

datatype flag = StringFlag string "string \<Rightarrow> Options \<Rightarrow> Options" | BoolFlag string "bool \<Rightarrow> Options \<Rightarrow> Options"

text \<open>\<open>Config.AddFlags\<close>: its destinations are fields of the options' \<open>Cfg\<close>.\<close>

definition Config_AddFlags :: "flag list \<Rightarrow> flag list" where
  "Config_AddFlags app_Flags = app_Flags @
     [StringFlag ''schedname'' (\<lambda>x. Cfg_update (cfg_SchedName_update (\<lambda>_. x))),
      StringFlag ''nginxserver'' (\<lambda>x. Cfg_update (cfg_NginxServer_update (\<lambda>_. x))),
      StringFlag ''vip'' (\<lambda>x. Cfg_update (cfg_Vip_update (\<lambda>_. x))),
      StringFlag ''timeout'' (\<lambda>x. Cfg_update (cfg_Idle_Timeout_update (\<lambda>_. x))),
      BoolFlag ''pnmpp'' (\<lambda>x. Cfg_update (cfg_Pnmpp_update (\<lambda>_. x)))]"

definition Options_AddFlags :: "flag list \<Rightarrow> flag list" where
  "Options_AddFlags app_Flags = Config_AddFlags app_Flags @
     [StringFlag ''kubeconfig'' (\<lambda>x. Kubeconfig_update (\<lambda>_. x)),
      BoolFlag ''debug'' (\<lambda>x. Debug_update (\<lambda>_. x))]"

text \<open>
  What the flag library does with them: registering a flag stores its default, and each
  argument of the command line stores its value; an unknown name or a value of the wrong kind
  is an error.
\<close>

datatype argument = StrArg string string | BoolArg string bool

fun flag_name :: "flag \<Rightarrow> string" where
  "flag_name (StringFlag name dest) = name"
| "flag_name (BoolFlag name dest) = name"

fun arg_name :: "argument \<Rightarrow> string" where
  "arg_name (StrArg name x) = name"
| "arg_name (BoolArg name x) = name"

fun register :: "flag \<Rightarrow> Options \<Rightarrow> Options" where
  "register (StringFlag name dest) opts = dest [] opts"
| "register (BoolFlag name dest) opts = dest False opts"

fun store_arg :: "flag list \<Rightarrow> argument \<Rightarrow> Options \<Rightarrow> Options option" where
  "store_arg flags arg opts =
     (case (find (\<lambda>f. flag_name f = arg_name arg) flags, arg) of
        (Some (StringFlag _ dest), StrArg _ x) \<Rightarrow> Some (dest x opts)
      | (Some (BoolFlag _ dest), BoolArg _ x) \<Rightarrow> Some (dest x opts)
      | _ \<Rightarrow> None)"

fun store_args :: "flag list \<Rightarrow> argument list \<Rightarrow> Options \<Rightarrow> Options option" where
  "store_args flags [] opts = Some opts"
| "store_args flags (arg # args) opts = do {opts' \<leftarrow> store_arg flags arg opts; store_args flags args opts'}"

definition parse_args :: "flag list \<Rightarrow> argument list \<Rightarrow> Options \<Rightarrow> Options option" where
  "parse_args flags args opts = store_args flags args (fold register flags opts)"

text \<open>
  \<open>main\<close> sorts the flags before it parses the arguments; the order does not matter.
\<close>

lemma find_perm:
  assumes "mset fs = mset gs" and "distinct (map flag_name gs)"
  shows "find (\<lambda>f. flag_name f = x) fs = find (\<lambda>f. flag_name f = x) gs"
proof -
  have set: "set fs = set gs" using assms(1) by (rule mset_eq_setD)
  have uniq: "f = g" if "f \<in> set gs" "g \<in> set gs" "flag_name f = flag_name g" for f g
    using assms(2) that by (simp add: distinct_map inj_on_def)
  have found: "f \<in> set hs \<and> flag_name f = x" if "find (\<lambda>f. flag_name f = x) hs = Some f" for hs f
    using that by (induction hs) (auto split: if_splits)
  show ?thesis
  proof (cases "find (\<lambda>f. flag_name f = x) fs")
    case None
    then have "\<forall>f \<in> set gs. flag_name f \<noteq> x" using set by (simp add: find_None_iff)
    then have "find (\<lambda>f. flag_name f = x) gs = None" by (simp add: find_None_iff)
    with None show ?thesis by simp
  next
    case (Some f)
    from found [OF this] set have f: "f \<in> set gs" "flag_name f = x" by auto
    then obtain g where g: "find (\<lambda>f. flag_name f = x) gs = Some g"
      by (cases "find (\<lambda>f. flag_name f = x) gs") (auto simp: find_None_iff)
    from found [OF g] f uniq have "f = g" by auto
    with Some g show ?thesis by simp
  qed
qed

lemma distinct_flags: "distinct (map flag_name (Options_AddFlags []))"
  by (simp add: Options_AddFlags_def Config_AddFlags_def)

lemma register_default: "f \<in> set (Options_AddFlags []) \<Longrightarrow> register f NewOptions = NewOptions"
  by (auto simp: Options_AddFlags_def Config_AddFlags_def NewOptions_def)

lemma fold_register: "set fs \<subseteq> set (Options_AddFlags []) \<Longrightarrow> fold register fs NewOptions = NewOptions"
  by (induction fs) (simp_all add: register_default)

lemma store_args_perm:
  assumes "mset fs = mset (Options_AddFlags [])"
  shows "store_args fs args opts = store_args (Options_AddFlags []) args opts"
proof (induction args arbitrary: opts)
  case (Cons arg args)
  have "store_arg fs arg opts = store_arg (Options_AddFlags []) arg opts"
    using find_perm [OF assms distinct_flags] by simp
  moreover have "store_args fs args = store_args (Options_AddFlags []) args" by (rule ext) (rule Cons)
  ultimately show ?case by (simp del: store_arg.simps)
qed simp

lemma parse_args_perm:
  assumes "mset fs = mset (Options_AddFlags [])"
  shows "parse_args fs args NewOptions = parse_args (Options_AddFlags []) args NewOptions"
proof -
  have "set fs = set (Options_AddFlags [])" using assms by (rule mset_eq_setD)
  then show ?thesis using store_args_perm [OF assms] by (simp add: parse_args_def fold_register)
qed

section \<open>RunController\<close>

text \<open>
  \<open>Fatalf\<close> of the logging library logs and returns. So an error of \<open>Initial\<close> does not stop
  \<open>RunController\<close>: it goes on to \<open>Run\<close>, which waits until the caches of the two informers
  are filled (\<open>synced\<close> says whether they ever are), starts its workers and does not return, as
  the stop channel is never closed. \<open>Running s\<close> is the system at that point.
\<close>

datatype 'w run_result = Failed error | Crash | Hangs | Running "'w sys"

definition running :: "'w LoadBalancerController \<Rightarrow> 'w \<Rightarrow> 'w sys" where
  "running lbc w = \<lparr>ctl = lbc, world = w,
     pcs = (\<lambda>t. case t of Worker i \<Rightarrow> Trying None | _ \<Rightarrow> Idle), crashed = False\<rparr>"

definition Run :: "bool \<Rightarrow> 'w LoadBalancerController \<Rightarrow> 'w \<Rightarrow> 'w run_result" where
  "Run synced lbc w = (if synced then Running (running lbc w) else Hangs)"

definition RunController :: "(string \<Rightarrow> error + 'r) \<Rightarrow> ('r \<Rightarrow> error + 'w kube) \<Rightarrow> bool \<Rightarrow> 'w host \<Rightarrow> orders
    \<Rightarrow> Options \<Rightarrow> 'w \<Rightarrow> 'w run_result" where
  "RunController BuildConfigFromFlags NewForConfig synced hst ord opts w =
     (case BuildConfigFromFlags (Kubeconfig opts) of
        Inl err \<Rightarrow> Failed err
      | Inr config \<Rightarrow>
          (case NewForConfig config of
             Inl err \<Rightarrow> Failed err
           | Inr clientset \<Rightarrow>
               (case NewLoadBalancerController hst (Cfg opts) w of
                  None \<Rightarrow> Crash
                | Some (lbc, w1) \<Rightarrow>
                    (case Initial clientset ord lbc w1 of
                       Returns (err, lbc', w2) \<Rightarrow> Run synced lbc' w2
                     | Panics \<Rightarrow> Crash
                     | _ \<Rightarrow> Hangs))))"

section \<open>main\<close>

text \<open>
  \<open>sort.Sort(cli.FlagsByName(app.Flags))\<close>: by name, as Go compares strings. The names are
  different, so the sorting algorithm does not matter.
\<close>

fun string_less :: "string \<Rightarrow> string \<Rightarrow> bool" where
  "string_less s [] \<longleftrightarrow> False"
| "string_less [] (d # ds) \<longleftrightarrow> True"
| "string_less (c # cs) (d # ds) \<longleftrightarrow> char_code c < char_code d \<or> c = d \<and> string_less cs ds"

fun insert_flag :: "flag \<Rightarrow> flag list \<Rightarrow> flag list" where
  "insert_flag f [] = [f]"
| "insert_flag f (g # gs) = (if string_less (flag_name g) (flag_name f) then g # insert_flag f gs else f # g # gs)"

definition FlagsByName :: "flag list \<Rightarrow> flag list" where
  "FlagsByName fs = foldr insert_flag fs []"

lemma mset_FlagsByName: "mset (FlagsByName fs) = mset fs"
proof -
  have "mset (insert_flag f gs) = add_mset f (mset gs)" for f gs
    by (induction gs) simp_all
  then show ?thesis unfolding FlagsByName_def by (induction fs) simp_all
qed

text \<open>
  How the process ends, if it does. \<open>Action\<close> turns an error of \<open>RunController\<close> into the exit
  status 1; the flag library prints it and exits. \<open>app.Run\<close> also returns an error, a command line it
  cannot parse, but \<open>main\<close> drops what it returns, so the process ends with status 0. An
  unrecovered panic ends it with status 2. The library's own \<open>help\<close> and \<open>version\<close> and arguments
  that are not flags are left out.
\<close>

datatype 'w ending = Exit int | Blocked | Serving "'w sys"

fun Action :: "'w run_result \<Rightarrow> 'w ending" where
  "Action (Failed err) = Exit 1"
| "Action Crash = Exit 2"
| "Action Hangs = Blocked"
| "Action (Running s) = Serving s"

definition main :: "(string \<Rightarrow> error + 'r) \<Rightarrow> ('r \<Rightarrow> error + 'w kube) \<Rightarrow> bool \<Rightarrow> 'w host \<Rightarrow> orders
    \<Rightarrow> argument list \<Rightarrow> 'w \<Rightarrow> 'w ending" where
  "main BuildConfigFromFlags NewForConfig synced hst ord args w =
     (case parse_args (FlagsByName (Options_AddFlags [])) args NewOptions of
        None \<Rightarrow> Exit 0
      | Some opts \<Rightarrow> Action (RunController BuildConfigFromFlags NewForConfig synced hst ord opts w))"

lemma main_parses:
  "main BuildConfigFromFlags NewForConfig synced hst ord args w =
     (case parse_args (Options_AddFlags []) args NewOptions of
        None \<Rightarrow> Exit 0
      | Some opts \<Rightarrow> Action (RunController BuildConfigFromFlags NewForConfig synced hst ord opts w))"
  by (simp only: main_def parse_args_perm [OF mset_FlagsByName])

text \<open>After a failed \<open>Initial\<close> the mutex is held and stays so.\<close>

definition dead :: "nat \<Rightarrow> 'w sys \<Rightarrow> bool" where
  "dead n s \<longleftrightarrow> cond_L (ctl s) \<and>
     (\<forall>t \<in> set informers. pcs s t = Idle \<or> (\<exists>ev. pcs s t = Trying (Some ev) \<and> locks ev (ctl s))) \<and>
     (\<forall>t \<in> set (workers n). pcs s t = Trying None)"

lemma dead_stuck: "dead n s \<Longrightarrow> \<not> internal kube hst n s s'"
  unfolding dead_def by (intro locked_stuck) auto

lemma dead_external:
  assumes "external s s'" and "dead n s"
  shows "dead n s' \<and> lbstore (ctl s') = lbstore (ctl s)"
  using assms
proof induction
  case (event t s ev)
  then show ?case unfolding dead_def by (auto dest: informer_worker)
next
  case (added s pod)
  have "nginxServer (addrAddFunc pod (ctl s)) = nginxServer (ctl s)" "cond_L (addrAddFunc pod (ctl s)) = cond_L (ctl s)"
    "lbstore (addrAddFunc pod (ctl s)) = lbstore (ctl s)"
    by (auto simp: addrAddFunc_def Let_def split: prod.splits bool.splits)
  with added locks_server [OF this(1)] show ?case by (simp add: dead_def)
qed (simp add: dead_def)

lemma dead_forever:
  assumes "(\<lambda>a b. internal kube hst n a b \<or> external a b)\<^sup>*\<^sup>* s s'" and "dead n s"
  shows "dead n s' \<and> lbstore (ctl s') = lbstore (ctl s)"
  using assms
proof induction
  case (step s1 s2)
  then show ?case using dead_stuck dead_external by metis
qed simp

lemma New_shape:
  assumes "NewLoadBalancerController hst cfg w = Some (lbc, w1)"
  shows "wf_lbc lbc \<and> lbstore lbc = [] \<and> \<not> lb_closed lbc \<and> \<not> cond_L lbc"
  using assms
  by (auto simp: NewLoadBalancerController_def wf_lbc_def wf_LBStore_def NewLBStore_def split: bind_splits)

text \<open>\<open>Initial\<close> on a new controller always returns.\<close>

lemma Initial_new:
  assumes "NewLoadBalancerController hst cfg w = Some (lbc, w1)"
  shows "\<exists>err lbc' w'. Initial kube ord lbc w1 = Returns (err, lbc', w') \<and> wf_lbc lbc' \<and>
    cond_L lbc' = (err \<noteq> None) \<and> lbstore lbc' = (if err = None then [PLB] else [])"
proof -
  note n = New_shape [OF assms]
  obtain err lbc' w' where b: "Initial_body kube ord (lbc\<lparr>cond_L := True\<rparr>) w1 = Returns (err, lbc', w')" "wf_lbc lbc'"
    "cond_L lbc' = (err \<noteq> None)" "lbstore lbc' = (if err = None then [PLB] else [])"
    using Initial_body_cases [of "lbc\<lparr>cond_L := True\<rparr>" kube ord w1] n by auto
  have "Initial kube ord lbc w1 = Returns (err, lbc', w')"
    using n b(1) by (simp add: Initial_def critical_def full_def)
  with b(2-4) show ?thesis by blast
qed

text \<open>The exit status of the process.\<close>

lemma Initial_blocked:
  assumes "NewLoadBalancerController hst cfg w = Some (lbc, w1)"
  shows "\<exists>err lbc' w'. Initial kube ord lbc w1 = Returns (err, lbc', w')"
  using Initial_new [OF assms] by blast

lemma RunController_cases:
  "RunController BuildConfigFromFlags NewForConfig synced hst ord opts w =
    (case BuildConfigFromFlags (Kubeconfig opts) of
       Inl err \<Rightarrow> Failed err
     | Inr config \<Rightarrow>
         (case NewForConfig config of
            Inl err \<Rightarrow> Failed err
          | Inr kube \<Rightarrow>
              (case NewLoadBalancerController hst (Cfg opts) w of
                 None \<Rightarrow> Crash
               | Some (lbc, w1) \<Rightarrow>
                   if synced then (case Initial kube ord lbc w1 of Returns (err, l, w2) \<Rightarrow> Running (running l w2) | _ \<Rightarrow> Crash)
                   else Hangs)))"
proof (cases "\<exists>config kube lbc w1. BuildConfigFromFlags (Kubeconfig opts) = Inr config \<and> NewForConfig config = Inr kube \<and>
    NewLoadBalancerController hst (Cfg opts) w = Some (lbc, w1)")
  case True
  then obtain config kube lbc w1 where e: "BuildConfigFromFlags (Kubeconfig opts) = Inr config" "NewForConfig config = Inr kube"
    "NewLoadBalancerController hst (Cfg opts) w = Some (lbc, w1)" by blast
  obtain err l w2 where "Initial kube ord lbc w1 = Returns (err, l, w2)" using Initial_blocked [OF e(3)] by blast
  with e show ?thesis by (simp add: RunController_def Run_def)
qed (auto simp: RunController_def split: sum.split option.split)

lemma main_exit:
  "main BuildConfigFromFlags NewForConfig synced hst ord args w = Exit n \<longleftrightarrow>
    (case parse_args (Options_AddFlags []) args NewOptions of
       None \<Rightarrow> n = 0
     | Some opts \<Rightarrow>
         (case BuildConfigFromFlags (Kubeconfig opts) of
            Inl err \<Rightarrow> n = 1
          | Inr config \<Rightarrow>
              (case NewForConfig config of
                 Inl err \<Rightarrow> n = 1
               | Inr kube \<Rightarrow> NewLoadBalancerController hst (Cfg opts) w = None \<and> n = 2)))"
proof (cases "parse_args (Options_AddFlags []) args NewOptions")
  case (Some opts)
  show ?thesis
  proof (cases "BuildConfigFromFlags (Kubeconfig opts)")
    case (Inr config)
    show ?thesis
    proof (cases "NewForConfig config")
      case (Inr kube)
      show ?thesis
      proof (cases "NewLoadBalancerController hst (Cfg opts) w")
        case (Some r)
        obtain lbc w1 where r: "r = (lbc, w1)" by (cases r)
        obtain err l w2 where "Initial kube ord lbc w1 = Returns (err, l, w2)"
          using Initial_blocked [OF Some [unfolded r]] by blast
        with Some r \<open>parse_args _ _ _ = Some opts\<close> \<open>BuildConfigFromFlags _ = _\<close> Inr show ?thesis
          by (simp add: main_parses RunController_cases)
      qed (auto simp: main_parses RunController_cases Some \<open>BuildConfigFromFlags _ = _\<close> Inr)
    qed (auto simp: main_parses RunController_cases Some Inr)
  qed (auto simp: main_parses RunController_cases Some)
qed (auto simp: main_parses)

end
