(* ===== verification/Spaced_Run.thy ===== *)
theory Spaced_Run
  imports Quiet_Run App
begin

text \<open>
  Events that come one at a time. A turn of \<open>Quiet_Run\<close> is the handler of an event and then the
  worker; here the goroutines do the same on their own: from a state at ease (an empty queue,
  idle informers), whatever the interleaving of the handler, the workers and their wake-ups, the
  steps after one event end in the controller and the world a turn yields. So a run of the
  goroutines in which each event finds them at ease is a quiet run.
\<close>

section \<open>One item\<close>

definition at_ease :: "'w sys \<Rightarrow> bool" where
  "at_ease s \<longleftrightarrow> \<not> crashed s \<and> lbstore (ctl s) = [] \<and> (\<forall>t \<in> set informers. pcs s t = Idle)"

lemma drained_at_ease: "drained n s \<Longrightarrow> \<not> crashed s \<Longrightarrow> at_ease s"
  by (simp add: drained_def at_ease_def)

text \<open>
  The controller \<open>c\<close> had one item in the world \<open>w\<close>, and no event is being handled: the item is
  still there, or one worker has taken its turn.
\<close>

definition one_item :: "'w host \<Rightarrow> nat \<Rightarrow> 'w LoadBalancerController \<Rightarrow> 'w \<Rightarrow> 'w sys \<Rightarrow> bool" where
  "one_item hst n c w s \<longleftrightarrow> sys_ok n s \<and> \<not> crashed s \<and> length (lbstore c) = 1 \<and> \<not> cond_L c \<and>
     (\<forall>t \<in> set informers. pcs s t = Idle \<or> pcs s t = Signalling) \<and>
     (ctl s = c \<and> world s = w \<or> (\<exists>ord. fair_orders ord \<and> processFunc hst ord c w = Returns (ctl s, world s)))"

lemma processFunc_takes:
  assumes "\<not> cond_L c" and "length (lbstore c) = 1" and "processFunc hst ord c w = Returns (l, w')"
  shows "lbstore l = []"
proof -
  obtain x where "lbstore c = [x]" using assms(2) by (cases "lbstore c") auto
  then show ?thesis using processFunc_cases [OF assms(1), of hst ord w] assms(3) by (auto split: if_splits)
qed

text \<open>A worker can only take its turn while the item is there.\<close>

lemma one_item_processed:
  assumes i: "one_item hst n c w s" and p: "processFunc hst ord (ctl s) (world s) \<noteq> Cond_waits"
  shows "ctl s = c \<and> world s = w"
proof (rule ccontr)
  assume "\<not> (ctl s = c \<and> world s = w)"
  then obtain ord' where "processFunc hst ord' c w = Returns (ctl s, world s)"
    using i by (auto simp: one_item_def)
  then have "lbstore (ctl s) = []" using i processFunc_takes by (auto simp: one_item_def)
  moreover have "\<not> cond_L (ctl s)" using i by (auto simp: one_item_def sys_ok_def sys_inv_def)
  ultimately show False using processFunc_cases [of "ctl s" hst ord "world s"] p by simp
qed

lemma one_item_step:
  assumes "internal kube hst n s s'" and i: "one_item hst n c w s" and n: "0 < n"
    and safe: "\<And>ord. fair_orders ord \<Longrightarrow> processFunc hst ord c w \<noteq> Panics"
  shows "one_item hst n c w s'"
proof -
  have ok: "sys_ok n s'" using internal_ok [OF assms(1) _ n] i by (simp add: one_item_def)
  have idle: "pcs s t = Idle \<or> pcs s t = Signalling" if "t \<in> set informers" for t
    using i that by (simp add: one_item_def)
  from assms(1) show ?thesis
  proof cases
    case (push t ev ord l w)
    then show ?thesis using idle [of t] by simp
  next
    case (park_informer t ev ord)
    then show ?thesis using idle [of t] by simp
  next
    case (signal t u j)
    have "u \<notin> set informers" using idle [of u] signal(6) by auto
    with signal i ok show ?thesis by (auto simp: one_item_def)
  next
    case (signal_none t)
    with i ok show ?thesis by (auto simp: one_item_def)
  next
    case (process t ord l w')
    then have "ctl s = c \<and> world s = w" by (intro one_item_processed [OF i, of ord]) simp
    with process i ok informer_worker [OF _ process(3)] show ?thesis by (auto simp: one_item_def)
  next
    case (park_worker t ord)
    with i ok informer_worker [OF _ park_worker(3)] show ?thesis by (auto simp: one_item_def)
  next
    case (broadcast t)
    with i ok informer_worker [OF _ broadcast(3)] idle show ?thesis by (auto simp: one_item_def)
  next
    case (panic_informer t ev ord)
    then show ?thesis using idle [of t] by simp
  next
    case (panic_worker t ord)
    then have "ctl s = c \<and> world s = w" by (intro one_item_processed [OF i, of ord]) simp
    with panic_worker safe [of ord] show ?thesis by simp
  qed
qed

lemma one_item_run:
  assumes "(internal kube hst n)\<^sup>*\<^sup>* s s'" and "one_item hst n c w s" and "0 < n"
    and "\<And>ord. fair_orders ord \<Longrightarrow> processFunc hst ord c w \<noteq> Panics"
  shows "one_item hst n c w s'"
  using assms(1)
proof induction
  case (step s1 s2)
  show ?case by (rule one_item_step [OF step(2,3) assms(3,4)])
qed (rule assms(2))

lemma one_item_done:
  assumes "one_item hst n c w s" and "lbstore (ctl s) = []"
  shows "\<exists>ord. fair_orders ord \<and> processFunc hst ord c w = Returns (ctl s, world s)"
proof -
  have "length (lbstore c) = 1" using assms(1) unfolding one_item_def by blast
  then have "ctl s \<noteq> c" using assms(2) by (metis list.size(3) zero_neq_one)
  with assms(1) show ?thesis unfolding one_item_def by blast
qed

section \<open>One event\<close>

text \<open>The informer \<open>t\<close> is about to handle \<open>ev\<close>; the other one is idle and the queue is empty.\<close>

definition one_event :: "nat \<Rightarrow> thread \<Rightarrow> event \<Rightarrow> 'w LoadBalancerController \<Rightarrow> 'w \<Rightarrow> 'w sys \<Rightarrow> bool" where
  "one_event n t ev c w s \<longleftrightarrow> sys_ok n s \<and> \<not> crashed s \<and> t \<in> set informers \<and> pcs s t = Trying (Some ev) \<and>
     (\<forall>u \<in> set informers. u \<noteq> t \<longrightarrow> pcs s u = Idle) \<and> ctl s = c \<and> world s = w \<and> lbstore c = [] \<and> locks ev c"

lemma one_event_handled:
  assumes e: "one_event n t ev c w s"
  shows "\<exists>l w'. handle kube ord ev c w = Returns (l, w') \<and> length (lbstore l) = 1 \<and> \<not> cond_L l"
proof -
  have "\<not> cond_L c" "\<not> lb_closed c" "wf_lbc c" using e by (auto simp: one_event_def sys_ok_def sys_inv_def)
  with handle_cases [of c ev kube ord w] e show ?thesis by (auto simp: one_event_def pushed_def)
qed

lemma one_event_step:
  assumes "internal kube hst n s s'" and e: "one_event n t ev c w s" and n: "0 < n"
  shows "one_event n t ev c w s' \<or>
    (\<exists>ord l w'. fair_orders ord \<and> handle kube ord ev c w = Returns (l, w') \<and> one_item hst n l w' s')"
proof -
  have ok: "sys_ok n s'" using internal_ok [OF assms(1) _ n] e by (simp add: one_event_def)
  have who: "u = t" if "u \<in> set informers" "pcs s u \<noteq> Idle" for u
    using e that by (auto simp: one_event_def)
  have empty: "lbstore (ctl s) = []" "\<not> cond_L (ctl s)" using e by (auto simp: one_event_def sys_ok_def sys_inv_def)
  have waits: "processFunc hst ord (ctl s) (world s) = Cond_waits" for ord
    using processFunc_cases [OF empty(2), of hst ord "world s"] empty(1) by simp
  from assms(1) show ?thesis
  proof cases
    case (push u ev' ord l w')
    then have u: "u = t" "ev' = ev" using who [of u] e by (auto simp: one_event_def)
    have "handle kube ord ev c w = Returns (l, w')" using push(5) e u by (simp add: one_event_def)
    moreover have "one_item hst n l w' s'"
      using one_event_handled [OF e, of kube ord] calculation e ok push(1) u(1) by (auto simp: one_item_def one_event_def)
    ultimately show ?thesis using push(6) by blast
  next
    case (park_informer u ev' ord)
    then have "u = t" "ev' = ev" using who [of u] e by (auto simp: one_event_def)
    then show ?thesis using one_event_handled [OF e, of kube ord] park_informer(5) e by (auto simp: one_event_def)
  next
    case (signal u x j)
    then have "u = t" using who [of u] by simp
    then show ?thesis using signal(4) e by (simp add: one_event_def)
  next
    case (signal_none u)
    then have "u = t" using who [of u] by simp
    then show ?thesis using signal_none(4) e by (simp add: one_event_def)
  next
    case (park_worker u ord)
    with e ok informer_worker [OF _ park_worker(3)] show ?thesis by (auto simp: one_event_def)
  next
    case (broadcast u)
    with e ok informer_worker [OF _ broadcast(3)] show ?thesis by (auto simp: one_event_def)
  next
    case (panic_informer u ev' ord)
    then have "u = t" "ev' = ev" using who [of u] e by (auto simp: one_event_def)
    then show ?thesis using one_event_handled [OF e, of kube ord] panic_informer(5) e by (auto simp: one_event_def)
  qed (use waits in simp_all)
qed

text \<open>The turn of an event on an empty queue.\<close>

lemma turn_handled:
  assumes "handle kube ord ev c w = Returns (l, w')" and "length (lbstore l) = 1"
  shows "turn kube hst ord ord' ev c w = processFunc hst ord' l w'"
  using assms by (auto simp: turn_def)

lemma one_event_run:
  assumes run: "(internal kube hst n)\<^sup>*\<^sup>* s s'" and e: "one_event n t ev c w s" and n: "0 < n"
    and safe: "\<And>ord ord'. fair_orders ord \<Longrightarrow> fair_orders ord' \<Longrightarrow> turn kube hst ord ord' ev c w \<noteq> Panics"
  shows "one_event n t ev c w s' \<or>
    (\<exists>ord l w'. fair_orders ord \<and> handle kube ord ev c w = Returns (l, w') \<and> one_item hst n l w' s')"
  using run
proof induction
  case (step s1 s2)
  from step(3) show ?case
  proof
    assume "one_event n t ev c w s1"
    then show ?thesis by (rule one_event_step [OF step(2) _ n])
  next
    assume "\<exists>ord l w'. fair_orders ord \<and> handle kube ord ev c w = Returns (l, w') \<and> one_item hst n l w' s1"
    then obtain ord l w' where l: "fair_orders ord" "handle kube ord ev c w = Returns (l, w')" "one_item hst n l w' s1" by blast
    have "length (lbstore l) = 1" using l(3) by (simp add: one_item_def)
    then have "processFunc hst ord' l w' \<noteq> Panics" if "fair_orders ord'" for ord'
      using safe [OF l(1) that] turn_handled [OF l(2)] by simp
    then have "one_item hst n l w' s2" by (rule one_item_step [OF step(2) l(3) n])
    with l(1,2) show ?thesis by blast
  qed
qed (use e in simp)

text \<open>At ease again, the goroutines have done a turn.\<close>

lemma one_event_done:
  assumes "one_event n t ev c w s' \<or>
      (\<exists>ord l w'. fair_orders ord \<and> handle kube ord ev c w = Returns (l, w') \<and> one_item hst n l w' s')"
    and "at_ease s'"
  shows "\<exists>ord ord'. fair_orders ord \<and> fair_orders ord' \<and> turn kube hst ord ord' ev c w = Returns (ctl s', world s')"
  using assms(1)
proof
  assume "one_event n t ev c w s'"
  then show ?thesis using assms(2) by (auto simp: one_event_def at_ease_def)
next
  assume "\<exists>ord l w'. fair_orders ord \<and> handle kube ord ev c w = Returns (l, w') \<and> one_item hst n l w' s'"
  then obtain ord l w' where l: "fair_orders ord" "handle kube ord ev c w = Returns (l, w')" "one_item hst n l w' s'" by blast
  obtain ord' where "fair_orders ord'" "processFunc hst ord' l w' = Returns (ctl s', world s')"
    using one_item_done [OF l(3)] assms(2) by (auto simp: at_ease_def)
  moreover have "length (lbstore l) = 1" using l(3) by (simp add: one_item_def)
  ultimately show ?thesis using l(1) turn_handled [OF l(2), of hst ord'] by auto
qed

section \<open>The start\<close>

text \<open>
  While the first item waits, the pod informer may be told of pods, and \<open>addrAddFunc\<close> writes
  their addresses into the store the item points to. Its keys end in a newline, those of
  \<open>Initial\<close> do not, so it takes nothing away.
\<close>

definition knows_pod :: "bytes set \<Rightarrow> Pod \<Rightarrow> bool" where
  "knows_pod A pod \<longleftrightarrow> (\<forall>ip. ValidateIPv4 (pod_PodIP pod) = (True, ip) \<longrightarrow> addr4 ip \<in> Some ` A)"

definition one_line :: "string \<Rightarrow> bool" where
  "one_line s \<longleftrightarrow> CHR 0x0A \<notin> set s"

definition one_line_keys :: "LBStore \<Rightarrow> bytes set \<Rightarrow> bool" where
  "one_line_keys lb A \<longleftrightarrow> (\<forall>a \<in> A. \<exists>key ip. one_line key \<and> map_of (Addr lb) key = Some ip \<and> addr4 ip = Some a)"

inductive boot_step :: "'w kube \<Rightarrow> 'w host \<Rightarrow> nat \<Rightarrow> bytes set \<Rightarrow> 'w sys \<Rightarrow> 'w sys \<Rightarrow> bool"
  for kube :: "'w kube" and hst :: "'w host" and n :: nat and A :: "bytes set" where
  inner: "internal kube hst n s s' \<Longrightarrow> boot_step kube hst n A s s'"
| told: "knows_pod A pod \<Longrightarrow> boot_step kube hst n A s (s\<lparr>ctl := addrAddFunc pod (ctl s)\<rparr>)"

lemma boot_inner: "(internal kube hst n)\<^sup>*\<^sup>* s s' \<Longrightarrow> (boot_step kube hst n A)\<^sup>*\<^sup>* s s'"
  by (erule rtranclp_mono [THEN predicate2D, rotated]) (auto intro: boot_step.inner)

lemma listed_one_line:
  assumes "addrs_with addition lb A" and "dom (map_of (Addr lb)) \<subseteq> (\<lambda>pod. ''adding_'' @ pod_Name pod) ` set pods"
    and "\<forall>pod \<in> set pods. one_line (pod_Name pod)"
  shows "one_line_keys lb A"
  unfolding one_line_keys_def
proof
  fix a assume "a \<in> A"
  then obtain key ip where k: "map_of (Addr lb) key = Some ip" "addr4 ip = Some a"
    using assms(1) by (auto simp: addrs_with_def)
  then have "key \<in> dom (map_of (Addr lb))" by blast
  then obtain pod where "pod \<in> set pods" "key = ''adding_'' @ pod_Name pod" using assms(2) by blast
  then have "one_line key" using assms(3) by (auto simp: one_line_def)
  with k show "\<exists>key ip. one_line key \<and> map_of (Addr lb) key = Some ip \<and> addr4 ip = Some a" by blast
qed

lemma addrAddFunc_shape:
  assumes "knows_pod A pod"
  shows "addrAddFunc pod lbc = lbc \<or>
    (\<exists>key ip. \<not> one_line key \<and> hd (Split key CHR ''_'') = addition \<and> addr4 ip \<in> Some ` A \<and>
       addrAddFunc pod lbc = lbc\<lparr>plbdata := (plbdata lbc)\<lparr>Addr := go_put key ip (Addr (plbdata lbc))\<rparr>\<rparr>)"
proof -
  let ?key = "''adding_'' @ pod_Name pod @ [CHR 0x0A]"
  obtain ok ip where v: "ValidateIPv4 (pod_PodIP pod) = (ok, ip)" by (cases "ValidateIPv4 (pod_PodIP pod)")
  show ?thesis
  proof (cases "ok \<and> addrAddFunc pod lbc \<noteq> lbc")
    case True
    then have "addrAddFunc pod lbc = lbc\<lparr>plbdata := (plbdata lbc)\<lparr>Addr := go_put ?key ip (Addr (plbdata lbc))\<rparr>\<rparr>"
      using v by (auto simp: addrAddFunc_def Let_def split: if_splits)
    moreover have "\<not> one_line ?key" by (simp add: one_line_def)
    moreover have "hd (Split ?key CHR ''_'') = addition" by (rule hd_Split_key)
    moreover have "addr4 ip \<in> Some ` A" using assms v True by (simp add: knows_pod_def)
    ultimately show ?thesis by blast
  qed (use v in \<open>auto simp: addrAddFunc_def Let_def\<close>)
qed

section \<open>Runs of the goroutines with spaced events\<close>

fun informer_of :: "event \<Rightarrow> thread" where
  "informer_of (CmEvent old cm) = CmInf"
| "informer_of (PodEvent old new) = PodInf"

text \<open>
  What an event asks for, when the addresses were \<open>A\<close> and the ports \<open>T\<close> and \<open>U\<close>: the handlers
  read the new configmap and the old pod.
\<close>

inductive asked :: "'w kube \<Rightarrow> event \<Rightarrow> 'w LoadBalancerController \<Rightarrow> 'w \<Rightarrow> bytes set \<Rightarrow> u16 set \<Rightarrow> u16 set
    \<Rightarrow> bytes set \<Rightarrow> u16 set \<Rightarrow> u16 set \<Rightarrow> bool"
  for kube :: "'w kube" where
  tcp: "cm_event kube tcpService A T N old cm lbc w \<Longrightarrow> asked kube (CmEvent old cm) lbc w A T U A N U"
| udp: "cm_event kube udpService A U N old cm lbc w \<Longrightarrow> asked kube (CmEvent old cm) lbc w A T U A T N"
| pod: "pod_event kube a T U old lbc w \<Longrightarrow>
     asked kube (PodEvent old new) lbc w A T U (if pod_Deleted old then A - {a} else A \<union> {a}) T U"

lemma asked_locks: "asked kube ev lbc w A T U A' T' U' \<Longrightarrow> locks ev lbc"
  by (induction rule: asked.induct) (simp_all add: cm_event_def pod_event_def)

inductive spaced_run :: "('w \<Rightarrow> bool) \<Rightarrow> ('w \<Rightarrow> 'w \<Rightarrow> bool) \<Rightarrow> 'w kube \<Rightarrow> 'w host \<Rightarrow> Config \<Rightarrow> nat
    \<Rightarrow> 'w sys \<Rightarrow> bytes set \<Rightarrow> u16 set \<Rightarrow> u16 set \<Rightarrow> bool"
  for start_ok :: "'w \<Rightarrow> bool" and elsewhere :: "'w \<Rightarrow> 'w \<Rightarrow> bool" and kube :: "'w kube"
    and hst :: "'w host" and cfg :: Config and n :: nat where
  start: "start_ok w \<Longrightarrow> fair_orders ord \<Longrightarrow> NewLoadBalancerController hst cfg w = Some (lbc0, w0) \<Longrightarrow>
     list_cms kube (nginxServer lbc0) w0 = (Inr cms, w1) \<Longrightarrow> good_cms cms \<Longrightarrow>
     0 \<notin> cm_ports tcpService cms \<Longrightarrow> 0 \<notin> cm_ports udpService cms \<Longrightarrow>
     list_pods kube (nginxServer lbc0) w1 = (Inr pods, w2) \<Longrightarrow> good_pods pods \<Longrightarrow>
     \<forall>pod \<in> set pods. one_line (pod_Name pod) \<Longrightarrow>
     Initial kube ord lbc0 w0 = Returns (None, lbc1, w2) \<Longrightarrow>
     (boot_step kube hst n (pod_addrs pods))\<^sup>*\<^sup>* (running lbc1 w2) s \<Longrightarrow> at_ease s \<Longrightarrow>
     spaced_run start_ok elsewhere kube hst cfg n s (pod_addrs pods) (cm_ports tcpService cms) (cm_ports udpService cms)"
| event: "spaced_run start_ok elsewhere kube hst cfg n s A T U \<Longrightarrow> asked kube ev (ctl s) (world s) A T U A' T' U' \<Longrightarrow>
     (internal kube hst n)\<^sup>*\<^sup>* (s\<lparr>pcs := (pcs s)(informer_of ev := Trying (Some ev))\<rparr>) s' \<Longrightarrow> at_ease s' \<Longrightarrow>
     spaced_run start_ok elsewhere kube hst cfg n s' A' T' U'"
| added: "spaced_run start_ok elsewhere kube hst cfg n s A T U \<Longrightarrow>
     spaced_run start_ok elsewhere kube hst cfg n (s\<lparr>ctl := addrAddFunc pod (ctl s)\<rparr>) A T U"
| elsewhere: "spaced_run start_ok elsewhere kube hst cfg n s A T U \<Longrightarrow> elsewhere (world s) w' \<Longrightarrow>
     spaced_run start_ok elsewhere kube hst cfg n (s\<lparr>world := w'\<rparr>) A T U"
| stir: "spaced_run start_ok elsewhere kube hst cfg n s A T U \<Longrightarrow> internal kube hst n s s' \<Longrightarrow>
     spaced_run start_ok elsewhere kube hst cfg n s' A T U"

text \<open>At ease, the workers only find their places.\<close>

lemma ease_step:
  assumes "internal kube hst n s s'" and e: "at_ease s" and ok: "sys_ok n s"
  shows "at_ease s' \<and> ctl s' = ctl s \<and> world s' = world s"
proof -
  have "\<not> cond_L (ctl s)" using ok by (simp add: sys_ok_def sys_inv_def)
  then have waits: "processFunc hst ord (ctl s) (world s) = Cond_waits" for ord
    using processFunc_cases [of "ctl s" hst ord "world s"] e by (simp add: at_ease_def)
  have idle: "pcs s t = Idle" if "t \<in> set informers" for t using e that by (simp add: at_ease_def)
  from assms(1) show ?thesis
  proof cases
    case (park_worker t ord)
    with e informer_worker [OF _ park_worker(3)] show ?thesis by (auto simp: at_ease_def)
  next
    case (broadcast t)
    with e informer_worker [OF _ broadcast(3)] show ?thesis by (auto simp: at_ease_def)
  qed (use idle waits in auto)
qed

lemma one_event_start:
  assumes "at_ease s" and "sys_ok n s" and "locks ev (ctl s)"
  shows "one_event n (informer_of ev) ev (ctl s) (world s) (s\<lparr>pcs := (pcs s)(informer_of ev := Trying (Some ev))\<rparr>)"
proof -
  have t: "informer_of ev \<in> set informers" by (cases ev) (simp_all add: set_informers)
  then have "external s (s\<lparr>pcs := (pcs s)(informer_of ev := Trying (Some ev))\<rparr>)"
    using assms(1,3) by (intro external.event) (simp_all add: at_ease_def)
  with external_ok [OF this assms(2)] t assms show ?thesis by (simp add: one_event_def at_ease_def)
qed

context boot_env
begin

lemma asked_settled:
  assumes "asked kube ev lbc w A T U A' T' U'" and "settled (lbc, w) A T U" and "fair_orders ord" "fair_orders ord'"
  shows "\<exists>s. turn kube hst ord ord' ev lbc w = Returns s \<and> settled s A' T' U'"
  using assms
proof induction
  case (tcp A T N old cm lbc w U)
  then show ?case using settled_tcp by blast
next
  case (udp A U N old cm lbc w T)
  then show ?case using settled_udp by blast
next
  case (pod a T U old lbc w new A)
  then show ?case using settled_pod by blast
qed

lemma asked_safe:
  assumes "asked kube ev lbc w A T U A' T' U'" and "settled (lbc, w) A T U" and "fair_orders ord" "fair_orders ord'"
  shows "turn kube hst ord ord' ev lbc w \<noteq> Panics"
  using asked_settled [OF assms] by auto

lemma settled_added: "settled (lbc, w) A T U \<Longrightarrow> settled (addrAddFunc pod lbc, w) A T U"
  using handlers_fine(4) [of lbc pod]
  by (auto simp: settled_def at_rest_def addrAddFunc_def tracked_def leftover_def Let_def split: prod.splits bool.splits)

text \<open>All that holds of a state of a spaced run.\<close>

definition spaced_ok :: "nat \<Rightarrow> 'w sys \<Rightarrow> bytes set \<Rightarrow> u16 set \<Rightarrow> u16 set \<Rightarrow> bool" where
  "spaced_ok n s A T U \<longleftrightarrow> sys_ok n s \<and> at_ease s \<and> settled (ctl s, world s) A T U"

text \<open>After an event: no panic on the way, and a turn when at ease again.\<close>

lemma event_run:
  assumes s: "spaced_ok n s A T U" and ask: "asked kube ev (ctl s) (world s) A T U A' T' U'" and n: "0 < n"
    and run: "(internal kube hst n)\<^sup>*\<^sup>* (s\<lparr>pcs := (pcs s)(informer_of ev := Trying (Some ev))\<rparr>) s'"
  shows "sys_ok n s' \<and> \<not> crashed s' \<and> (at_ease s' \<longrightarrow> spaced_ok n s' A' T' U')"
proof -
  have "one_event n (informer_of ev) ev (ctl s) (world s) (s\<lparr>pcs := (pcs s)(informer_of ev := Trying (Some ev))\<rparr>)"
    using s asked_locks [OF ask] by (intro one_event_start) (simp_all add: spaced_ok_def)
  moreover have "settled (ctl s, world s) A T U" using s by (simp add: spaced_ok_def)
  ultimately have r: "one_event n (informer_of ev) ev (ctl s) (world s) s' \<or> (\<exists>ord l w'. fair_orders ord \<and>
      handle kube ord ev (ctl s) (world s) = Returns (l, w') \<and> one_item hst n l w' s')"
    using one_event_run [OF run _ n] asked_safe [OF ask] by blast
  then have ok: "sys_ok n s' \<and> \<not> crashed s'" by (auto simp: one_event_def one_item_def)
  moreover have "spaced_ok n s' A' T' U'" if e: "at_ease s'"
  proof -
    obtain ord ord' where "fair_orders ord" "fair_orders ord'"
      "turn kube hst ord ord' ev (ctl s) (world s) = Returns (ctl s', world s')"
      using one_event_done [OF r e] by blast
    then have "settled (ctl s', world s') A' T' U'"
      using asked_settled [OF ask \<open>settled (ctl s, world s) A T U\<close>] by fastforce
    with ok e show ?thesis by (simp add: spaced_ok_def)
  qed
  ultimately show ?thesis by blast
qed

text \<open>The start: no panic on the way, and the first item is applied when at ease.\<close>

definition booting :: "nat \<Rightarrow> bytes set \<Rightarrow> u16 set \<Rightarrow> u16 set \<Rightarrow> 'w sys \<Rightarrow> bool" where
  "booting n A T U s \<longleftrightarrow> sys_ok n s \<and> \<not> crashed s \<and> (\<forall>t \<in> set informers. pcs s t = Idle) \<and>
     (primed (ctl s, world s) A T U \<and> one_line_keys (plbdata (ctl s)) A \<or> settled (ctl s, world s) A T U)"

lemma primed_added:
  assumes "primed (lbc, w) A T U" and "one_line_keys (plbdata lbc) A" and "knows_pod A pod"
  shows "primed (addrAddFunc pod lbc, w) A T U \<and> one_line_keys (plbdata (addrAddFunc pod lbc)) A"
  using addrAddFunc_shape [OF assms(3), of lbc]
proof
  assume "\<exists>key ip. \<not> one_line key \<and> hd (Split key CHR ''_'') = addition \<and> addr4 ip \<in> Some ` A \<and>
      addrAddFunc pod lbc = lbc\<lparr>plbdata := (plbdata lbc)\<lparr>Addr := go_put key ip (Addr (plbdata lbc))\<rparr>\<rparr>"
  then obtain key ip where k: "\<not> one_line key" "hd (Split key CHR ''_'') = addition" "addr4 ip \<in> Some ` A"
    "addrAddFunc pod lbc = lbc\<lparr>plbdata := (plbdata lbc)\<lparr>Addr := go_put key ip (Addr (plbdata lbc))\<rparr>\<rparr>" by blast
  let ?lb = "(plbdata lbc)\<lparr>Addr := go_put key ip (Addr (plbdata lbc))\<rparr>"
  have o: "one_line_keys ?lb A" unfolding one_line_keys_def
  proof
    fix a assume "a \<in> A"
    then obtain key' ip' where "one_line key'" "map_of (Addr (plbdata lbc)) key' = Some ip'" "addr4 ip' = Some a"
      using assms(2) by (auto simp: one_line_keys_def)
    with k(1) show "\<exists>key ip. one_line key \<and> map_of (Addr ?lb) key = Some ip \<and> addr4 ip = Some a" by fastforce
  qed
  have "addrs_with addition (plbdata lbc) A" using assms(1) by (simp add: primed_def)
  then have "\<forall>key' ip'. map_of (Addr ?lb) key' = Some ip' \<longrightarrow> hd (Split key' CHR ''_'') = addition \<and> addr4 ip' \<in> Some ` A"
    using k(2,3) by (auto simp: addrs_with_def)
  moreover have "\<forall>a \<in> A. \<exists>key' ip'. map_of (Addr ?lb) key' = Some ip' \<and> addr4 ip' = Some a"
    using o unfolding one_line_keys_def by blast
  ultimately have "addrs_with addition ?lb A" unfolding addrs_with_def by blast
  moreover have "wf_lbc (addrAddFunc pod lbc)" using handlers_fine(4) [of lbc pod] assms(1) by (simp add: primed_def)
  ultimately show ?thesis using assms(1) o by (simp add: primed_def k(4))
qed (use assms(1,2) in simp)

lemma booting_inner:
  assumes "internal kube hst n s s'" and b: "booting n A T U s" and n: "0 < n"
  shows "booting n A T U s'"
proof -
  have ok: "sys_ok n s'" using internal_ok [OF assms(1) _ n] b by (simp add: booting_def)
  have idle: "pcs s t = Idle" if "t \<in> set informers" for t using b that by (simp add: booting_def)
  have turn: "processFunc hst ord (ctl s) (world s) = Cond_waits \<or>
      (\<exists>st. processFunc hst ord (ctl s) (world s) = Returns st \<and> settled st A T U)" if "fair_orders ord" for ord
  proof (cases "settled (ctl s, world s) A T U")
    case True
    then show ?thesis using processFunc_cases [of "ctl s" hst ord "world s"] by (simp add: settled_def at_rest_def)
  next
    case False
    then show ?thesis using primed_settles [OF _ that] b by (auto simp: booting_def)
  qed
  from assms(1) show ?thesis
  proof cases
    case (process t ord l w')
    then have "settled (l, w') A T U" using turn [of ord] by auto
    with process ok b informer_worker [OF _ process(3)] show ?thesis by (auto simp: booting_def)
  next
    case (park_worker t ord)
    with ok b informer_worker [OF _ park_worker(3)] show ?thesis by (auto simp: booting_def)
  next
    case (broadcast t)
    with ok b informer_worker [OF _ broadcast(3)] show ?thesis by (auto simp: booting_def)
  next
    case (panic_worker t ord)
    then show ?thesis using turn [of ord] by auto
  qed (use idle in auto)
qed

lemma booting_told:
  assumes b: "booting n A T U s" and "knows_pod A pod"
  shows "booting n A T U (s\<lparr>ctl := addrAddFunc pod (ctl s)\<rparr>)"
proof -
  have "pcs s PodInf = Idle" using b by (simp add: booting_def set_informers)
  then have "sys_ok n (s\<lparr>ctl := addrAddFunc pod (ctl s)\<rparr>)"
    using b by (intro external_ok [OF external.added]) (simp_all add: booting_def)
  with b primed_added [OF _ _ assms(2)] settled_added show ?thesis by (auto simp: booting_def)
qed

lemma booting_run:
  assumes "(boot_step kube hst n A)\<^sup>*\<^sup>* s s'" and "booting n A T U s" and "0 < n"
  shows "booting n A T U s'"
  using assms(1)
proof induction
  case (step y z)
  from step(2,3) show ?case by cases (auto intro: booting_inner [OF _ _ assms(3)] booting_told)
qed (rule assms(2))

lemma booting_start:
  assumes "primed (lbc, w) A T U" and "one_line_keys (plbdata lbc) A" and "0 < n"
  shows "started n (running lbc w)" "booting n A T U (running lbc w)"
proof -
  show "started n (running lbc w)"
    using assms(1) by (auto simp: started_def running_def set_informers set_workers primed_def)
  from started_ok [OF this assms(3)] show "booting n A T U (running lbc w)"
    using assms(1,2) by (simp add: booting_def running_def set_informers)
qed

lemma booting_done:
  assumes "booting n A T U s" and "at_ease s"
  shows "spaced_ok n s A T U"
  using assms by (auto simp: booting_def spaced_ok_def at_ease_def primed_def)

text \<open>The state in which \<open>Run\<close> starts.\<close>

lemma boot_starts:
  assumes "invar w" and "fair_orders ord" and "NewLoadBalancerController hst cfg w = Some (lbc0, w0)"
    and "list_cms kube (nginxServer lbc0) w0 = (Inr cms, w1)" "good_cms cms"
      "0 \<notin> cm_ports tcpService cms" "0 \<notin> cm_ports udpService cms"
    and "list_pods kube (nginxServer lbc0) w1 = (Inr pods, w2)" "good_pods pods"
    and "\<forall>pod \<in> set pods. one_line (pod_Name pod)"
    and "Initial kube ord lbc0 w0 = Returns (None, lbc1, w2)" and "0 < n"
  shows "started n (running lbc1 w2) \<and>
    booting n (pod_addrs pods) (cm_ports tcpService cms) (cm_ports udpService cms) (running lbc1 w2)"
proof -
  let ?A = "pod_addrs pods" and ?T = "cm_ports tcpService cms" and ?U = "cm_ports udpService cms"
  have p: "primed (lbc1, w2) ?A ?T ?U" "dom (map_of (Addr (plbdata lbc1))) \<subseteq> (\<lambda>pod. ''adding_'' @ pod_Name pod) ` set pods"
    using boot_primes [OF assms(1-9)] assms(11) by auto
  then have "one_line_keys (plbdata lbc1) ?A"
    by (intro listed_one_line [OF _ p(2) assms(10)]) (simp add: primed_def)
  from booting_start [OF p(1) this assms(12)] show ?thesis by simp
qed

lemma spaced_run_ok:
  assumes quiet: "\<And>w w'. elsewhere w w' \<Longrightarrow> invar w \<Longrightarrow> invar w' \<and> view w' = view w" and n: "0 < n"
    and run: "spaced_run invar elsewhere kube hst cfg n s A T U"
  shows "spaced_ok n s A T U"
  using run
proof induction
  case (start w ord lbc0 w0 cms w1 pods w2 lbc1 s)
  from boot_starts [OF start(1-11) n] booting_run [OF start(12) _ n] booting_done [OF _ start(13)] show ?case by blast
next
  case (event s A T U ev A' T' U' s')
  from event_run [OF event(5,2) n event(3)] event(4) show ?case by blast
next
  case (added s A T U pod)
  have "pcs s PodInf = Idle" using added(2) by (simp add: spaced_ok_def at_ease_def set_informers)
  then have "sys_ok n (s\<lparr>ctl := addrAddFunc pod (ctl s)\<rparr>)"
    using added(2) by (intro external_ok [OF external.added]) (simp_all add: spaced_ok_def)
  moreover have "lbstore (addrAddFunc pod (ctl s)) = lbstore (ctl s)"
    by (auto simp: addrAddFunc_def Let_def split: prod.splits bool.splits)
  ultimately show ?case using added(2) settled_added by (simp add: spaced_ok_def at_ease_def)
next
  case (elsewhere s A T U w')
  then show ?case using quiet [OF elsewhere(2)]
    by (auto simp: spaced_ok_def at_ease_def sys_ok_def settled_def good_world_def)
next
  case (stir s A T U s')
  from ease_step [OF stir(2)] internal_ok [OF stir(2) _ n] stir(3) show ?case by (simp add: spaced_ok_def)
qed

end

end
