(* ===== verification/Indexer.thy ===== *)
theory Indexer
  imports Go_Lib "HOL-Library.Multiset"
begin

text \<open>
  The cache behind the listers: \<open>threadSafeMap\<close> of \<open>client-go/tools/cache/thread_safe_store.go\<close>
  with the methods of \<open>cache\<close> (\<open>store.go\<close>) over it. An object is what its readers look at:
  namespace, name, labels and the rest. A nil index and an empty one read the same, so the
  indices are a function from index name and index value to the keys; a loop over the indexers
  works on one index per iteration, so it is written pointwise. The methods run under the
  store's lock.
\<close>

record Meta =
  ob_Namespace :: string
  ob_Name :: string
  ob_Labels :: "(string, string) gomap"

record 'v object = Meta +
  ob_Body :: 'v

abbreviation metadata :: "'v object \<Rightarrow> Meta" where
  "metadata ob \<equiv> Meta.truncate ob"

datatype api_error = NotFound string string | AlreadyExists string string | BadRequest string | OtherError error

section \<open>The store\<close>

text \<open>An index function looks at the metadata only.\<close>

type_synonym index_func = "Meta \<Rightarrow> string list"

record 'v store =
  items :: "(string, 'v object) gomap"
  indexers :: "string \<Rightarrow> index_func option"
  indices :: "string \<Rightarrow> string \<Rightarrow> string list"

definition NewThreadSafeStore :: "(string \<Rightarrow> index_func option) \<Rightarrow> 'v store" where
  "NewThreadSafeStore ixs = \<lparr>items = [], indexers = ixs, indices = (\<lambda>_ _. [])\<rparr>"

definition deleteFromIndices :: "'v object \<Rightarrow> string \<Rightarrow> 'v store \<Rightarrow> 'v store" where
  "deleteFromIndices obj key st = st\<lparr>indices := (\<lambda>name val.
     case indexers st name of
       Some f \<Rightarrow> if val \<in> set (f (metadata obj)) then removeAll key (indices st name val) else indices st name val
     | None \<Rightarrow> indices st name val)\<rparr>"

definition updateIndices :: "'v object option \<Rightarrow> 'v object \<Rightarrow> string \<Rightarrow> 'v store \<Rightarrow> 'v store" where
  "updateIndices oldObj newObj key st =
     (let st1 = (case oldObj of Some ob \<Rightarrow> deleteFromIndices ob key st | None \<Rightarrow> st) in
      st1\<lparr>indices := (\<lambda>name val.
        case indexers st1 name of
          Some f \<Rightarrow> if val \<in> set (f (metadata newObj)) then List.insert key (indices st1 name val) else indices st1 name val
        | None \<Rightarrow> indices st1 name val)\<rparr>)"

definition store_Add :: "string \<Rightarrow> 'v object \<Rightarrow> 'v store \<Rightarrow> 'v store" where
  "store_Add key obj st =
     (let oldObject = map_of (items st) key
      in updateIndices oldObject obj key (st\<lparr>items := go_put key obj (items st)\<rparr>))"

definition store_Delete :: "string \<Rightarrow> 'v store \<Rightarrow> 'v store" where
  "store_Delete key st =
     (case map_of (items st) key of
        Some obj \<Rightarrow> (deleteFromIndices obj key st)\<lparr>items := go_del key (items st)\<rparr>
      | None \<Rightarrow> st)"

definition store_Replace :: "(string, 'v object) gomap \<Rightarrow> 'v store \<Rightarrow> 'v store" where
  "store_Replace its st =
     fold (\<lambda>(key, item). updateIndices None item key) its (st\<lparr>items := its, indices := (\<lambda>_ _. [])\<rparr>)"

definition store_List :: "orders \<Rightarrow> 'v store \<Rightarrow> 'v object list" where
  "store_List ord st = map (\<lambda>key. the (map_of (items st) key)) (name_order ord 0 (go_keys (items st)))"

text \<open>\<open>Index\<close>: the objects under any of the index values of the given one; \<open>None\<close> is a missing index.\<close>

definition store_Index :: "orders \<Rightarrow> string \<Rightarrow> Meta \<Rightarrow> 'v store \<Rightarrow> 'v object option list option" where
  "store_Index ord name m st =
     (case indexers st name of
        None \<Rightarrow> None
      | Some f \<Rightarrow>
          (let keys = remdups (concat (map (indices st name) (f m)))
           in Some (map (map_of (items st)) (name_order ord 1 keys))))"

section \<open>The key and the index of an object\<close>

definition NamespaceIndex :: string where "NamespaceIndex = ''namespace''"

definition MetaNamespaceKeyFunc :: "'v object \<Rightarrow> string" where
  "MetaNamespaceKeyFunc obj =
     (if length (ob_Namespace obj) > 0 then ob_Namespace obj @ ''/'' @ ob_Name obj else ob_Name obj)"

definition MetaNamespaceIndexFunc :: "index_func" where
  "MetaNamespaceIndexFunc m = [ob_Namespace m]"

text \<open>The methods of \<open>cache\<close> find the key of an object themselves.\<close>

definition cache_Add :: "'v object \<Rightarrow> 'v store \<Rightarrow> 'v store" where
  "cache_Add obj st = store_Add (MetaNamespaceKeyFunc obj) obj st"

definition cache_Delete :: "'v object \<Rightarrow> 'v store \<Rightarrow> 'v store" where
  "cache_Delete obj st = store_Delete (MetaNamespaceKeyFunc obj) st"

definition cache_Replace :: "'v object list \<Rightarrow> 'v store \<Rightarrow> 'v store" where
  "cache_Replace objs st = store_Replace (fold (\<lambda>item. go_put (MetaNamespaceKeyFunc item) item) objs []) st"

section \<open>Indices and items agree\<close>

definition index_ok :: "'v store \<Rightarrow> bool" where
  "index_ok st \<longleftrightarrow> go_wf (items st) \<and>
     (\<forall>name f val key. indexers st name = Some f \<longrightarrow>
        (key \<in> set (indices st name val) \<longleftrightarrow> (\<exists>ob. map_of (items st) key = Some ob \<and> val \<in> set (f (metadata ob)))))"

definition keyed :: "(string, 'v object) gomap \<Rightarrow> bool" where
  "keyed m \<longleftrightarrow> (\<forall>key ob. map_of m key = Some ob \<longrightarrow> key = MetaNamespaceKeyFunc ob)"

lemma keyed_Nil [simp]: "keyed []"
  by (simp add: keyed_def)

lemma keyed_put: "keyed m \<Longrightarrow> keyed (go_put (MetaNamespaceKeyFunc ob) ob m)"
  by (simp add: keyed_def)

lemma keyed_fold:
  "keyed m \<Longrightarrow> go_wf m \<Longrightarrow> keyed (fold (\<lambda>item. go_put (MetaNamespaceKeyFunc item) item) objs m) \<and>
    go_wf (fold (\<lambda>item. go_put (MetaNamespaceKeyFunc item) item) objs m)"
  by (induction objs arbitrary: m) (simp_all add: keyed_put)

lemma index_ok_new: "index_ok (NewThreadSafeStore ixs)"
  by (simp add: index_ok_def NewThreadSafeStore_def)

lemma indexers_update [simp]: "indexers (deleteFromIndices ob key st) = indexers st"
  "indexers (updateIndices old ob key st) = indexers st"
  by (simp_all add: deleteFromIndices_def updateIndices_def Let_def split: option.split)

lemma items_update [simp]: "items (deleteFromIndices ob key st) = items st"
  "items (updateIndices old ob key st) = items st"
  by (simp_all add: deleteFromIndices_def updateIndices_def Let_def split: option.split)

lemma indices_delete:
  "indexers st name = Some f \<Longrightarrow> set (indices (deleteFromIndices ob key st) name val) =
    (if val \<in> set (f (metadata ob)) then set (indices st name val) - {key} else set (indices st name val))"
  by (simp add: deleteFromIndices_def)

lemma indices_update:
  "indexers st name = Some f \<Longrightarrow> set (indices (updateIndices old ob key st) name val) =
    (case old of Some o' \<Rightarrow> if val \<in> set (f (metadata o')) then set (indices st name val) - {key} else set (indices st name val)
     | None \<Rightarrow> set (indices st name val)) \<union> (if val \<in> set (f (metadata ob)) then {key} else {})"
  by (auto simp: updateIndices_def Let_def deleteFromIndices_def split: option.split)

lemma index_ok_Add:
  assumes "index_ok st"
  shows "index_ok (store_Add key obj st)"
  unfolding index_ok_def
proof (intro conjI allI impI)
  show "go_wf (items (store_Add key obj st))"
    using assms by (simp add: store_Add_def index_ok_def Let_def)
next
  fix name f val k
  assume "indexers (store_Add key obj st) name = Some f"
  then have f: "indexers st name = Some f" by (simp add: store_Add_def Let_def)
  have i: "\<And>k. k \<in> set (indices st name val) \<longleftrightarrow> (\<exists>ob. map_of (items st) k = Some ob \<and> val \<in> set (f (metadata ob)))"
    using assms f by (simp add: index_ok_def)
  show "(k \<in> set (indices (store_Add key obj st) name val)) =
      (\<exists>ob. map_of (items (store_Add key obj st)) k = Some ob \<and> val \<in> set (f (metadata ob)))"
    using i by (auto simp: store_Add_def Let_def indices_update f split: option.splits)
qed

lemma index_ok_Delete:
  assumes "index_ok st"
  shows "index_ok (store_Delete key st)"
proof (cases "map_of (items st) key")
  case (Some obj)
  show ?thesis
    unfolding index_ok_def
  proof (intro conjI allI impI)
    show "go_wf (items (store_Delete key st))" using assms Some by (simp add: store_Delete_def index_ok_def)
  next
    fix name f val k
    assume "indexers (store_Delete key st) name = Some f"
    then have f: "indexers st name = Some f" using Some by (simp add: store_Delete_def)
    have i: "\<And>k. k \<in> set (indices st name val) \<longleftrightarrow> (\<exists>ob. map_of (items st) k = Some ob \<and> val \<in> set (f (metadata ob)))"
      using assms f by (simp add: index_ok_def)
    show "(k \<in> set (indices (store_Delete key st) name val)) =
        (\<exists>ob. map_of (items (store_Delete key st)) k = Some ob \<and> val \<in> set (f (metadata ob)))"
      using i Some by (auto simp: store_Delete_def indices_delete f)
  qed
qed (use assms in \<open>simp add: store_Delete_def\<close>)

lemma fold_updateIndices:
  "items (fold (\<lambda>(key, item). updateIndices None item key) its st) = items st"
  "indexers (fold (\<lambda>(key, item). updateIndices None item key) its st) = indexers st"
  by (induction its arbitrary: st) auto

lemma fold_updateIndices_indices:
  "indexers st name = Some f \<Longrightarrow> set (indices (fold (\<lambda>(key, item). updateIndices None item key) its st) name val) =
    set (indices st name val) \<union> {key. \<exists>ob. (key, ob) \<in> set its \<and> val \<in> set (f (metadata ob))}"
  by (induction its arbitrary: st) (auto simp: indices_update split: if_splits)

lemma index_ok_Replace:
  assumes "go_wf its"
  shows "index_ok (store_Replace its st)"
  using assms
  by (auto simp: index_ok_def store_Replace_def fold_updateIndices fold_updateIndices_indices go_wf_def)

text \<open>What a list of keys selects: the objects of the items with these keys.\<close>

lemma mset_selected:
  assumes "go_wf m" and "distinct ks" and "set ks = {k. \<exists>ob. map_of m k = Some ob \<and> P ob}"
  shows "mset (map (\<lambda>k. the (map_of m k)) ks) = mset (filter P (map snd m))"
proof -
  let ?ks = "map fst (filter (\<lambda>(k, ob). P ob) m)"
  have d: "distinct (map fst m)" using assms(1) by (simp add: go_wf_def)
  then have "distinct ?ks" by (simp add: distinct_map_filter)
  moreover have "set ?ks = set ks" using d by (force simp: assms(3))
  ultimately have "mset ks = mset ?ks" using assms(2) by (metis set_eq_iff_mset_eq_distinct)
  then have "mset (map (\<lambda>k. the (map_of m k)) ks) = mset (map (\<lambda>k. the (map_of m k)) ?ks)" by (metis mset_map)
  also have "map (\<lambda>k. the (map_of m k)) ?ks = map snd (filter (\<lambda>(k, ob). P ob) m)"
    using d by auto
  also have "map snd (filter (\<lambda>(k, ob). P ob) m) = filter P (map snd m)"
    by (induction m) auto
  finally show ?thesis .
qed

lemma mset_store_List:
  assumes "fair_orders ord" and "go_wf (items st)"
  shows "mset (store_List ord st) = mset (map snd (items st))"
proof -
  have "distinct (name_order ord 0 (go_keys (items st)))" using assms by (simp add: go_wf_def)
  moreover have "set (name_order ord 0 (go_keys (items st))) = {k. \<exists>ob. map_of (items st) k = Some ob \<and> True}"
    using assms(1) by auto
  ultimately show ?thesis using mset_selected [OF assms(2), where P = "\<lambda>_. True"] by (simp add: store_List_def)
qed

lemma store_Index_Some:
  assumes "fair_orders ord" and "index_ok st" and "indexers st name = Some f"
  shows "\<exists>obs. store_Index ord name m st = Some (map Some obs) \<and>
    mset obs = mset (filter (\<lambda>ob. set (f m) \<inter> set (f (metadata ob)) \<noteq> {}) (map snd (items st)))"
proof -
  let ?keys = "remdups (concat (map (indices st name) (f m)))"
  let ?ks = "name_order ord 1 ?keys" and ?P = "\<lambda>ob. set (f m) \<inter> set (f (metadata ob)) \<noteq> {}"
  have ks: "set ?ks = {k. \<exists>ob. map_of (items st) k = Some ob \<and> ?P ob}" "distinct ?ks"
    using assms by (fastforce simp: index_ok_def)+
  have "map (map_of (items st)) ?ks = map Some (map (\<lambda>k. the (map_of (items st) k)) ?ks)"
    using ks(1) by auto
  moreover have "mset (map (\<lambda>k. the (map_of (items st) k)) ?ks) = mset (filter ?P (map snd (items st)))"
    using mset_selected [OF _ ks(2,1)] assms(2) by (simp add: index_ok_def)
  moreover have "store_Index ord name m st = Some (map (map_of (items st)) ?ks)"
    using assms(3) by (simp add: store_Index_def)
  ultimately show ?thesis by (intro exI [of _ "map (\<lambda>k. the (map_of (items st) k)) ?ks"] conjI) simp_all
qed

end
