(* ===== verification/Delta_Fifo.thy ===== *)
theory Delta_Fifo
  imports Indexer
begin

text \<open>
  The queue between a reflector and the handlers of an informer: \<open>DeltaFIFO\<close> of
  \<open>client-go/tools/cache/delta_fifo.go\<close>. It keeps, for each key, the deltas seen since the key
  was last popped, and the keys in the order in which they were first queued. Its methods run
  under its lock. What the callers put into it is typed: \<open>Sync\<close>, \<open>Added\<close> and \<open>Updated\<close> carry
  an object of the API server, \<open>Deleted\<close> carries such an object or a tombstone; the key of
  an API object can always be computed, so the error returns of \<open>KeyOf\<close> do not occur. The known
  objects are the store of the informer, or nil.
\<close>

section \<open>Deltas\<close>

datatype 'v final = Object "'v object" | DeletedFinalStateUnknown string "'v final option"

datatype 'v delta = Sync_of "'v object" | Added_of "'v object" | Updated_of "'v object" | Deleted_of "'v final"

text \<open>\<open>KeyOf\<close> with the key function \<open>MetaNamespaceKeyFunc\<close>, and the key of the object of a delta.\<close>

fun KeyOf :: "'v final \<Rightarrow> string" where
  "KeyOf (Object ob) = MetaNamespaceKeyFunc ob"
| "KeyOf (DeletedFinalStateUnknown key ob) = key"

fun delta_key :: "'v delta \<Rightarrow> string" where
  "delta_key (Sync_of ob) = MetaNamespaceKeyFunc ob"
| "delta_key (Added_of ob) = MetaNamespaceKeyFunc ob"
| "delta_key (Updated_of ob) = MetaNamespaceKeyFunc ob"
| "delta_key (Deleted_of x) = KeyOf x"

fun is_Deleted :: "'v delta \<Rightarrow> bool" where
  "is_Deleted (Deleted_of x) = True"
| "is_Deleted d = False"

fun is_Sync :: "'v delta \<Rightarrow> bool" where
  "is_Sync (Sync_of ob) = True"
| "is_Sync d = False"

text \<open>Two deletions in a row are merged: the one that knows more about the object is kept.\<close>

fun isDeletionDup :: "'v delta \<Rightarrow> 'v delta \<Rightarrow> 'v delta option" where
  "isDeletionDup (Deleted_of x) (Deleted_of (DeletedFinalStateUnknown key ob)) = Some (Deleted_of x)"
| "isDeletionDup (Deleted_of x) (Deleted_of (Object ob)) = Some (Deleted_of (Object ob))"
| "isDeletionDup a b = None"

definition isDup :: "'v delta \<Rightarrow> 'v delta \<Rightarrow> 'v delta option" where
  "isDup a b = isDeletionDup a b"

definition dedupDeltas :: "'v delta list \<Rightarrow> 'v delta list" where
  "dedupDeltas deltas =
     (let n = length deltas in
      if n < 2 then deltas
      else case isDup (deltas ! (n - 1)) (deltas ! (n - 2)) of
             Some out \<Rightarrow> take (n - 2) deltas @ [out]
           | None \<Rightarrow> deltas)"

section \<open>The queue\<close>

record 'v fifo =
  ff_items :: "(string, 'v delta list) gomap"
  ff_queue :: "string list"
  ff_populated :: bool
  ff_initialPopulationCount :: nat
  ff_closed :: bool

definition NewDeltaFIFO :: "'v fifo" where
  "NewDeltaFIFO = \<lparr>ff_items = [], ff_queue = [], ff_populated = False, ff_initialPopulationCount = 0, ff_closed = False\<rparr>"

definition fifo_Close :: "'v fifo \<Rightarrow> 'v fifo" where
  "fifo_Close f = f\<lparr>ff_closed := True\<rparr>"

definition HasSynced :: "'v fifo \<Rightarrow> bool" where
  "HasSynced f \<longleftrightarrow> ff_populated f \<and> ff_initialPopulationCount f = 0"

text \<open>Reading \<open>f.items[id]\<close>; a missing key reads as the nil slice.\<close>

definition deltas_of :: "'v fifo \<Rightarrow> string \<Rightarrow> 'v delta list" where
  "deltas_of f key = (case map_of (ff_items f) key of None \<Rightarrow> [] | Some deltas \<Rightarrow> deltas)"

definition willObjectBeDeletedLocked :: "string \<Rightarrow> 'v fifo \<Rightarrow> bool" where
  "willObjectBeDeletedLocked key f \<longleftrightarrow> deltas_of f key \<noteq> [] \<and> is_Deleted (last (deltas_of f key))"

definition queueActionLocked :: "'v delta \<Rightarrow> 'v fifo \<Rightarrow> 'v fifo" where
  "queueActionLocked d f =
     (let key = delta_key d in
      if is_Sync d \<and> willObjectBeDeletedLocked key f then f
      else
        let newDeltas = dedupDeltas (deltas_of f key @ [d]); exists = go_has (ff_items f) key in
        if newDeltas \<noteq> [] then
          f\<lparr>ff_queue := (if exists then ff_queue f else ff_queue f @ [key]),
            ff_items := go_put key newDeltas (ff_items f)\<rparr>
        else if exists then f\<lparr>ff_items := go_del key (ff_items f)\<rparr>
        else f)"

definition fifo_Add :: "'v object \<Rightarrow> 'v fifo \<Rightarrow> 'v fifo" where
  "fifo_Add obj f = queueActionLocked (Added_of obj) (f\<lparr>ff_populated := True\<rparr>)"

definition fifo_Update :: "'v object \<Rightarrow> 'v fifo \<Rightarrow> 'v fifo" where
  "fifo_Update obj f = queueActionLocked (Updated_of obj) (f\<lparr>ff_populated := True\<rparr>)"

definition fifo_Delete :: "'v store option \<Rightarrow> 'v final \<Rightarrow> 'v fifo \<Rightarrow> 'v fifo" where
  "fifo_Delete knownObjects obj f =
     (let key = KeyOf obj; f1 = f\<lparr>ff_populated := True\<rparr>; itemsExist = go_has (ff_items f) key in
      case knownObjects of
        None \<Rightarrow> if \<not> itemsExist then f1 else queueActionLocked (Deleted_of obj) f1
      | Some st \<Rightarrow>
          if \<not> go_has (items st) key \<and> \<not> itemsExist then f1 else queueActionLocked (Deleted_of obj) f1)"

definition fifo_addIfNotPresent :: "string \<Rightarrow> 'v delta list \<Rightarrow> 'v fifo \<Rightarrow> 'v fifo" where
  "fifo_addIfNotPresent key deltas f =
     (let f1 = f\<lparr>ff_populated := True\<rparr> in
      if go_has (ff_items f1) key then f1
      else f1\<lparr>ff_queue := ff_queue f1 @ [key], ff_items := go_put key deltas (ff_items f1)\<rparr>)"

text \<open>
  The object of a delta, and the tombstones \<open>Replace\<close> makes: with the object of the newest
  delta, which may be a tombstone itself, or with the known object.
\<close>

fun delta_object :: "'v delta \<Rightarrow> 'v final" where
  "delta_object (Sync_of ob) = Object ob"
| "delta_object (Added_of ob) = Object ob"
| "delta_object (Updated_of ob) = Object ob"
| "delta_object (Deleted_of x) = x"

definition Newest :: "'v delta list \<Rightarrow> 'v delta option" where
  "Newest ds = (if length ds > 0 then Some (ds ! (length ds - 1)) else None)"

definition newest_object :: "'v fifo \<Rightarrow> string \<Rightarrow> 'v final option" where
  "newest_object f k = map_option delta_object (Newest (deltas_of f k))"

definition known_object :: "'v store \<Rightarrow> 'v fifo \<Rightarrow> string \<Rightarrow> 'v final option" where
  "known_object st f k = map_option Object (map_of (items st) k)"

definition tombstone :: "('v fifo \<Rightarrow> string \<Rightarrow> 'v final option) \<Rightarrow> string \<Rightarrow> 'v fifo \<Rightarrow> 'v fifo" where
  "tombstone look k f = queueActionLocked (Deleted_of (DeletedFinalStateUnknown k (look f k))) f"

definition fifo_Replace :: "orders \<Rightarrow> 'v store option \<Rightarrow> 'v object list \<Rightarrow> 'v fifo \<Rightarrow> 'v fifo" where
  "fifo_Replace ord knownObjects objs f =
     (let keys = set (map MetaNamespaceKeyFunc objs);
          f1 = fold (\<lambda>item. queueActionLocked (Sync_of item)) objs f
      in case knownObjects of
           None \<Rightarrow>
             (let gone = filter (\<lambda>k. k \<notin> keys) (name_order ord 0 (go_keys (ff_items f1)));
                  f2 = fold (tombstone newest_object) gone f1
              in if ff_populated f2 then f2
                 else f2\<lparr>ff_populated := True, ff_initialPopulationCount := length objs\<rparr>)
         | Some st \<Rightarrow>
             (let gone = filter (\<lambda>k. k \<notin> keys) (name_order ord 0 (go_keys (items st)));
                  f2 = fold (tombstone (known_object st)) gone f1
              in if ff_populated f2 then f2
                 else f2\<lparr>ff_populated := True, ff_initialPopulationCount := length objs + length gone\<rparr>))"

definition syncKeyLocked :: "'v store \<Rightarrow> string \<Rightarrow> 'v fifo \<Rightarrow> 'v fifo" where
  "syncKeyLocked st key f =
     (case map_of (items st) key of
        None \<Rightarrow> f
      | Some obj \<Rightarrow>
          if deltas_of f (MetaNamespaceKeyFunc obj) \<noteq> [] then f else queueActionLocked (Sync_of obj) f)"

definition fifo_Resync :: "orders \<Rightarrow> 'v store option \<Rightarrow> 'v fifo \<Rightarrow> 'v fifo" where
  "fifo_Resync ord knownObjects f =
     (case knownObjects of
        None \<Rightarrow> f
      | Some st \<Rightarrow> fold (syncKeyLocked st) (name_order ord 0 (go_keys (items st))) f)"

text \<open>
  \<open>Pop\<close> runs the given function under the lock; it waits on an empty open queue and returns
  \<open>FIFOClosedError\<close> on an empty closed one. Keys without deltas are skipped. The function may
  ask for a requeue.
\<close>

datatype process_error = ErrRequeue "error option" | Process_error error

datatype ('v, 's) popped =
    Pop_waits "'v fifo"
  | FIFOClosed "'v fifo"
  | Popped "'v delta list" "error option" "'v fifo" 's

fun Pop_loop :: "('v delta list \<Rightarrow> 's \<Rightarrow> process_error option \<times> 's) \<Rightarrow> string list \<Rightarrow> 'v fifo \<Rightarrow> 's \<Rightarrow> ('v, 's) popped" where
  "Pop_loop process [] f s =
     (let f0 = f\<lparr>ff_queue := []\<rparr> in if ff_closed f then FIFOClosed f0 else Pop_waits f0)"
| "Pop_loop process (key # queue) f s =
     (let f1 = f\<lparr>ff_queue := queue, ff_initialPopulationCount := ff_initialPopulationCount f - 1\<rparr> in
      case map_of (ff_items f) key of
        None \<Rightarrow> Pop_loop process queue f1 s
      | Some item \<Rightarrow>
          (let f2 = f1\<lparr>ff_items := go_del key (ff_items f1)\<rparr>; (err, s') = process item s in
           case err of
             Some (ErrRequeue e) \<Rightarrow> Popped item e (fifo_addIfNotPresent key item f2) s'
           | Some (Process_error e) \<Rightarrow> Popped item (Some e) f2 s'
           | None \<Rightarrow> Popped item None f2 s'))"

definition fifo_Pop :: "('v delta list \<Rightarrow> 's \<Rightarrow> process_error option \<times> 's) \<Rightarrow> 'v fifo \<Rightarrow> 's \<Rightarrow> ('v, 's) popped" where
  "fifo_Pop process f s = Pop_loop process (ff_queue f) f s"

section \<open>The queue and its items agree\<close>

text \<open>
  What the comments on \<open>DeltaFIFO\<close> promise: the queue holds each key of the items once, and
  every key has at least one delta, all of them deltas of that key.
\<close>

definition fifo_ok :: "'v fifo \<Rightarrow> bool" where
  "fifo_ok f \<longleftrightarrow> go_wf (ff_items f) \<and> distinct (ff_queue f) \<and> set (ff_queue f) = dom (map_of (ff_items f)) \<and>
     (\<forall>key ds. map_of (ff_items f) key = Some ds \<longrightarrow> ds \<noteq> [] \<and> (\<forall>d \<in> set ds. delta_key d = key))"

lemma fifo_okD:
  assumes "fifo_ok f"
  shows "go_wf (ff_items f)" "distinct (ff_queue f)" "set (ff_queue f) = dom (map_of (ff_items f))"
    "deltas_of f k = [] \<longleftrightarrow> k \<notin> set (ff_queue f)" "d \<in> set (deltas_of f k) \<Longrightarrow> delta_key d = k"
proof -
  note ok = assms [unfolded fifo_ok_def]
  from ok show "go_wf (ff_items f)" "distinct (ff_queue f)" "set (ff_queue f) = dom (map_of (ff_items f))" by simp_all
  show "deltas_of f k = [] \<longleftrightarrow> k \<notin> set (ff_queue f)"
  proof (cases "map_of (ff_items f) k")
    case (Some ds)
    then have "ds \<noteq> []" using ok by blast
    with Some ok show ?thesis by (simp add: deltas_of_def domIff)
  qed (use ok in \<open>simp add: deltas_of_def domIff\<close>)
  show "delta_key d = k" if "d \<in> set (deltas_of f k)"
  proof (cases "map_of (ff_items f) k")
    case (Some ds)
    with that have "d \<in> set ds" by (simp add: deltas_of_def)
    with Some ok show ?thesis by blast
  qed (use that in \<open>simp add: deltas_of_def\<close>)
qed

lemma go_has_deltas: "fifo_ok f \<Longrightarrow> go_has (ff_items f) k \<longleftrightarrow> deltas_of f k \<noteq> []"
  by (simp add: go_has_dom fifo_okD)

lemma fifo_ok_new: "fifo_ok NewDeltaFIFO"
  by (simp add: fifo_ok_def NewDeltaFIFO_def)

lemma fifo_ok_flags [simp]:
  "fifo_ok (f\<lparr>ff_populated := b\<rparr>) = fifo_ok f" "fifo_ok (f\<lparr>ff_initialPopulationCount := n\<rparr>) = fifo_ok f"
  "deltas_of (f\<lparr>ff_populated := b\<rparr>) = deltas_of f" "deltas_of (f\<lparr>ff_initialPopulationCount := n\<rparr>) = deltas_of f"
  by (auto simp: fifo_ok_def deltas_of_def fun_eq_iff)

text \<open>What a new delta makes of the deltas of its key.\<close>

definition merged :: "'v delta \<Rightarrow> 'v delta \<Rightarrow> 'v delta" where
  "merged a b = (case isDup a b of Some out \<Rightarrow> out | None \<Rightarrow> a)"

lemma isDup_deletions: "(\<exists>out. isDup a b = Some out) \<longleftrightarrow> is_Deleted a \<and> is_Deleted b"
  unfolding isDup_def by (cases "(a, b)" rule: isDeletionDup.cases) auto

lemma merged_deletion:
  assumes "is_Deleted a" and "is_Deleted b" and "delta_key a = k" and "delta_key b = k"
  shows "is_Deleted (merged a b)" "delta_key (merged a b) = k"
  using assms unfolding merged_def isDup_def by (cases "(a, b)" rule: isDeletionDup.cases; simp)+

lemma dedup_append:
  "dedupDeltas (ds @ [d]) =
    (if ds \<noteq> [] \<and> is_Deleted d \<and> is_Deleted (last ds) then butlast ds @ [merged d (last ds)] else ds @ [d])"
proof (cases ds rule: rev_exhaust)
  case (snoc ds' b)
  have "isDup d b = None \<longleftrightarrow> \<not> (is_Deleted d \<and> is_Deleted b)" using isDup_deletions [of d b] by auto
  with snoc show ?thesis
    by (auto simp: dedupDeltas_def Let_def nth_append merged_def numeral_2_eq_2 split: option.split)
qed (simp add: dedupDeltas_def)

lemma dedup_nonempty [simp]: "dedupDeltas (ds @ [d]) \<noteq> []"
  by (simp add: dedup_append)

text \<open>The two effects of an action: none, or a key that gets its new deltas.\<close>

definition ignored :: "'v delta \<Rightarrow> 'v fifo \<Rightarrow> bool" where
  "ignored d f \<longleftrightarrow> is_Sync d \<and> willObjectBeDeletedLocked (delta_key d) f"

lemma action_ignored: "ignored d f \<Longrightarrow> queueActionLocked d f = f"
  by (simp add: queueActionLocked_def ignored_def Let_def)

lemma action_queue:
  assumes "fifo_ok f" and "\<not> ignored d f"
  shows "ff_queue (queueActionLocked d f) =
    (if delta_key d \<in> set (ff_queue f) then ff_queue f else ff_queue f @ [delta_key d])"
  using assms by (auto simp: queueActionLocked_def ignored_def Let_def go_has_deltas fifo_okD)

lemma action_deltas:
  assumes "\<not> ignored d f"
  shows "deltas_of (queueActionLocked d f) =
    (deltas_of f)(delta_key d := dedupDeltas (deltas_of f (delta_key d) @ [d]))"
  using assms by (auto simp: queueActionLocked_def ignored_def Let_def deltas_of_def fun_eq_iff)

lemma action_frame:
  "ff_populated (queueActionLocked d f) = ff_populated f"
  "ff_initialPopulationCount (queueActionLocked d f) = ff_initialPopulationCount f"
  "ff_closed (queueActionLocked d f) = ff_closed f"
  by (simp_all add: queueActionLocked_def Let_def)

lemma fifo_ok_action:
  assumes ok: "fifo_ok f"
  shows "fifo_ok (queueActionLocked d f)"
proof (cases "ignored d f")
  case False
  let ?k = "delta_key d" and ?ds = "deltas_of f (delta_key d)"
  have keys: "\<forall>a \<in> set (dedupDeltas (?ds @ [d])). delta_key a = ?k"
  proof (cases "?ds \<noteq> [] \<and> is_Deleted d \<and> is_Deleted (last ?ds)")
    case True
    then have "delta_key (last ?ds) = ?k" using fifo_okD(5) [OF ok] by simp
    with True show ?thesis
      using fifo_okD(5) [OF ok] by (auto simp: dedup_append merged_deletion dest: in_set_butlastD)
  qed (use fifo_okD(5) [OF ok] in \<open>auto simp: dedup_append\<close>)
  have eq: "queueActionLocked d f = f\<lparr>ff_queue := (if go_has (ff_items f) ?k then ff_queue f else ff_queue f @ [?k]),
      ff_items := go_put ?k (dedupDeltas (?ds @ [d])) (ff_items f)\<rparr>"
    using False by (auto simp: queueActionLocked_def ignored_def Let_def)
  show ?thesis
    using ok keys unfolding eq fifo_ok_def by (auto simp: go_has_dom)
qed (simp add: action_ignored ok)

section \<open>What is pending\<close>

text \<open>
  What the consumer of the queue will know of a key once it has handled the deltas: the
  object of the newest delta, nothing after a deletion, and what it knows now (the map \<open>m\<close>)
  if there are no deltas.
\<close>

fun delta_view :: "'v delta \<Rightarrow> 'v object option" where
  "delta_view (Sync_of ob) = Some ob"
| "delta_view (Added_of ob) = Some ob"
| "delta_view (Updated_of ob) = Some ob"
| "delta_view (Deleted_of x) = None"

lemma delta_view_None: "delta_view d = None \<longleftrightarrow> is_Deleted d"
  by (cases d) simp_all

definition pending :: "'v fifo \<Rightarrow> (string \<Rightarrow> 'v object option) \<Rightarrow> string \<Rightarrow> 'v object option" where
  "pending f m key = (if deltas_of f key = [] then m key else delta_view (last (deltas_of f key)))"

lemma pending_flags [simp]:
  "pending (f\<lparr>ff_populated := b\<rparr>) m = pending f m" "pending (f\<lparr>ff_initialPopulationCount := n\<rparr>) m = pending f m"
  by (simp_all add: pending_def fun_eq_iff)

lemma pending_deleted: "willObjectBeDeletedLocked key f \<longleftrightarrow> deltas_of f key \<noteq> [] \<and> pending f m key = None"
  by (auto simp: willObjectBeDeletedLocked_def pending_def delta_view_None)

lemma last_dedup_view:
  assumes "fifo_ok f"
  shows "delta_view (last (dedupDeltas (deltas_of f (delta_key d) @ [d]))) = delta_view d"
proof (cases "deltas_of f (delta_key d) \<noteq> [] \<and> is_Deleted d \<and> is_Deleted (last (deltas_of f (delta_key d)))")
  case True
  then have "is_Deleted (merged d (last (deltas_of f (delta_key d))))"
    using fifo_okD(5) [OF assms] by (intro merged_deletion(1) [of _ _ "delta_key d"]) simp_all
  then have "delta_view (merged d (last (deltas_of f (delta_key d)))) = None" "delta_view d = None"
    using True by (simp_all add: delta_view_None)
  with True show ?thesis by (simp add: dedup_append)
next
  case False
  then show ?thesis by (simp only: dedup_append if_False last_snoc)
qed

lemma pending_action:
  assumes "fifo_ok f" and "\<not> ignored d f"
  shows "pending (queueActionLocked d f) m = (pending f m)(delta_key d := delta_view d)"
  using last_dedup_view [OF assms(1), of d]
  by (auto simp: pending_def action_deltas [OF assms(2)] fun_eq_iff)

text \<open>
  Deltas a consumer can follow, when \<open>b\<close> says whether it has the object: a deletion comes
  only when it has one.
\<close>

fun chain :: "bool \<Rightarrow> 'v delta list \<Rightarrow> bool" where
  "chain b [] \<longleftrightarrow> True"
| "chain b (d # ds) \<longleftrightarrow> (is_Deleted d \<longrightarrow> b) \<and> chain (\<not> is_Deleted d) ds"

lemma chain_append:
  "chain b (ds @ [d]) \<longleftrightarrow> chain b ds \<and> (is_Deleted d \<longrightarrow> (if ds = [] then b else \<not> is_Deleted (last ds)))"
  by (induction ds arbitrary: b) auto

definition chained :: "'v fifo \<Rightarrow> (string \<Rightarrow> 'v object option) \<Rightarrow> bool" where
  "chained f m \<longleftrightarrow> (\<forall>key. chain (m key \<noteq> None) (deltas_of f key))"

lemma chained_flags [simp]:
  "chained (f\<lparr>ff_populated := b\<rparr>) m = chained f m" "chained (f\<lparr>ff_initialPopulationCount := n\<rparr>) m = chained f m"
  by (simp_all add: chained_def)

lemma chain_dedup:
  assumes "chain b ds" and "is_Deleted d \<Longrightarrow> ds = [] \<Longrightarrow> b" and "\<And>a. a \<in> set ds \<Longrightarrow> delta_key a = delta_key d"
  shows "chain b (dedupDeltas (ds @ [d]))"
proof (cases "ds \<noteq> [] \<and> is_Deleted d \<and> is_Deleted (last ds)")
  case True
  then obtain ds' a where ds: "ds = ds' @ [a]" by (cases ds rule: rev_exhaust) simp_all
  have "is_Deleted (merged d a)"
    using True assms(3) unfolding ds by (intro merged_deletion(1) [of _ _ "delta_key d"]) simp_all
  then show ?thesis using True assms(1) dedup_append [of ds d] unfolding ds by (simp add: chain_append)
qed (use assms(1,2) in \<open>auto simp: dedup_append chain_append\<close>)

lemma chained_action:
  assumes ok: "fifo_ok f" and "chained f m"
    and "is_Deleted d \<Longrightarrow> m (delta_key d) \<noteq> None \<or> deltas_of f (delta_key d) \<noteq> []"
  shows "chained (queueActionLocked d f) m"
proof (cases "ignored d f")
  case False
  have "chain (m (delta_key d) \<noteq> None) (dedupDeltas (deltas_of f (delta_key d) @ [d]))"
    using assms(2,3) fifo_okD(5) [OF ok] by (intro chain_dedup) (auto simp: chained_def)
  with assms(2) show ?thesis by (simp add: chained_def action_deltas [OF False])
qed (simp add: action_ignored assms(2))

end
