(* ===== verification/Informer_Run.thy ===== *)
theory Informer_Run
  imports Delta_Fifo
begin

text \<open>
  An informer as \<open>NewInformer\<close> of \<open>client-go/tools/cache/controller.go\<close> builds it: a reflector
  puts what it lists and watches into a \<open>DeltaFIFO\<close>, the process loop pops it, keeps the store
  (the client state) and calls the handlers. Both run under the lock of the queue, so a run is a
  sequence of their turns. The calls are recorded in order; a handler does not touch the queue
  or the store.

  Shown, turn by turn: the queue is in order, the calls replay to the store, and what is
  pending is what the server told last, unless a relist meets one of two states of the queue
  (\<open>relist_ok\<close>). Whole runs are in \<open>Informer_Correct\<close>.
\<close>

section \<open>The process function\<close>

datatype 'v notification = OnAdd "'v object" | OnUpdate "'v object" "'v object" | OnDelete "'v final"

definition NewStore :: "'v store" where
  "NewStore = NewThreadSafeStore (\<lambda>_. None)"

definition cache_GetByKey :: "string \<Rightarrow> 'v store \<Rightarrow> 'v object option" where
  "cache_GetByKey key st = map_of (items st) key"

definition cache_Get :: "'v object \<Rightarrow> 'v store \<Rightarrow> 'v object option" where
  "cache_Get obj st = cache_GetByKey (MetaNamespaceKeyFunc obj) st"

definition cache_Update :: "'v object \<Rightarrow> 'v store \<Rightarrow> 'v store" where
  "cache_Update obj st = store_Add (MetaNamespaceKeyFunc obj) obj st"

fun DeletionHandlingMetaNamespaceKeyFunc :: "'v final \<Rightarrow> string" where
  "DeletionHandlingMetaNamespaceKeyFunc (DeletedFinalStateUnknown key ob) = key"
| "DeletionHandlingMetaNamespaceKeyFunc (Object ob) = MetaNamespaceKeyFunc ob"

definition Process_put :: "'v object \<Rightarrow> 'v store \<Rightarrow> 'v notification \<times> 'v store" where
  "Process_put ob st =
     (case cache_Get ob st of
        Some old \<Rightarrow> (OnUpdate old ob, cache_Update ob st)
      | None \<Rightarrow> (OnAdd ob, cache_Add ob st))"

fun Process_delta :: "'v delta \<Rightarrow> 'v store \<Rightarrow> 'v notification \<times> 'v store" where
  "Process_delta (Sync_of ob) st = Process_put ob st"
| "Process_delta (Added_of ob) st = Process_put ob st"
| "Process_delta (Updated_of ob) st = Process_put ob st"
| "Process_delta (Deleted_of x) st = (OnDelete x, store_Delete (DeletionHandlingMetaNamespaceKeyFunc x) st)"

text \<open>From oldest to newest; the process function never fails, since the keys can be computed.\<close>

fun Process :: "'v delta list \<Rightarrow> 'v store \<Rightarrow> 'v notification list \<times> 'v store" where
  "Process [] st = ([], st)"
| "Process (d # ds) st =
     (let (c, st1) = Process_delta d st; (cs, st2) = Process ds st1 in (c # cs, st2))"

section \<open>Turns of an informer\<close>

record 'v informer_state =
  is_fifo :: "'v fifo"
  is_store :: "'v store"
  is_calls :: "'v notification list"

definition NewInformer :: "'v informer_state" where
  "NewInformer = \<lparr>is_fifo = NewDeltaFIFO, is_store = NewStore, is_calls = []\<rparr>"

text \<open>A turn of \<open>processLoop\<close>; on an empty queue it waits.\<close>

definition informer_process :: "'v delta list \<Rightarrow> 'v store \<times> 'v notification list
    \<Rightarrow> process_error option \<times> ('v store \<times> 'v notification list)" where
  "informer_process ds = (\<lambda>(st, cs). let (cs', st') = Process ds st in (None, (st', cs @ cs')))"

definition processLoop_turn :: "'v informer_state \<Rightarrow> 'v informer_state" where
  "processLoop_turn s =
     (case fifo_Pop informer_process (is_fifo s) (is_store s, is_calls s) of
        Popped ds err f (st, cs) \<Rightarrow> s\<lparr>is_fifo := f, is_store := st, is_calls := cs\<rparr>
      | Pop_waits f \<Rightarrow> s\<lparr>is_fifo := f\<rparr>
      | FIFOClosed f \<Rightarrow> s\<lparr>is_fifo := f\<rparr>)"

text \<open>
  A turn of the reflector: \<open>syncWith\<close> after a list, one event of \<open>watchHandler\<close>, or a resync.
  An error event, or one of a type that is not understood, leaves the queue as it is.
\<close>

datatype 'v watch_event = Watch_Added "'v object" | Watch_Modified "'v object" | Watch_Deleted "'v object"
  | Watch_Error error | Watch_Other

text \<open>What a reflector calls on its \<open>Store\<close>.\<close>

record ('v, 's) reflected =
  rs_Add :: "'v object \<Rightarrow> 's \<Rightarrow> 's"
  rs_Update :: "'v object \<Rightarrow> 's \<Rightarrow> 's"
  rs_Delete :: "'v object \<Rightarrow> 's \<Rightarrow> 's"
  rs_Replace :: "'v object list \<Rightarrow> 's \<Rightarrow> 's"
  rs_Resync :: "'s \<Rightarrow> 's"

definition syncWith :: "('v, 's) reflected \<Rightarrow> 'v object list \<Rightarrow> 's \<Rightarrow> 's" where
  "syncWith r_store objs = rs_Replace r_store objs"

fun watchHandler_turn :: "('v, 's) reflected \<Rightarrow> 'v watch_event \<Rightarrow> 's \<Rightarrow> 's" where
  "watchHandler_turn r_store (Watch_Added ob) s = rs_Add r_store ob s"
| "watchHandler_turn r_store (Watch_Modified ob) s = rs_Update r_store ob s"
| "watchHandler_turn r_store (Watch_Deleted ob) s = rs_Delete r_store ob s"
| "watchHandler_turn r_store (Watch_Error err) s = s"
| "watchHandler_turn r_store Watch_Other s = s"

text \<open>The store of an informer's reflector is its queue, with the informer's own store as the known objects.\<close>

definition fifo_store :: "orders \<Rightarrow> ('v, 'v informer_state) reflected" where
  "fifo_store ord = \<lparr>rs_Add = (\<lambda>ob s. s\<lparr>is_fifo := fifo_Add ob (is_fifo s)\<rparr>),
     rs_Update = (\<lambda>ob s. s\<lparr>is_fifo := fifo_Update ob (is_fifo s)\<rparr>),
     rs_Delete = (\<lambda>ob s. s\<lparr>is_fifo := fifo_Delete (Some (is_store s)) (Object ob) (is_fifo s)\<rparr>),
     rs_Replace = (\<lambda>objs s. s\<lparr>is_fifo := fifo_Replace ord (Some (is_store s)) objs (is_fifo s)\<rparr>),
     rs_Resync = (\<lambda>s. s\<lparr>is_fifo := fifo_Resync ord (Some (is_store s)) (is_fifo s)\<rparr>)\<rparr>"

text \<open>A reflector may also fill a plain cache.\<close>

definition cache_store :: "('v, 'v store) reflected" where
  "cache_store = \<lparr>rs_Add = cache_Add, rs_Update = cache_Update, rs_Delete = cache_Delete, rs_Replace = cache_Replace,
     rs_Resync = (\<lambda>st. st)\<rparr>"

section \<open>Runs\<close>

datatype 'v turn = Listed "'v object list" | Watched "'v watch_event" | Resynced | Processed

text \<open>A turn on a store \<open>r_store\<close> with consumer \<open>pop\<close>; the reflector has all turns but \<open>Processed\<close>.\<close>

fun take_turn :: "('v, 's) reflected \<Rightarrow> ('s \<Rightarrow> 's) \<Rightarrow> 'v turn \<Rightarrow> 's \<Rightarrow> 's" where
  "take_turn r_store pop (Listed objs) s = syncWith r_store objs s"
| "take_turn r_store pop (Watched ev) s = watchHandler_turn r_store ev s"
| "take_turn r_store pop Resynced s = rs_Resync r_store s"
| "take_turn r_store pop Processed s = pop s"

text \<open>The \<open>n\<close>-th turn has its own orders of the range loops.\<close>

fun run_turns :: "(orders \<Rightarrow> ('v, 's) reflected) \<Rightarrow> ('s \<Rightarrow> 's) \<Rightarrow> (nat \<Rightarrow> orders) \<Rightarrow> 'v turn list \<Rightarrow> 's \<Rightarrow> 's" where
  "run_turns r_store pop ords [] s = s"
| "run_turns r_store pop ords (t # ts) s =
     run_turns r_store pop (\<lambda>n. ords (Suc n)) ts (take_turn (r_store (ords 0)) pop t s)"

abbreviation informer_run :: "(nat \<Rightarrow> orders) \<Rightarrow> 'v turn list \<Rightarrow> 'v informer_state \<Rightarrow> 'v informer_state" where
  "informer_run \<equiv> run_turns fifo_store processLoop_turn"

text \<open>Each list of the run meets \<open>accepts\<close> when it is put into the store.\<close>

fun lists_accepted :: "('v object list \<Rightarrow> 's \<Rightarrow> bool) \<Rightarrow> (orders \<Rightarrow> ('v, 's) reflected) \<Rightarrow> ('s \<Rightarrow> 's)
    \<Rightarrow> (nat \<Rightarrow> orders) \<Rightarrow> 'v turn list \<Rightarrow> 's \<Rightarrow> bool" where
  "lists_accepted accepts r_store pop ords [] s \<longleftrightarrow> True"
| "lists_accepted accepts r_store pop ords (t # ts) s \<longleftrightarrow>
     (case t of Listed objs \<Rightarrow> accepts objs s | _ \<Rightarrow> True) \<and>
     lists_accepted accepts r_store pop (\<lambda>n. ords (Suc n)) ts (take_turn (r_store (ords 0)) pop t s)"

section \<open>What the server told\<close>

definition put_object :: "'v object \<Rightarrow> (string \<Rightarrow> 'v object option) \<Rightarrow> string \<Rightarrow> 'v object option" where
  "put_object ob m = m(MetaNamespaceKeyFunc ob \<mapsto> ob)"

lemma put_object_apply: "put_object ob m k = (if k = MetaNamespaceKeyFunc ob then Some ob else m k)"
  by (simp add: put_object_def)

fun told :: "'v turn \<Rightarrow> (string \<Rightarrow> 'v object option) \<Rightarrow> string \<Rightarrow> 'v object option" where
  "told (Listed objs) m = fold put_object objs Map.empty"
| "told (Watched (Watch_Added ob)) m = put_object ob m"
| "told (Watched (Watch_Modified ob)) m = put_object ob m"
| "told (Watched (Watch_Deleted ob)) m = m(MetaNamespaceKeyFunc ob := None)"
| "told (Watched ev) m = m"
| "told Resynced m = m"
| "told Processed m = m"

text \<open>A handler that keeps its own copy of the objects; \<open>None\<close> is a call it cannot follow.\<close>

fun follow :: "'v notification \<Rightarrow> (string \<Rightarrow> 'v object option) \<Rightarrow> (string \<Rightarrow> 'v object option) option" where
  "follow (OnAdd ob) m =
     (if m (MetaNamespaceKeyFunc ob) = None then Some (m(MetaNamespaceKeyFunc ob \<mapsto> ob)) else None)"
| "follow (OnUpdate old new) m =
     (if MetaNamespaceKeyFunc old = MetaNamespaceKeyFunc new \<and> m (MetaNamespaceKeyFunc new) = Some old
      then Some (m(MetaNamespaceKeyFunc new \<mapsto> new)) else None)"
| "follow (OnDelete x) m = (if m (KeyOf x) \<noteq> None then Some (m(KeyOf x := None)) else None)"

fun replay :: "'v notification list \<Rightarrow> (string \<Rightarrow> 'v object option) \<Rightarrow> (string \<Rightarrow> 'v object option) option" where
  "replay [] m = Some m"
| "replay (c # cs) m = (case follow c m of None \<Rightarrow> None | Some m' \<Rightarrow> replay cs m')"

lemma replay_append: "replay (cs @ cs') m = (case replay cs m of None \<Rightarrow> None | Some m' \<Rightarrow> replay cs' m')"
  by (induction cs arbitrary: m) (auto split: option.split)

section \<open>Processing the deltas of a key\<close>

text \<open>The informer's own store has no indexers; its items are keyed by their objects.\<close>

definition state_ok :: "'v store \<Rightarrow> bool" where
  "state_ok st \<longleftrightarrow> go_wf (items st) \<and> keyed (items st)"

lemma state_okD: "state_ok st \<Longrightarrow> map_of (items st) key = Some ob \<Longrightarrow> MetaNamespaceKeyFunc ob = key"
  by (auto simp: state_ok_def keyed_def)

lemma deletion_key: "DeletionHandlingMetaNamespaceKeyFunc x = KeyOf x"
  by (cases x) simp_all

lemma items_cache:
  "map_of (items (cache_Add ob st)) = (map_of (items st))(MetaNamespaceKeyFunc ob \<mapsto> ob)"
  "map_of (items (cache_Update ob st)) = (map_of (items st))(MetaNamespaceKeyFunc ob \<mapsto> ob)"
  "map_of (items (store_Delete key st)) = (map_of (items st))(key := None)"
  by (auto simp: cache_Add_def cache_Update_def store_Add_def store_Delete_def Let_def fun_eq_iff split: option.split)

lemma state_ok_cache:
  assumes "state_ok st"
  shows "state_ok (cache_Add ob st)" "state_ok (cache_Update ob st)" "state_ok (store_Delete key st)"
  using assms
  by (auto simp: state_ok_def keyed_def items_cache)
     (auto simp: cache_Add_def cache_Update_def store_Add_def store_Delete_def Let_def split: option.split)

text \<open>One delta: the store changes at the key of the delta, and the call tells how.\<close>

lemma Process_delta_spec:
  assumes "state_ok st" and "Process_delta d st = (c, st')" and "is_Deleted d \<Longrightarrow> map_of (items st) (delta_key d) \<noteq> None"
  shows "state_ok st' \<and> map_of (items st') = (map_of (items st))(delta_key d := delta_view d) \<and>
    follow c (map_of (items st)) = Some (map_of (items st'))"
  using assms
  by (cases d) (auto simp: Process_put_def cache_Get_def cache_GetByKey_def state_ok_cache items_cache deletion_key
      state_okD domIff split: option.splits)

lemma Process_spec:
  assumes "state_ok st" and "Process ds st = (cs, st')" and "chain (map_of (items st) key \<noteq> None) ds"
    and "\<forall>d \<in> set ds. delta_key d = key"
  shows "state_ok st' \<and>
    map_of (items st') = (if ds = [] then map_of (items st) else (map_of (items st))(key := delta_view (last ds))) \<and>
    replay cs (map_of (items st)) = Some (map_of (items st'))"
  using assms
proof (induction ds arbitrary: st cs)
  case (Cons d ds)
  obtain c st1 where 1: "Process_delta d st = (c, st1)" by (cases "Process_delta d st") auto
  obtain cs1 st2 where 2: "Process ds st1 = (cs1, st2)" by (cases "Process ds st1") auto
  have cs: "cs = c # cs1" "st' = st2" using Cons.prems(2) 1 2 by simp_all
  have d: "state_ok st1" "map_of (items st1) = (map_of (items st))(key := delta_view d)"
    "follow c (map_of (items st)) = Some (map_of (items st1))"
    using Process_delta_spec [OF Cons.prems(1) 1] Cons.prems(3,4) by auto
  have "chain (map_of (items st1) key \<noteq> None) ds"
    using Cons.prems(3) delta_view_None [of d] by (simp add: d(2))
  with Cons.IH [OF d(1) 2 [folded cs(2)]] Cons.prems(4)
  have "state_ok st' \<and>
      map_of (items st') = (if ds = [] then map_of (items st1) else (map_of (items st1))(key := delta_view (last ds))) \<and>
      replay cs1 (map_of (items st1)) = Some (map_of (items st'))" by simp
  moreover have "map_of (items st1) = (map_of (items st))(key := delta_view d)" using d(2) Cons.prems(4) by simp
  ultimately show ?case by (auto simp: cs d(3))
qed simp

section \<open>What a turn does to the queue\<close>

text \<open>The invariant of the queue, relative to the objects \<open>m\<close> in the store.\<close>

definition fifo_inv :: "'v fifo \<Rightarrow> (string \<Rightarrow> 'v object option) \<Rightarrow> bool" where
  "fifo_inv f m \<longleftrightarrow> fifo_ok f \<and> chained f m"

lemma fifo_inv_flags [simp]:
  "fifo_inv (f\<lparr>ff_populated := b\<rparr>) m = fifo_inv f m" "fifo_inv (f\<lparr>ff_initialPopulationCount := n\<rparr>) m = fifo_inv f m"
  by (simp_all add: fifo_inv_def)

lemma fifo_inv_put: "fifo_inv f m \<Longrightarrow> \<not> is_Deleted d \<Longrightarrow> fifo_inv (queueActionLocked d f) m"
  by (auto simp: fifo_inv_def intro: fifo_ok_action chained_action)

lemma fifo_inv_deleted:
  assumes "fifo_inv f m" and "m (KeyOf x) \<noteq> None \<or> deltas_of f (KeyOf x) \<noteq> []"
  shows "fifo_inv (queueActionLocked (Deleted_of x) f) m"
  using assms chained_action [of f m "Deleted_of x"] by (simp add: fifo_inv_def fifo_ok_action)

lemma Add_spec:
  assumes "fifo_inv f m"
  shows "fifo_inv (fifo_Add ob f) m" "pending (fifo_Add ob f) m = put_object ob (pending f m)"
    "fifo_inv (fifo_Update ob f) m" "pending (fifo_Update ob f) m = put_object ob (pending f m)"
  using assms pending_action [of "f\<lparr>ff_populated := True\<rparr>"]
  by (simp_all add: fifo_Add_def fifo_Update_def fifo_inv_put ignored_def fifo_inv_def [of f] put_object_def)

lemma Delete_spec:
  assumes inv: "fifo_inv f (map_of (items st))"
  shows "fifo_inv (fifo_Delete (Some st) x f) (map_of (items st)) \<and>
    pending (fifo_Delete (Some st) x f) (map_of (items st)) = (pending f (map_of (items st)))(KeyOf x := None)"
proof (cases "map_of (items st) (KeyOf x) = None \<and> deltas_of f (KeyOf x) = []")
  case True
  then have "\<not> go_has (items st) (KeyOf x)" "\<not> go_has (ff_items f) (KeyOf x)"
    using inv by (simp_all add: go_has_deltas fifo_inv_def) (simp add: go_has_def)
  then have "fifo_Delete (Some st) x f = f\<lparr>ff_populated := True\<rparr>"
    by (simp add: fifo_Delete_def Let_def)
  with True inv show ?thesis by (auto simp: pending_def fun_eq_iff)
next
  case False
  let ?f = "f\<lparr>ff_populated := True\<rparr>"
  have "fifo_Delete (Some st) x f = queueActionLocked (Deleted_of x) ?f"
    using False inv by (auto simp: fifo_Delete_def Let_def go_has_deltas fifo_inv_def go_has_def [of "items st"])
  moreover have "fifo_inv (queueActionLocked (Deleted_of x) ?f) (map_of (items st))"
    using False inv by (intro fifo_inv_deleted) auto
  moreover have "pending (queueActionLocked (Deleted_of x) ?f) m = (pending ?f m)(KeyOf x := None)" for m
    using pending_action [of ?f "Deleted_of x" m] inv by (simp add: ignored_def fifo_inv_def)
  ultimately show ?thesis by simp
qed

abbreviation queue_syncs :: "'v object list \<Rightarrow> 'v fifo \<Rightarrow> 'v fifo" where
  "queue_syncs objs f \<equiv> fold (\<lambda>item. queueActionLocked (Sync_of item)) objs f"

lemma syncs_inv: "fifo_inv f m \<Longrightarrow> fifo_inv (queue_syncs objs f) m"
  by (induction objs arbitrary: f) (simp_all add: fifo_inv_put)

lemma syncs_pending:
  assumes "fifo_inv f m" and "\<forall>ob \<in> set objs. \<not> willObjectBeDeletedLocked (MetaNamespaceKeyFunc ob) f"
  shows "pending (queue_syncs objs f) m = fold put_object objs (pending f m)"
  using assms
proof (induction objs arbitrary: f)
  case (Cons ob objs)
  let ?f = "queueActionLocked (Sync_of ob) f"
  have i: "\<not> ignored (Sync_of ob) f" using Cons.prems(2) by (simp add: ignored_def)
  have p: "pending ?f m = put_object ob (pending f m)"
    using pending_action [OF _ i] Cons.prems(1) by (simp add: fifo_inv_def put_object_def)
  have "\<not> willObjectBeDeletedLocked (MetaNamespaceKeyFunc ob') ?f" if "ob' \<in> set objs" for ob'
  proof (cases "MetaNamespaceKeyFunc ob' = MetaNamespaceKeyFunc ob")
    case True
    then have "pending ?f m (MetaNamespaceKeyFunc ob') \<noteq> None" by (simp add: p put_object_def)
    then show ?thesis by (simp add: pending_deleted [where m = m])
  next
    case False
    then have "deltas_of ?f (MetaNamespaceKeyFunc ob') = deltas_of f (MetaNamespaceKeyFunc ob')"
      by (simp add: action_deltas [OF i])
    with that Cons.prems(2) show ?thesis by (simp add: willObjectBeDeletedLocked_def)
  qed
  with Cons.IH [of ?f] Cons.prems(1) show ?case by (simp add: fifo_inv_put p)
qed simp

lemma tombstones_spec:
  assumes "fifo_inv f m" and "\<forall>k \<in> set ks. m k \<noteq> None"
  shows "fifo_inv (fold (tombstone look) ks f) m \<and>
    pending (fold (tombstone look) ks f) m = (\<lambda>k. if k \<in> set ks then None else pending f m k)"
  using assms
proof (induction ks arbitrary: f)
  case (Cons k ks)
  have inv: "fifo_inv (tombstone look k f) m"
    unfolding tombstone_def using Cons.prems by (intro fifo_inv_deleted) auto
  have "pending (tombstone look k f) m = (pending f m)(k := None)"
    unfolding tombstone_def using pending_action [of f] Cons.prems(1) by (simp add: ignored_def fifo_inv_def)
  with Cons.IH [OF inv] Cons.prems(2) show ?case by (auto simp: fun_eq_iff)
qed simp

lemma fold_put_object:
  "fold put_object objs m k =
    (if k \<in> MetaNamespaceKeyFunc ` set objs then fold put_object objs Map.empty k else m k)"
proof (induction objs rule: rev_induct)
  case (snoc ob objs)
  then show ?case
    using put_object_apply [of ob "fold put_object objs m" k] put_object_apply [of ob "fold put_object objs Map.empty" k] by simp
qed simp

text \<open>
  \<open>Replace\<close> tells the queue a whole list. It is right about a key unless the key is listed
  while a deletion is its newest delta (the \<open>Sync\<close> is dropped), or the key is queued, not
  listed and not yet known to the store (its deletion is not noticed).
\<close>

definition relist_ok :: "'v object list \<Rightarrow> 'v informer_state \<Rightarrow> bool" where
  "relist_ok objs s \<longleftrightarrow>
     (\<forall>ob \<in> set objs. \<not> willObjectBeDeletedLocked (MetaNamespaceKeyFunc ob) (is_fifo s)) \<and>
     (\<forall>key \<in> set (ff_queue (is_fifo s)). key \<notin> MetaNamespaceKeyFunc ` set objs \<longrightarrow>
        willObjectBeDeletedLocked key (is_fifo s) \<or> go_has (items (is_store s)) key)"

lemma Replace_eq:
  "\<exists>b n. fifo_Replace ord (Some st) objs f =
    (fold (tombstone (known_object st))
      (filter (\<lambda>k. k \<notin> MetaNamespaceKeyFunc ` set objs) (name_order ord 0 (go_keys (items st))))
      (queue_syncs objs f))\<lparr>ff_populated := b, ff_initialPopulationCount := n\<rparr>" (is "\<exists>b n. ?r = ?f\<lparr>ff_populated := b, ff_initialPopulationCount := n\<rparr>")
proof (cases "ff_populated ?f")
  case True
  then have "?r = ?f" by (simp add: fifo_Replace_def Let_def)
  then have "?r = ?f\<lparr>ff_populated := ff_populated ?f, ff_initialPopulationCount := ff_initialPopulationCount ?f\<rparr>" by simp
  then show ?thesis by blast
next
  case False
  then have "?r = ?f\<lparr>ff_populated := True, ff_initialPopulationCount := length objs + length
      (filter (\<lambda>k. k \<notin> MetaNamespaceKeyFunc ` set objs) (name_order ord 0 (go_keys (items st))))\<rparr>"
    by (simp add: fifo_Replace_def Let_def)
  then show ?thesis by blast
qed

lemma Replace_inv:
  assumes "fair_orders ord" and "fifo_inv f (map_of (items st))"
  shows "fifo_inv (fifo_Replace ord (Some st) objs f) (map_of (items st))"
proof -
  let ?gone = "filter (\<lambda>k. k \<notin> MetaNamespaceKeyFunc ` set objs) (name_order ord 0 (go_keys (items st)))"
  obtain b n where eq: "fifo_Replace ord (Some st) objs f =
      (fold (tombstone (known_object st)) ?gone (queue_syncs objs f))\<lparr>ff_populated := b, ff_initialPopulationCount := n\<rparr>"
    using Replace_eq [of ord st objs f] by blast
  have "\<forall>k \<in> set ?gone. map_of (items st) k \<noteq> None" using assms(1) by auto
  from tombstones_spec [OF syncs_inv [OF assms(2)] this] show ?thesis by (simp add: eq)
qed

lemma Replace_pending:
  assumes "fair_orders ord" and "fifo_inv (is_fifo s) (map_of (items (is_store s)))" and "relist_ok objs s"
  shows "pending (fifo_Replace ord (Some (is_store s)) objs (is_fifo s)) (map_of (items (is_store s))) =
    fold put_object objs Map.empty"
proof -
  let ?st = "is_store s" and ?f = "is_fifo s"
  let ?m = "map_of (items ?st)" and ?keys = "MetaNamespaceKeyFunc ` set objs"
  let ?gone = "filter (\<lambda>k. k \<notin> ?keys) (name_order ord 0 (go_keys (items ?st)))"
  obtain b n where eq: "fifo_Replace ord (Some ?st) objs ?f =
      (fold (tombstone (known_object ?st)) ?gone (queue_syncs objs ?f))\<lparr>ff_populated := b, ff_initialPopulationCount := n\<rparr>"
    using Replace_eq [of ord ?st objs ?f] by blast
  have gone: "\<forall>k \<in> set ?gone. ?m k \<noteq> None" "set ?gone = {k. k \<notin> ?keys \<and> ?m k \<noteq> None}" using assms(1) by auto
  have syncs: "pending (queue_syncs objs ?f) ?m = fold put_object objs (pending ?f ?m)"
    using assms(3) by (intro syncs_pending [OF assms(2)]) (simp add: relist_ok_def)
  have p: "pending (fifo_Replace ord (Some ?st) objs ?f) ?m k =
      (if k \<notin> ?keys \<and> ?m k \<noteq> None then None else fold put_object objs (pending ?f ?m) k)" for k
    unfolding eq pending_flags
    by (simp only: tombstones_spec [OF syncs_inv [OF assms(2)] gone(1), THEN conjunct2] gone(2) mem_Collect_eq syncs)
  have unlisted: "pending ?f ?m k = None" if "k \<notin> ?keys" "?m k = None" for k
  proof (cases "k \<in> set (ff_queue ?f)")
    case True
    then have "willObjectBeDeletedLocked k ?f"
      using assms(3) that by (auto simp: relist_ok_def go_has_def)
    then show ?thesis by (simp add: pending_deleted [where m = ?m])
  next
    case False
    then have "deltas_of ?f k = []" using assms(2) by (simp add: fifo_inv_def fifo_okD(4))
    with that(2) show ?thesis by (simp add: pending_def)
  qed
  show ?thesis
  proof (rule ext)
    fix k
    show "pending (fifo_Replace ord (Some ?st) objs ?f) ?m k = fold put_object objs Map.empty k"
      using p [of k] unlisted [of k] fold_put_object [of objs "pending ?f ?m" k] fold_put_object [of objs Map.empty k]
      by auto
  qed
qed

section \<open>Turns keep the invariant\<close>

abbreviation known :: "'v informer_state \<Rightarrow> string \<Rightarrow> 'v object option" where
  "known s \<equiv> map_of (items (is_store s))"

text \<open>
  The queue is in order, the store is keyed by its objects, and a handler that follows the
  calls has a copy of the store.
\<close>

definition informer_inv :: "'v informer_state \<Rightarrow> bool" where
  "informer_inv s \<longleftrightarrow> fifo_inv (is_fifo s) (known s) \<and> state_ok (is_store s) \<and>
     replay (is_calls s) Map.empty = Some (known s)"

text \<open>What the handlers will know once the queue is empty.\<close>

definition informer_view :: "'v informer_state \<Rightarrow> string \<Rightarrow> 'v object option" where
  "informer_view s = pending (is_fifo s) (known s)"

lemma fifo_inv_new: "fifo_inv NewDeltaFIFO Map.empty"
  using fifo_ok_new unfolding NewDeltaFIFO_def by (simp add: fifo_inv_def chained_def deltas_of_def)

lemma informer_inv_new: "informer_inv NewInformer" "informer_view NewInformer = Map.empty"
proof -
  show "informer_inv NewInformer"
    using fifo_inv_new by (simp add: informer_inv_def NewInformer_def NewStore_def NewThreadSafeStore_def state_ok_def keyed_def)
  show "informer_view NewInformer = Map.empty"
    by (simp add: informer_view_def pending_def NewInformer_def NewStore_def NewThreadSafeStore_def deltas_of_def
        NewDeltaFIFO_def fun_eq_iff)
qed

text \<open>A turn of the reflector changes the queue only.\<close>

lemma reflector_turn:
  assumes "informer_inv s" and "fifo_inv f (known s)"
  shows "informer_inv (s\<lparr>is_fifo := f\<rparr>)"
  using assms by (simp add: informer_inv_def)

lemma syncKey_inv:
  assumes "fifo_inv f (map_of (items st))" and "state_ok st"
  shows "fifo_inv (syncKeyLocked st key f) (map_of (items st)) \<and>
    pending (syncKeyLocked st key f) (map_of (items st)) = pending f (map_of (items st))"
proof (cases "\<exists>obj. map_of (items st) key = Some obj \<and> deltas_of f (MetaNamespaceKeyFunc obj) = []")
  case True
  then obtain obj where obj: "map_of (items st) key = Some obj" "deltas_of f (MetaNamespaceKeyFunc obj) = []" by blast
  then have eq: "syncKeyLocked st key f = queueActionLocked (Sync_of obj) f" by (simp add: syncKeyLocked_def)
  have "\<not> ignored (Sync_of obj) f" using obj(2) by (simp add: ignored_def willObjectBeDeletedLocked_def)
  from pending_action [OF _ this] assms(1)
  have "pending (syncKeyLocked st key f) (map_of (items st)) =
      (pending f (map_of (items st)))(MetaNamespaceKeyFunc obj \<mapsto> obj)" by (simp add: eq fifo_inv_def)
  moreover have "pending f (map_of (items st)) (MetaNamespaceKeyFunc obj) = Some obj"
    using obj state_okD [OF assms(2) obj(1)] by (simp add: pending_def)
  ultimately show ?thesis using assms(1) by (auto simp: eq fifo_inv_put fun_eq_iff)
next
  case False
  then have "syncKeyLocked st key f = f" by (auto simp: syncKeyLocked_def split: option.split)
  with assms(1) show ?thesis by simp
qed

lemma Resync_inv:
  assumes "fifo_inv f (map_of (items st))" and "state_ok st"
  shows "fifo_inv (fifo_Resync ord (Some st) f) (map_of (items st)) \<and>
    pending (fifo_Resync ord (Some st) f) (map_of (items st)) = pending f (map_of (items st))"
proof -
  have "fifo_inv (fold (syncKeyLocked st) ks f) (map_of (items st)) \<and>
      pending (fold (syncKeyLocked st) ks f) (map_of (items st)) = pending f (map_of (items st))" for ks
    using assms(1)
  proof (induction ks arbitrary: f)
    case (Cons k ks)
    with syncKey_inv [OF Cons.prems assms(2), of k] show ?case by simp
  qed simp
  then show ?thesis by (simp add: fifo_Resync_def)
qed

text \<open>A turn of the process loop handles all deltas of the first key.\<close>

lemma processLoop_empty: "ff_queue (is_fifo s) = [] \<Longrightarrow> processLoop_turn s = s"
  by (simp add: processLoop_turn_def fifo_Pop_def Let_def)

lemma processLoop_head:
  assumes "fifo_ok (is_fifo s)" and "ff_queue (is_fifo s) = key # queue"
    and "Process (deltas_of (is_fifo s) key) (is_store s) = (cs, st)"
  shows "processLoop_turn s = s\<lparr>is_fifo := (is_fifo s)\<lparr>ff_queue := queue,
      ff_initialPopulationCount := ff_initialPopulationCount (is_fifo s) - 1,
      ff_items := go_del key (ff_items (is_fifo s))\<rparr>,
    is_store := st, is_calls := is_calls s @ cs\<rparr>"
proof -
  have "key \<in> set (ff_queue (is_fifo s))" by (simp add: assms(2))
  then have "key \<in> dom (map_of (ff_items (is_fifo s)))" by (simp only: fifo_okD(3) [OF assms(1)])
  then obtain ds where ds: "map_of (ff_items (is_fifo s)) key = Some ds" by blast
  then have "deltas_of (is_fifo s) key = ds" by (simp add: deltas_of_def)
  with ds assms(2,3) show ?thesis
    by (simp add: processLoop_turn_def fifo_Pop_def Let_def informer_process_def)
qed

lemma deltas_popped:
  "deltas_of (f\<lparr>ff_queue := q, ff_initialPopulationCount := n, ff_items := go_del key (ff_items f)\<rparr>) = (deltas_of f)(key := [])"
  by (simp add: deltas_of_def fun_eq_iff)

lemma fifo_inv_popped:
  assumes inv: "fifo_inv f m" and "ff_queue f = key # queue" and m': "\<And>k. k \<noteq> key \<Longrightarrow> m' k = m k"
  shows "fifo_inv (f\<lparr>ff_queue := queue, ff_initialPopulationCount := n, ff_items := go_del key (ff_items f)\<rparr>) m'"
proof -
  have ok: "fifo_ok f" using inv by (simp add: fifo_inv_def)
  have "fifo_ok (f\<lparr>ff_queue := queue, ff_initialPopulationCount := n, ff_items := go_del key (ff_items f)\<rparr>)"
    unfolding fifo_ok_def
  proof (intro conjI allI impI)
    fix k ds
    assume "map_of (ff_items (f\<lparr>ff_queue := queue, ff_initialPopulationCount := n, ff_items := go_del key (ff_items f)\<rparr>)) k = Some ds"
    then have "map_of (ff_items f) k = Some ds" by (auto split: if_splits)
    then show "ds \<noteq> []" "\<forall>d \<in> set ds. delta_key d = k" using ok unfolding fifo_ok_def by blast+
  qed (use fifo_okD(1,2,3) [OF ok] assms(2) in auto)
  moreover have "chain (m' k \<noteq> None) (deltas_of (f\<lparr>ff_queue := queue, ff_initialPopulationCount := n,
      ff_items := go_del key (ff_items f)\<rparr>) k)" for k
    using inv m' [of k] unfolding deltas_popped fifo_inv_def chained_def by (cases "k = key") auto
  ultimately show ?thesis by (simp add: fifo_inv_def chained_def)
qed

lemma processLoop_inv:
  assumes inv: "informer_inv s"
  shows "informer_inv (processLoop_turn s) \<and> informer_view (processLoop_turn s) = informer_view s \<and>
    ff_queue (is_fifo (processLoop_turn s)) = tl (ff_queue (is_fifo s))"
proof (cases "ff_queue (is_fifo s)")
  case Nil
  with inv show ?thesis by (simp add: processLoop_empty)
next
  case (Cons key queue)
  let ?f = "is_fifo s" and ?st = "is_store s"
  let ?ds = "deltas_of ?f key"
  obtain cs st where p: "Process ?ds ?st = (cs, st)" by (cases "Process ?ds ?st") auto
  note inv' = inv [unfolded informer_inv_def fifo_inv_def chained_def]
  have ok: "fifo_ok ?f" using inv' by simp
  note eq = processLoop_head [OF ok Cons p]
  have ds: "?ds \<noteq> []" using ok Cons by (simp add: fifo_okD(4))
  have spec: "state_ok st" "map_of (items st) = (known s)(key := delta_view (last ?ds))"
    "replay cs (known s) = Some (map_of (items st))"
    using Process_spec [OF _ p, of key] inv' fifo_okD(5) [OF ok] ds by auto
  have "fifo_inv (?f\<lparr>ff_queue := queue, ff_initialPopulationCount := ff_initialPopulationCount ?f - 1,
      ff_items := go_del key (ff_items ?f)\<rparr>) (map_of (items st))"
    using inv by (intro fifo_inv_popped [OF _ Cons]) (auto simp: informer_inv_def spec(2))
  moreover have "replay (is_calls s @ cs) Map.empty = Some (map_of (items st))"
    using inv' spec(3) by (simp add: replay_append)
  moreover have "informer_view (processLoop_turn s) k = informer_view s k" for k
    using ds by (auto simp: informer_view_def eq pending_def deltas_popped spec(2))
  ultimately show ?thesis
    using spec(1) by (simp add: eq informer_inv_def Cons fun_eq_iff)
qed

end
