(* ===== verification/Informer_Correct.thy ===== *)
theory Informer_Correct
  imports Informer_Run
begin

text \<open>
  Whole runs of an informer. The two interfaces it is built on are locales: the \<open>Store\<close> a
  reflector fills, which a plain cache and the queue of an informer implement, and the \<open>Queue\<close>
  that a process loop drains. The theorems say what the handlers of an informer may rely on:
  the calls follow each other, they lead to what the server told last, and \<open>HasSynced\<close> means
  that the first list was delivered. The last section shows what a relist may lose.
\<close>

section \<open>The store of a reflector\<close>

text \<open>\<open>accepts objs s\<close>: replacing the contents by \<open>objs\<close> in state \<open>s\<close> has its full effect.\<close>

locale reflector_store =
  fixes r_store :: "orders \<Rightarrow> ('v, 's) reflected" and ok :: "'s \<Rightarrow> bool"
    and accepts :: "'v object list \<Rightarrow> 's \<Rightarrow> bool" and seen :: "'s \<Rightarrow> string \<Rightarrow> 'v object option"
  assumes add: "ok s \<Longrightarrow> ok (rs_Add (r_store ord) ob s) \<and> seen (rs_Add (r_store ord) ob s) = put_object ob (seen s)"
    and update: "ok s \<Longrightarrow> ok (rs_Update (r_store ord) ob s) \<and> seen (rs_Update (r_store ord) ob s) = put_object ob (seen s)"
    and delete: "ok s \<Longrightarrow> ok (rs_Delete (r_store ord) ob s) \<and>
      seen (rs_Delete (r_store ord) ob s) = (seen s)(MetaNamespaceKeyFunc ob := None)"
    and replace_ok: "fair_orders ord \<Longrightarrow> ok s \<Longrightarrow> ok (rs_Replace (r_store ord) objs s)"
    and replace: "fair_orders ord \<Longrightarrow> ok s \<Longrightarrow> accepts objs s \<Longrightarrow>
      seen (rs_Replace (r_store ord) objs s) = fold put_object objs Map.empty"
    and resync: "ok s \<Longrightarrow> ok (rs_Resync (r_store ord) s) \<and> seen (rs_Resync (r_store ord) s) = seen s"
begin

lemma watch: "ok s \<Longrightarrow> ok (watchHandler_turn (r_store ord) ev s) \<and>
    seen (watchHandler_turn (r_store ord) ev s) = told (Watched ev) (seen s)"
  by (cases ev) (simp_all add: add update delete)

end

text \<open>
  The queue between the reflector and the process loop: popping an element leaves what is seen
  as it is, and once nothing is left the consumer holds what is seen.
\<close>

locale informer_queue = reflector_store r_store ok accepts seen
  for r_store :: "orders \<Rightarrow> ('v, 's) reflected" and ok accepts seen +
  fixes pop :: "'s \<Rightarrow> 's" and left :: "'s \<Rightarrow> nat" and held :: "'s \<Rightarrow> string \<Rightarrow> 'v object option"
  assumes pop: "ok s \<Longrightarrow> ok (pop s) \<and> seen (pop s) = seen s \<and> left (pop s) = left s - 1"
    and drained: "ok s \<Longrightarrow> left s = 0 \<Longrightarrow> held s = seen s"
begin

lemma turn_ok:
  assumes "fair_orders ord" and "ok s"
  shows "ok (take_turn (r_store ord) pop t s)"
  using assms by (cases t) (simp_all add: syncWith_def replace_ok watch resync pop)

lemma turn_seen:
  assumes "fair_orders ord" and "ok s" and "case t of Listed objs \<Rightarrow> accepts objs s | _ \<Rightarrow> True"
  shows "seen (take_turn (r_store ord) pop t s) = told t (seen s)"
  using assms by (cases t) (simp_all add: syncWith_def replace watch resync pop)

lemma run_ok:
  assumes "\<forall>n. fair_orders (ords n)" and "ok s"
  shows "ok (run_turns r_store pop ords ts s)"
  using assms
proof (induction ts arbitrary: ords s)
  case (Cons t ts)
  show ?case using Cons.IH [of "\<lambda>n. ords (Suc n)"] turn_ok [of "ords 0" s t] Cons.prems by simp
qed simp

lemma run_seen:
  assumes "\<forall>n. fair_orders (ords n)" and "ok s" and "lists_accepted accepts r_store pop ords ts s"
  shows "seen (run_turns r_store pop ords ts s) = fold told ts (seen s)"
  using assms
proof (induction ts arbitrary: ords s)
  case (Cons t ts)
  have "seen (take_turn (r_store (ords 0)) pop t s) = told t (seen s)"
    using turn_seen [of "ords 0" s t] Cons.prems by simp
  then show ?case using Cons.IH [of "\<lambda>n. ords (Suc n)"] turn_ok [of "ords 0" s t] Cons.prems by simp
qed simp

lemma drain: "ok s \<Longrightarrow> left s \<le> n \<Longrightarrow> ok ((pop ^^ n) s) \<and> left ((pop ^^ n) s) = 0 \<and> seen ((pop ^^ n) s) = seen s"
proof (induction n arbitrary: s)
  case (Suc n)
  have "(pop ^^ Suc n) s = (pop ^^ n) (pop s)" by (simp only: funpow_Suc_right o_apply)
  moreover have "ok (pop s)" "seen (pop s) = seen s" "left (pop s) \<le> n" using pop [OF Suc.prems(1)] Suc.prems(2) by auto
  ultimately show ?case using Suc.IH [of "pop s"] by simp
qed simp

lemma converges:
  assumes "\<forall>n. fair_orders (ords n)" and "ok s" and "lists_accepted accepts r_store pop ords ts s"
    and "left (run_turns r_store pop ords ts s) \<le> n"
  shows "held ((pop ^^ n) (run_turns r_store pop ords ts s)) = fold told ts (seen s) \<and>
    left ((pop ^^ n) (run_turns r_store pop ords ts s)) = 0"
proof -
  note d = drain [OF run_ok [OF assms(1,2)] assms(4)]
  from d have "held ((pop ^^ n) (run_turns r_store pop ords ts s)) = seen ((pop ^^ n) (run_turns r_store pop ords ts s))"
    by (intro drained) simp_all
  with d show ?thesis by (simp only: run_seen [OF assms(1-3)])
qed

end

section \<open>The contracts hold\<close>

lemma state_ok_Replace: "state_ok (cache_Replace objs st)"
proof -
  have "keyed (fold (\<lambda>item. go_put (MetaNamespaceKeyFunc item) item) objs [])"
    "go_wf (fold (\<lambda>item. go_put (MetaNamespaceKeyFunc item) item) objs [])"
    using keyed_fold [of "[]" objs] by simp_all
  then show ?thesis by (simp add: state_ok_def cache_Replace_def store_Replace_def fold_updateIndices)
qed

lemma map_of_Replace: "map_of (items (cache_Replace objs st)) = fold put_object objs Map.empty"
proof -
  have "map_of (fold (\<lambda>item. go_put (MetaNamespaceKeyFunc item) item) objs m) = fold put_object objs (map_of m)"
    for m :: "(string, 'a object) gomap"
    by (induction objs arbitrary: m) (auto simp: put_object_def)
  from this [of "[]"] show ?thesis by (simp add: cache_Replace_def store_Replace_def fold_updateIndices)
qed

interpretation cache_target: reflector_store "\<lambda>ord. cache_store" state_ok "\<lambda>_ _. True" "\<lambda>st. map_of (items st)"
  by unfold_locales
     (auto simp: cache_store_def state_ok_cache items_cache put_object_def state_ok_Replace map_of_Replace cache_Delete_def)

lemma informer_inv_fifo: "informer_inv s \<Longrightarrow> fifo_inv (is_fifo s) (known s) \<and> state_ok (is_store s)"
  by (simp add: informer_inv_def)

interpretation fifo_target: reflector_store fifo_store informer_inv relist_ok informer_view
proof
  fix s :: "'a informer_state" and ord ob and objs :: "'a object list"
  assume inv: "informer_inv s"
  note f = informer_inv_fifo [OF inv, THEN conjunct1] and st = informer_inv_fifo [OF inv, THEN conjunct2]
  note turn = reflector_turn [OF inv]
  show "informer_inv (rs_Add (fifo_store ord) ob s) \<and> informer_view (rs_Add (fifo_store ord) ob s) = put_object ob (informer_view s)"
    "informer_inv (rs_Update (fifo_store ord) ob s) \<and> informer_view (rs_Update (fifo_store ord) ob s) = put_object ob (informer_view s)"
    using Add_spec [OF f] turn by (simp_all add: fifo_store_def informer_view_def)
  show "informer_inv (rs_Delete (fifo_store ord) ob s) \<and>
      informer_view (rs_Delete (fifo_store ord) ob s) = (informer_view s)(MetaNamespaceKeyFunc ob := None)"
    using Delete_spec [OF f] turn by (simp add: fifo_store_def informer_view_def)
  show "informer_inv (rs_Resync (fifo_store ord) s) \<and> informer_view (rs_Resync (fifo_store ord) s) = informer_view s"
    using Resync_inv [OF f st] turn by (simp add: fifo_store_def informer_view_def)
  assume ord: "fair_orders ord"
  show "informer_inv (rs_Replace (fifo_store ord) objs s)"
    using Replace_inv [OF ord f] turn by (simp add: fifo_store_def)
  assume "relist_ok objs s"
  then show "informer_view (rs_Replace (fifo_store ord) objs s) = fold put_object objs Map.empty"
    using Replace_pending [OF ord f] by (simp add: fifo_store_def informer_view_def)
qed

interpretation fifo_queue: informer_queue fifo_store informer_inv relist_ok informer_view processLoop_turn
  "\<lambda>s. length (ff_queue (is_fifo s))" known
proof
  fix s :: "'a informer_state"
  assume inv: "informer_inv s"
  then show "informer_inv (processLoop_turn s) \<and> informer_view (processLoop_turn s) = informer_view s \<and>
      length (ff_queue (is_fifo (processLoop_turn s))) = length (ff_queue (is_fifo s)) - 1"
    using processLoop_inv [OF inv] by simp
  assume "length (ff_queue (is_fifo s)) = 0"
  then have "deltas_of (is_fifo s) k = []" for k
    using inv by (simp add: informer_inv_def fifo_inv_def fifo_okD(4))
  then show "known s = informer_view s" by (simp add: informer_view_def pending_def fun_eq_iff)
qed

text \<open>A plain cache has no queue: what was told is in the store at once.\<close>

interpretation cache_queue: informer_queue "\<lambda>ord. cache_store" state_ok "\<lambda>_ _. True" "\<lambda>st. map_of (items st)"
  "\<lambda>st. st" "\<lambda>_. 0" "\<lambda>st. map_of (items st)"
  by unfold_locales simp_all

section \<open>Invariants of a run\<close>

lemma informer_run_inv: "\<forall>n. fair_orders (ords n) \<Longrightarrow> informer_inv (informer_run ords ts NewInformer)"
  by (rule fifo_queue.run_ok) (simp_all add: informer_inv_new)

text \<open>A property that every turn keeps.\<close>

lemma informer_run_keeps:
  assumes "\<forall>n. fair_orders (ords n)" and "informer_inv s" and "P s"
    and step: "\<And>ord t s. fair_orders ord \<Longrightarrow> informer_inv s \<Longrightarrow> P s \<Longrightarrow> P (take_turn (fifo_store ord) processLoop_turn t s)"
  shows "P (informer_run ords ts s)"
  using assms(1-3)
proof (induction ts arbitrary: ords s)
  case (Cons t ts)
  show ?case
    using Cons.IH [of "\<lambda>n. ords (Suc n)"] fifo_queue.turn_ok [of "ords 0" s t] step [of "ords 0" s t] Cons.prems by simp
qed simp

lemma relist_drained:
  assumes "informer_inv s" and "ff_queue (is_fifo s) = []"
  shows "relist_ok objs s"
proof -
  have "deltas_of (is_fifo s) k = []" for k
    using assms by (simp add: informer_inv_def fifo_inv_def fifo_okD(4))
  with assms(2) show ?thesis by (simp add: relist_ok_def willObjectBeDeletedLocked_def)
qed

subsection \<open>The first list\<close>

text \<open>What the reflector's turns do to the queue: they append to it.\<close>

definition grows :: "'v fifo \<Rightarrow> 'v fifo \<Rightarrow> bool" where
  "grows f f' \<longleftrightarrow> (\<exists>q. ff_queue f' = ff_queue f @ q) \<and> ff_initialPopulationCount f' = ff_initialPopulationCount f \<and>
     (ff_populated f \<longrightarrow> ff_populated f')"

lemma grows_refl: "grows f f"
  by (simp add: grows_def)

lemma grows_trans: "grows f g \<Longrightarrow> grows g h \<Longrightarrow> grows f h"
  by (auto simp: grows_def)

lemma grows_fold: "(\<And>x f. grows f (g x f)) \<Longrightarrow> grows f (fold g xs f)"
  by (induction xs arbitrary: f) (auto intro: grows_refl grows_trans)

lemma grows_action: "grows f (queueActionLocked d f)"
  by (auto simp: grows_def queueActionLocked_def Let_def)

lemma grows_populate: "grows (f\<lparr>ff_populated := True\<rparr>) f' \<Longrightarrow> grows f f'"
  by (simp add: grows_def)

lemma grows_syncKey: "grows f (syncKeyLocked st key f)"
  by (simp add: syncKeyLocked_def grows_refl grows_action split: option.split)

lemma Replace_grows:
  assumes "ff_populated f"
  shows "grows f (fifo_Replace ord (Some st) objs f)"
proof -
  let ?gone = "filter (\<lambda>k. k \<notin> MetaNamespaceKeyFunc ` set objs) (name_order ord 0 (go_keys (items st)))"
  let ?f = "fold (tombstone (known_object st)) ?gone (queue_syncs objs f)"
  have e: "grows f ?f"
    by (intro grows_trans [OF grows_fold grows_fold]) (simp_all add: tombstone_def grows_action)
  then have "ff_populated ?f" using assms by (simp add: grows_def)
  with e show ?thesis by (simp add: fifo_Replace_def Let_def)
qed

lemma turn_grows:
  assumes "ff_populated (is_fifo s)" and "t \<noteq> Processed"
  shows "\<exists>f. take_turn (fifo_store ord) processLoop_turn t s = s\<lparr>is_fifo := f\<rparr> \<and> grows (is_fifo s) f"
proof (cases t)
  case (Listed objs)
  then show ?thesis using Replace_grows [OF assms(1)] by (auto simp: syncWith_def fifo_store_def)
next
  case (Watched ev)
  have d: "grows (is_fifo s) (fifo_Delete (Some (is_store s)) x (is_fifo s))" for x
    by (rule grows_populate) (auto simp: fifo_Delete_def Let_def grows_refl grows_action)
  have a: "grows (is_fifo s) (fifo_Add ob (is_fifo s))" "grows (is_fifo s) (fifo_Update ob (is_fifo s))" for ob
    by (rule grows_populate; simp add: fifo_Add_def fifo_Update_def grows_action)+
  have "\<exists>f. s = s\<lparr>is_fifo := f\<rparr> \<and> grows (is_fifo s) f"
    by (intro exI [of _ "is_fifo s"]) (simp add: grows_refl)
  with Watched a d show ?thesis
    by (cases ev) (auto simp: fifo_store_def)
next
  case Resynced
  have "grows (is_fifo s) (fifo_Resync ord (Some (is_store s)) (is_fifo s))"
    by (simp add: fifo_Resync_def) (intro grows_fold grows_syncKey)
  with Resynced show ?thesis by (auto simp: fifo_store_def)
qed (use assms(2) in simp)

text \<open>The keys \<open>K\<close> of the first list are delivered or among the first elements of the queue.\<close>

fun call_key :: "'v notification \<Rightarrow> string" where
  "call_key (OnAdd ob) = MetaNamespaceKeyFunc ob"
| "call_key (OnUpdate old new) = MetaNamespaceKeyFunc new"
| "call_key (OnDelete x) = KeyOf x"

definition first_list :: "string set \<Rightarrow> nat \<Rightarrow> 'v informer_state \<Rightarrow> bool" where
  "first_list K n s \<longleftrightarrow> ff_populated (is_fifo s) \<and> ff_initialPopulationCount (is_fifo s) \<le> n \<and>
     K \<subseteq> call_key ` set (is_calls s) \<union> set (take (ff_initialPopulationCount (is_fifo s)) (ff_queue (is_fifo s)))"

lemma call_key_delta: "Process_delta d st = (c, st') \<Longrightarrow> call_key c = delta_key d"
  by (cases d) (auto simp: Process_put_def split: option.splits)

lemma Process_calls: "Process ds st = (cs, st') \<Longrightarrow> map call_key cs = map delta_key ds"
proof (induction ds arbitrary: st cs)
  case (Cons d ds)
  obtain c st1 where 1: "Process_delta d st = (c, st1)" by (cases "Process_delta d st") auto
  obtain cs1 st2 where 2: "Process ds st1 = (cs1, st2)" by (cases "Process ds st1") auto
  have cs: "cs = c # cs1" "st' = st2" using Cons.prems 1 2 by simp_all
  show ?case using Cons.IH [OF 2 [folded cs(2)]] by (simp add: cs(1) call_key_delta [OF 1])
qed simp

lemma first_list_turn:
  assumes inv: "informer_inv s" and first: "first_list K n s"
  shows "first_list K n (take_turn (fifo_store ord) processLoop_turn t s)"
proof (cases "t = Processed")
  case False
  have "ff_populated (is_fifo s)" using first by (simp add: first_list_def)
  with False obtain f where f: "take_turn (fifo_store ord) processLoop_turn t s = s\<lparr>is_fifo := f\<rparr>" "grows (is_fifo s) f"
    using turn_grows by blast
  then obtain q where "ff_queue f = ff_queue (is_fifo s) @ q" by (auto simp: grows_def)
  with f first show ?thesis by (auto simp: first_list_def grows_def)
next
  case True
  show ?thesis
  proof (cases "ff_queue (is_fifo s)")
    case Nil
    with True first show ?thesis by (simp add: processLoop_empty)
  next
    case (Cons key queue)
    let ?f = "is_fifo s"
    obtain cs st where p: "Process (deltas_of ?f key) (is_store s) = (cs, st)"
      by (cases "Process (deltas_of ?f key) (is_store s)") auto
    have ok: "fifo_ok ?f" using inv by (simp add: informer_inv_def fifo_inv_def)
    have "deltas_of ?f key \<noteq> []" using ok Cons by (simp add: fifo_okD(4))
    then have "hd (deltas_of ?f key) \<in> set (deltas_of ?f key)" by simp
    then have "key \<in> set (map delta_key (deltas_of ?f key))" using fifo_okD(5) [OF ok] by force
    then have "key \<in> set (map call_key cs)" by (simp only: Process_calls [OF p])
    then have key: "key \<in> call_key ` set cs" by simp
    show ?thesis
    proof (cases "ff_initialPopulationCount ?f")
      case 0
      with first True Cons show ?thesis by (auto simp: processLoop_head [OF ok Cons p] first_list_def)
    next
      case (Suc m)
      with first True Cons key show ?thesis by (auto simp: processLoop_head [OF ok Cons p] first_list_def)
    qed
  qed
qed

lemma new_deltas: "deltas_of NewDeltaFIFO k = []"
  by (simp add: deltas_of_def NewDeltaFIFO_def)

lemma listed_told:
  "ob \<in> set objs \<Longrightarrow> fold put_object objs m (MetaNamespaceKeyFunc ob) \<noteq> None"
proof (induction objs rule: rev_induct)
  case (snoc a xs)
  then show ?case using put_object_apply [of a "fold put_object xs m" "MetaNamespaceKeyFunc ob"] by auto
qed simp

lemma syncs_queued:
  assumes "ob \<in> set objs"
  shows "MetaNamespaceKeyFunc ob \<in> set (ff_queue (queue_syncs objs NewDeltaFIFO))"
proof -
  let ?f = "queue_syncs objs NewDeltaFIFO"
  have "pending ?f Map.empty = fold put_object objs (pending NewDeltaFIFO Map.empty)"
    by (intro syncs_pending fifo_inv_new) (simp add: willObjectBeDeletedLocked_def new_deltas)
  then have "pending ?f Map.empty (MetaNamespaceKeyFunc ob) \<noteq> None" using listed_told [OF assms] by simp
  then have "deltas_of ?f (MetaNamespaceKeyFunc ob) \<noteq> []" by (auto simp: pending_def)
  then show ?thesis using syncs_inv [OF fifo_inv_new, of objs] by (simp add: fifo_inv_def fifo_okD(4))
qed

lemma syncs_length: "length (ff_queue (queue_syncs xs f)) \<le> length (ff_queue f) + length xs"
proof (induction xs arbitrary: f)
  case (Cons x xs)
  have "length (ff_queue (queueActionLocked (Sync_of x) f)) \<le> Suc (length (ff_queue f))"
    by (simp add: queueActionLocked_def Let_def)
  with Cons.IH [of "queueActionLocked (Sync_of x) f"] show ?case by simp
qed simp

lemma syncs_populated: "ff_populated (queue_syncs xs f) = ff_populated f"
  by (induction xs arbitrary: f) (simp_all add: action_frame)

lemma first_list_start:
  assumes "fair_orders ord"
  shows "first_list (MetaNamespaceKeyFunc ` set objs) (length objs)
     (take_turn (fifo_store ord) processLoop_turn (Listed objs) NewInformer)"
proof -
  let ?f = "queue_syncs objs NewDeltaFIFO"
  have "set (name_order ord 0 []) = {}" using assms by simp
  then have "name_order ord 0 [] = []" by simp
  moreover have "\<not> ff_populated ?f" by (simp add: syncs_populated) (simp add: NewDeltaFIFO_def)
  ultimately have "is_fifo (take_turn (fifo_store ord) processLoop_turn (Listed objs) NewInformer) =
      ?f\<lparr>ff_populated := True, ff_initialPopulationCount := length objs\<rparr>"
    by (simp add: syncWith_def fifo_store_def fifo_Replace_def NewInformer_def NewStore_def NewThreadSafeStore_def
        Let_def)
  moreover have "take (length objs) (ff_queue ?f) = ff_queue ?f"
    using syncs_length [of objs NewDeltaFIFO] by (simp add: NewDeltaFIFO_def)
  ultimately show ?thesis using syncs_queued [of _ objs] by (auto simp: first_list_def)
qed

section \<open>What the handlers may rely on\<close>

text \<open>An example: versions of objects named \<open>a\<close> and \<open>b\<close>, and a run with two of them.\<close>

definition sample :: "string \<Rightarrow> nat \<Rightarrow> nat object" where
  "sample n v = \<lparr>ob_Namespace = ''ns'', ob_Name = n, ob_Labels = [], ob_Body = v\<rparr>"

definition sample_turns :: "nat turn list" where
  "sample_turns = [Listed [sample ''a'' 1, sample ''b'' 1], Processed, Watched (Watch_Modified (sample ''a'' 2)), Processed,
     Watched (Watch_Deleted (sample ''b'' 1)), Processed, Listed [sample ''a'' 3]]"

abbreviation sample_run :: "nat informer_state" where
  "sample_run \<equiv> informer_run (\<lambda>_. id_orders) sample_turns NewInformer"

text \<open>
  C23. The handlers of an informer can keep a copy of its objects from the calls alone,
  whatever is listed, watched and resynced and however the turns interleave: an \<open>OnAdd\<close> is
  for an absent object, an \<open>OnUpdate\<close> brings as old object the one delivered last, an
  \<open>OnDelete\<close> is for a present object, and the copy is the store of the informer.
\<close>

theorem informer_replays:
  fixes ts :: "'v turn list"
  assumes "\<forall>n. fair_orders (ords n)"
  shows "replay (is_calls (informer_run ords ts NewInformer)) Map.empty =
    Some (known (informer_run ords ts NewInformer))"
  using informer_run_inv [OF assms, of ts] by (simp add: informer_inv_def)

theorem informer_replays_witness:
  "replay (is_calls sample_run) Map.empty = Some (known sample_run) \<and> is_calls sample_run =
    [OnAdd (sample ''a'' 1), OnAdd (sample ''b'' 1), OnUpdate (sample ''a'' 1) (sample ''a'' 2)]"
proof -
  have "is_calls sample_run = [OnAdd (sample ''a'' 1), OnAdd (sample ''b'' 1), OnUpdate (sample ''a'' 1) (sample ''a'' 2)]"
    by code_simp
  with informer_replays [of "\<lambda>_. id_orders" sample_turns] show ?thesis by (simp add: fair_id_orders)
qed

text \<open>
  C22. When the queue is drained after a run, the store of the informer is what the server
  told: the last list with the watch events after it; provided each list that finds the queue
  filled does not list a key whose newest delta is a deletion, nor leave out one that is queued
  and unknown.
\<close>

theorem informer_converges:
  fixes ts :: "'v turn list"
  assumes "\<forall>n. fair_orders (ords n)"
    and "lists_accepted relist_ok fifo_store processLoop_turn ords ts NewInformer"
    and "length (ff_queue (is_fifo (informer_run ords ts NewInformer))) \<le> n"
  shows "known ((processLoop_turn ^^ n) (informer_run ords ts NewInformer)) = fold told ts Map.empty \<and>
    ff_queue (is_fifo ((processLoop_turn ^^ n) (informer_run ords ts NewInformer))) = []"
  using fifo_queue.converges [OF assms(1) informer_inv_new(1) assms(2,3)] by (simp add: informer_inv_new(2))

theorem informer_converges_witness:
  "known ((processLoop_turn ^^ 2) sample_run) = [MetaNamespaceKeyFunc (sample ''a'' 3) \<mapsto> sample ''a'' 3]"
proof -
  have "lists_accepted relist_ok fifo_store processLoop_turn (\<lambda>_. id_orders) sample_turns NewInformer" by code_simp
  moreover have "length (ff_queue (is_fifo sample_run)) \<le> 2" by code_simp
  moreover have "fold told sample_turns Map.empty = [MetaNamespaceKeyFunc (sample ''a'' 3) \<mapsto> sample ''a'' 3]"
    by (simp add: sample_turns_def put_object_def)
  ultimately show ?thesis
    using informer_converges [of "\<lambda>_. id_orders" sample_turns 2] by (simp add: fair_id_orders)
qed

text \<open>
  C30. \<open>HasSynced\<close> of an informer, for which \<open>Run\<close> waits before it starts the workers, means
  that the first list is delivered: every listed object had its key in a call to the handlers.
\<close>

theorem has_synced_delivered:
  assumes "\<forall>n. fair_orders (ords n)" and "HasSynced (is_fifo (informer_run ords (Listed objs # ts) NewInformer))"
    and "ob \<in> set objs"
  shows "\<exists>c \<in> set (is_calls (informer_run ords (Listed objs # ts) NewInformer)). call_key c = MetaNamespaceKeyFunc ob"
proof -
  let ?s = "take_turn (fifo_store (ords 0)) processLoop_turn (Listed objs) NewInformer"
  let ?r = "informer_run (\<lambda>n. ords (Suc n)) ts ?s"
  have "first_list (MetaNamespaceKeyFunc ` set objs) (length objs) ?r"
    using assms(1)
    by (intro informer_run_keeps [where P = "first_list (MetaNamespaceKeyFunc ` set objs) (length objs)"]
        first_list_start first_list_turn fifo_queue.turn_ok informer_inv_new) simp_all
  moreover have "HasSynced (is_fifo ?r)" using assms(2) by simp
  ultimately have "MetaNamespaceKeyFunc ` set objs \<subseteq> call_key ` set (is_calls ?r)"
    by (simp add: first_list_def HasSynced_def)
  then have "MetaNamespaceKeyFunc ob \<in> call_key ` set (is_calls ?r)" using assms(3) by blast
  then show ?thesis by (simp add: image_iff) metis
qed

theorem has_synced_delivered_witness:
  "\<exists>c \<in> set (is_calls (informer_run (\<lambda>_. id_orders) (Listed [sample ''a'' 1, sample ''b'' 1] # [Processed, Processed]) NewInformer)).
     call_key c = MetaNamespaceKeyFunc (sample ''b'' 1)"
proof (rule has_synced_delivered)
  show "HasSynced (is_fifo (informer_run (\<lambda>_. id_orders) (Listed [sample ''a'' 1, sample ''b'' 1] # [Processed, Processed]) NewInformer))"
    by code_simp
qed (simp_all add: fair_id_orders)

section \<open>What a relist loses\<close>

lemma syncs_keep_deleted:
  assumes "willObjectBeDeletedLocked key f"
  shows "deltas_of (queue_syncs objs f) key = deltas_of f key"
  using assms
proof (induction objs arbitrary: f)
  case (Cons ob objs)
  have "deltas_of (queueActionLocked (Sync_of ob) f) key = deltas_of f key"
  proof (cases "ignored (Sync_of ob) f")
    case False
    then have "key \<noteq> MetaNamespaceKeyFunc ob" using Cons.prems by (auto simp: ignored_def)
    with False show ?thesis by (simp add: action_deltas)
  qed (simp add: action_ignored)
  with Cons show ?case by (simp add: willObjectBeDeletedLocked_def)
qed simp

lemma syncs_keep_unlisted:
  "key \<notin> MetaNamespaceKeyFunc ` set objs \<Longrightarrow> deltas_of (queue_syncs objs f) key = deltas_of f key"
proof (induction objs arbitrary: f)
  case (Cons ob objs)
  have "deltas_of (queueActionLocked (Sync_of ob) f) key = deltas_of f key"
    using Cons.prems by (cases "ignored (Sync_of ob) f") (simp_all add: action_ignored action_deltas)
  with Cons show ?case by simp
qed simp

lemma tombstones_keep:
  "key \<notin> set ks \<Longrightarrow> deltas_of (fold (tombstone look) ks f) key = deltas_of f key"
proof (induction ks arbitrary: f)
  case (Cons k ks)
  have "deltas_of (tombstone look k f) key = deltas_of f key"
    using Cons.prems by (simp add: tombstone_def ignored_def action_deltas)
  with Cons show ?case by simp
qed simp

lemma Replace_deltas:
  assumes "fair_orders ord" and "key \<in> MetaNamespaceKeyFunc ` set objs \<or> map_of (items st) key = None"
  shows "deltas_of (fifo_Replace ord (Some st) objs f) key = deltas_of (queue_syncs objs f) key"
proof -
  let ?gone = "filter (\<lambda>k. k \<notin> MetaNamespaceKeyFunc ` set objs) (name_order ord 0 (go_keys (items st)))"
  obtain b n where eq: "fifo_Replace ord (Some st) objs f =
      (fold (tombstone (known_object st)) ?gone (queue_syncs objs f))\<lparr>ff_populated := b, ff_initialPopulationCount := n\<rparr>"
    using Replace_eq [of ord st objs f] by blast
  have "key \<notin> set ?gone" using assms by (auto simp: domIff)
  then show ?thesis by (simp add: eq tombstones_keep)
qed

lemma view_after_drain:
  assumes "informer_inv s" and "length (ff_queue (is_fifo s)) \<le> n"
  shows "known ((processLoop_turn ^^ n) s) = informer_view s"
  using fifo_queue.drain [OF assms] fifo_queue.drained [of "(processLoop_turn ^^ n) s"] by simp

lemma dedup_single: "dedupDeltas [d] = [d]"
  by (simp add: dedupDeltas_def)

text \<open>The queue after a deletion, an addition and a list, when it was empty before.\<close>

lemma relist_run:
  assumes "\<forall>n. fair_orders (ords n)" and inv: "informer_inv s" and empty: "ff_queue (is_fifo s) = []"
    and one: "known s (MetaNamespaceKeyFunc ob1) \<noteq> None" "MetaNamespaceKeyFunc ob1 \<in> MetaNamespaceKeyFunc ` set objs"
    and two: "known s (MetaNamespaceKeyFunc ob2) = None" "MetaNamespaceKeyFunc ob2 \<notin> MetaNamespaceKeyFunc ` set objs"
    and r: "r = informer_run ords [Watched (Watch_Deleted ob1), Watched (Watch_Added ob2), Listed objs] s"
  shows "known r = known s \<and> deltas_of (is_fifo r) (MetaNamespaceKeyFunc ob1) = [Deleted_of (Object ob1)] \<and>
    deltas_of (is_fifo r) (MetaNamespaceKeyFunc ob2) = [Added_of ob2]"
proof -
  let ?k1 = "MetaNamespaceKeyFunc ob1" and ?k2 = "MetaNamespaceKeyFunc ob2"
  have d: "deltas_of (is_fifo s) k = []" for k
    using inv empty by (simp add: informer_inv_def fifo_inv_def fifo_okD(4))
  have ne: "?k1 \<noteq> ?k2" using one(1) two(1) by auto
  define f1 where "f1 = fifo_Delete (Some (is_store s)) (Object ob1) (is_fifo s)"
  have "f1 = queueActionLocked (Deleted_of (Object ob1)) ((is_fifo s)\<lparr>ff_populated := True\<rparr>)"
    using one(1) by (auto simp: f1_def fifo_Delete_def Let_def go_has_def)
  then have f1: "deltas_of f1 = (deltas_of (is_fifo s))(?k1 := [Deleted_of (Object ob1)])"
    by (simp add: action_deltas ignored_def d dedup_single)
  define f2 where "f2 = fifo_Add ob2 f1"
  have f2: "deltas_of f2 = (deltas_of f1)(?k2 := [Added_of ob2])"
    using ne by (simp add: f2_def fifo_Add_def action_deltas ignored_def f1 d dedup_single)
  have run: "r = s\<lparr>is_fifo := fifo_Replace (ords 2) (Some (is_store s)) objs f2\<rparr>"
    by (simp add: r syncWith_def fifo_store_def f2_def f1_def numeral_2_eq_2)
  have "willObjectBeDeletedLocked ?k1 f2" using ne by (simp add: willObjectBeDeletedLocked_def f2 f1)
  then have "deltas_of (is_fifo r) ?k1 = deltas_of f2 ?k1"
    using assms(1) one(2) by (simp add: run Replace_deltas syncs_keep_deleted)
  moreover have "deltas_of (is_fifo r) ?k2 = deltas_of f2 ?k2"
    using assms(1) two by (simp add: run Replace_deltas syncs_keep_unlisted)
  ultimately show ?thesis using ne by (simp add: f2 f1) (simp add: run)
qed

text \<open>
  C31. A list that comes while the queue holds deltas can leave the store of the informer
  different from the server: an object deleted and created again, whose new version is listed,
  is dropped; an object created and deleted again, which is not listed, is kept. The drained
  store stays wrong for these keys.
\<close>

theorem relist_loses:
  assumes "\<forall>n. fair_orders (ords n)" and "informer_inv s" and "ff_queue (is_fifo s) = []"
    and "known s (MetaNamespaceKeyFunc ob1) \<noteq> None" and "MetaNamespaceKeyFunc ob1 \<in> MetaNamespaceKeyFunc ` set objs"
    and "known s (MetaNamespaceKeyFunc ob2) = None" and "MetaNamespaceKeyFunc ob2 \<notin> MetaNamespaceKeyFunc ` set objs"
    and "r = informer_run ords [Watched (Watch_Deleted ob1), Watched (Watch_Added ob2), Listed objs] s"
    and "length (ff_queue (is_fifo r)) \<le> n"
  shows "known ((processLoop_turn ^^ n) r) (MetaNamespaceKeyFunc ob1) = None \<and>
    told (Listed objs) m (MetaNamespaceKeyFunc ob1) \<noteq> None \<and>
    known ((processLoop_turn ^^ n) r) (MetaNamespaceKeyFunc ob2) = Some ob2 \<and>
    told (Listed objs) m (MetaNamespaceKeyFunc ob2) = None"
proof -
  have inv: "informer_inv r" unfolding assms(8) by (rule fifo_queue.run_ok [OF assms(1,2)])
  have "informer_view r (MetaNamespaceKeyFunc ob1) = None" "informer_view r (MetaNamespaceKeyFunc ob2) = Some ob2"
    using relist_run [OF assms(1-8)] by (simp_all add: informer_view_def pending_def)
  moreover have "fold put_object objs Map.empty (MetaNamespaceKeyFunc ob1) \<noteq> None"
  proof -
    obtain ob where "ob \<in> set objs" "MetaNamespaceKeyFunc ob1 = MetaNamespaceKeyFunc ob" using assms(5) by blast
    then show ?thesis using listed_told [of ob objs Map.empty] by simp
  qed
  moreover have "fold put_object objs Map.empty (MetaNamespaceKeyFunc ob2) = None"
    using assms(7) by (subst fold_put_object) simp
  ultimately show ?thesis by (simp add: view_after_drain [OF inv assms(9)])
qed

definition sample_relist :: "nat turn list" where
  "sample_relist = [Watched (Watch_Deleted (sample ''a'' 1)), Watched (Watch_Added (sample ''b'' 1)), Listed [sample ''a'' 2]]"

theorem relist_loses_witness:
  "\<exists>s r. s = informer_run (\<lambda>_. id_orders) [Listed [sample ''a'' 1], Processed] NewInformer \<and>
     r = informer_run (\<lambda>_. id_orders) sample_relist s \<and>
     known ((processLoop_turn ^^ 2) r) (MetaNamespaceKeyFunc (sample ''a'' 1)) = None \<and>
     known ((processLoop_turn ^^ 2) r) (MetaNamespaceKeyFunc (sample ''b'' 1)) = Some (sample ''b'' 1)"
proof -
  define s where "s = informer_run (\<lambda>_. id_orders) [Listed [sample ''a'' 1], Processed] (NewInformer :: nat informer_state)"
  define r where "r = informer_run (\<lambda>_. id_orders) sample_relist s"
  have inv: "informer_inv s" unfolding s_def by (rule informer_run_inv) (simp add: fair_id_orders)
  have "ff_queue (is_fifo s) = []" "\<not> Option.is_none (known s (MetaNamespaceKeyFunc (sample ''a'' 1)))"
    "Option.is_none (known s (MetaNamespaceKeyFunc (sample ''b'' 1)))"
    "length (ff_queue (is_fifo r)) \<le> 2" unfolding s_def r_def by code_simp+
  moreover have "MetaNamespaceKeyFunc (sample ''b'' 1) \<notin> MetaNamespaceKeyFunc ` set [sample ''a'' 2]" by code_simp
  moreover have "MetaNamespaceKeyFunc (sample ''a'' 1) \<in> MetaNamespaceKeyFunc ` set [sample ''a'' 2]" by code_simp
  ultimately have "known ((processLoop_turn ^^ 2) r) (MetaNamespaceKeyFunc (sample ''a'' 1)) = None \<and>
      known ((processLoop_turn ^^ 2) r) (MetaNamespaceKeyFunc (sample ''b'' 1)) = Some (sample ''b'' 1)"
    using relist_loses [of "\<lambda>_. id_orders" s "sample ''a'' 1" "[sample ''a'' 2]" "sample ''b'' 1" r 2] inv
    by (simp add: fair_id_orders Option.is_none_def r_def sample_relist_def)
  then show ?thesis unfolding r_def s_def by blast
qed

end
