(* ===== verification/Reference_World.thy ===== *)
theory Reference_World
  imports Quiet_Run App
begin

text \<open>
  A world the assumptions about the environment hold in: the table of the reference kernel, an
  API server that lists the pods of a namespace and the configmaps it holds, a shell that
  records its commands. \<open>boot_env\<close> is interpreted here, and the concrete runs used as witnesses
  are set up.
\<close>

record cworld = kworld +
  w_pods :: "Pod list"
  w_cms :: "ConfigMap list"
  w_cmds :: "shell_cmd list"

definition ref_kube :: "cworld kube" where
  "ref_kube = \<lparr>list_pods = (\<lambda>ns w. (Inr (filter (\<lambda>p. pod_Namespace p = ns) (w_pods w)), w)),
     list_cms = (\<lambda>ns w. (Inr (w_cms w), w))\<rparr>"

definition ref_handle :: "string list \<Rightarrow> cworld IPVSHandle" where
  "ref_handle scheds = netlink_handle (kern_sync scheds)"

definition ref_host :: "string list \<Rightarrow> cworld host" where
  "ref_host scheds = \<lparr>run_sh = (\<lambda>c w. (([], None), w\<lparr>w_cmds := w_cmds w @ [c]\<rparr>)),
     rand_Intn = (\<lambda>n w. (length (w_cmds w) mod n, w)),
     libipvs_New = (\<lambda>w. ((Some (ref_handle scheds), None), w))\<rparr>"

definition rr :: "string list" where "rr = [''rr'']"

abbreviation ref_cfg :: Config where
  "ref_cfg \<equiv> quad_config 10 0 0 1 ''rr''"

abbreviation ref_vip :: bytes where
  "ref_vip \<equiv> [10, 0, 0, 1]"

interpretation ref: boot_env "ref_handle rr" kern_view kern_ok "kern_svc_ok rr" kern_dst_ok
    "ref_host rr" ref_cfg ref_vip ref_kube
proof (intro boot_env.intro boot_env_axioms.intro, goal_cases)
  case 1
  show ?case unfolding ref_handle_def by (rule kern.reliable_handle_axioms)
next
  case (2 w c out w')
  then show ?case by (auto simp: ref_host_def kern_ok_def kern_view_def)
next
  case (3 w)
  then show ?case by (simp add: ref_host_def)
next
  case 4
  show ?case by (simp add: quad_config_def)
next
  case 5
  show ?case by (simp add: quad_config_def ParseIP_dotted_quad)
next
  case (6 ifc p port)
  show ?case by (simp add: kern_svc_ok_def rr_def init_manager_def quad_config_def)
next
  case (7 ifc p port ip)
  show ?case by (simp add: kern_dst_ok_def base_destination_def zero_Destination_def)
next
  case (8 w ns ps w')
  then show ?case by (simp add: ref_kube_def)
next
  case (9 w ns cs w')
  then show ?case by (simp add: ref_kube_def)
qed

section \<open>Concrete pods and configmaps\<close>

definition quad_pod :: "string \<Rightarrow> u8 \<Rightarrow> u8 \<Rightarrow> u8 \<Rightarrow> u8 \<Rightarrow> bool \<Rightarrow> Pod" where
  "quad_pod name a b c d del = \<lparr>pod_Name = ''nginx-ingress-controller-'' @ name,
     pod_Namespace = nginxDefault, pod_PodIP = dotted_quad a b c d, pod_Deleted = del\<rparr>"

definition port_cm :: "string \<Rightarrow> nat list \<Rightarrow> ConfigMap" where
  "port_cm name ps = \<lparr>cm_Name = name, cm_Data = Some (map (\<lambda>p. (dec p, ''default/svc'')) ps)\<rparr>"

lemma quad_pod_sel [simp]:
  "pod_Name (quad_pod name a b c d del) = ''nginx-ingress-controller-'' @ name"
  "pod_Namespace (quad_pod name a b c d del) = nginxDefault"
  "pod_PodIP (quad_pod name a b c d del) = dotted_quad a b c d"
  "pod_Deleted (quad_pod name a b c d del) = del"
  by (simp_all add: quad_pod_def)

lemma dotted_quad_nonempty [simp]: "dotted_quad a b c d \<noteq> []"
  by (simp add: dotted_quad_def)

lemma quad_pod_addr [simp]: "pod_addr (quad_pod name a b c d del) = Some [a, b, c, d]"
  by (simp add: pod_addr_def ParseIP_dotted_quad)

lemma quad_pod_valid [simp]: "fst (ValidateIPv4 (dotted_quad a b c d))"
  by (simp add: ValidateIPv4_quad)

lemma nginx_quad_pod [simp]:
  "nginx_pods (quad_pod name a b c d del # pods) = quad_pod name a b c d del # nginx_pods pods"
  "nginx_pods [] = []"
  by (simp_all add: nginx_pods_def nginxPattern_def)

lemma port_cm_keys [simp]: "data_keys (port_cm name ps) = map dec ps" "cm_Name (port_cm name ps) = name"
  by (simp_all add: port_cm_def data_keys_def)

lemma valid_ports_dec: "\<forall>p \<in> set ps. p \<le> 99999 \<Longrightarrow> valid_ports (map dec ps) = of_nat ` set ps"
  by (induction ps) (auto simp: ValidatePort_dec split: prod.splits bool.splits)

lemma contains_services [simp]:
  "Contains tcpService tcpService" "Contains udpService udpService"
  "\<not> Contains tcpService udpService" "\<not> Contains udpService tcpService"
  by (simp_all add: tcpService_def udpService_def)

definition ref_cms :: "ConfigMap list" where
  "ref_cms = [port_cm tcpService [80, 443], port_cm udpService [53]]"

definition ref_pods :: "Pod list" where
  "ref_pods = [quad_pod ''a'' 10 0 0 11 False, quad_pod ''b'' 10 0 0 12 False]"

definition ref_world :: cworld where
  "ref_world = \<lparr>w_table = [], w_pods = ref_pods, w_cms = ref_cms, w_cmds = []\<rparr>"

lemma ref_cms_ports:
  "cm_ports tcpService ref_cms = {80, 443}" "cm_ports udpService ref_cms = {53}" "good_cms ref_cms"
proof -
  have "valid_ports (map dec [80, 443]) = {80, 443}" "valid_ports (map dec [53]) = {53}"
    by (subst valid_ports_dec; simp)+
  then show "cm_ports tcpService ref_cms = {80, 443}" "cm_ports udpService ref_cms = {53}"
    by (simp_all add: ref_cms_def del: valid_ports_simps list.map)
  show "good_cms ref_cms" by (simp add: good_cms_def ref_cms_def ValidatePort_dec)
qed

lemma ref_pods_ok: "good_pods ref_pods" "pod_addrs ref_pods = {[10, 0, 0, 11], [10, 0, 0, 12]}"
  by (auto simp: good_pods_def ref_pods_def pod_addrs_def)

lemma ref_world_ok: "kern_ok ref_world" "kern_view ref_world = Map.empty"
  by (simp_all add: kern_ok_def kern_view_def table_ok_def table_view_def ref_world_def fun_eq_iff)

section \<open>A concrete run\<close>

text \<open>The cluster changes its pods and configmaps; the kernel's table is not its business.\<close>

definition cluster_change :: "cworld \<Rightarrow> cworld \<Rightarrow> bool" where
  "cluster_change w w' \<longleftrightarrow> w_table w' = w_table w"

lemma cluster_change_quiet: "cluster_change w w' \<Longrightarrow> kern_ok w \<Longrightarrow> kern_ok w' \<and> kern_view w' = kern_view w"
  by (simp add: cluster_change_def kern_ok_def kern_view_def)

definition ref_manager :: "cworld LvsManager" where
  "ref_manager = init_manager ref_cfg (ref_handle rr) []"

definition ref_world0 :: cworld where
  "ref_world0 = ref_world\<lparr>w_cmds := [DefaultRoute, FlushMangle]\<rparr>"

lemma ref_New: "NewLoadBalancerController (ref_host rr) ref_cfg ref_world = Some (fresh ref_cfg ref_manager, ref_world0)"
proof -
  have f: "Flush (ref_handle rr) w = Some (None, w\<lparr>w_table := []\<rparr>)" for w
    by (simp add: ref_handle_def netlink_handle_def kern_Flush)
  have a: "Atoi (cfg_Idle_Timeout ref_cfg) = (0, Some ErrSyntax)"
    by (simp add: quad_config_def Atoi_def)
  have "Init (ref_host rr) ref_cfg NewLvsManager ref_world = Some (ref_manager, ref_world0)"
    by (simp add: Init_def NewLvsManager_def Intf_def ref_host_def initIptables_def f a
        ref_manager_def init_manager_def ref_world0_def ref_world_def drop_newlines_def)
  then show ?thesis by (simp add: New_fresh)
qed

abbreviation ref_run :: "cworld st \<Rightarrow> bytes set \<Rightarrow> u16 set \<Rightarrow> u16 set \<Rightarrow> bool" where
  "ref_run \<equiv> quiet_run kern_ok cluster_change ref_kube (ref_host rr) ref_cfg"

abbreviation ref_addrs :: "bytes set" where
  "ref_addrs \<equiv> {[10, 0, 0, 11], [10, 0, 0, 12]}"

lemma ref_lists:
  "list_cms ref_kube ns w = (Inr (w_cms w), w)"
  "list_pods ref_kube ns w = (Inr (filter (\<lambda>p. pod_Namespace p = ns) (w_pods w)), w)"
  by (simp_all add: ref_kube_def)

lemma fresh_server: "nginxServer (fresh ref_cfg lm) = nginxDefault"
  by (simp add: quad_config_def)

lemma ref_pods_server: "filter (\<lambda>p. pod_Namespace p = nginxDefault) ref_pods = ref_pods"
  by (simp add: ref_pods_def)

lemma ref_started: "\<exists>s. ref_run s ref_addrs {80, 443} {53}"
proof -
  let ?l = "fresh ref_cfg ref_manager"
  have cms: "list_cms ref_kube (nginxServer ?l) ref_world0 = (Inr ref_cms, ref_world0)"
    by (simp add: ref_lists ref_world0_def ref_world_def)
  have pods: "list_pods ref_kube (nginxServer ?l) ref_world0 = (Inr ref_pods, ref_world0)"
    by (simp only: ref_lists fresh_server) (simp add: ref_world0_def ref_world_def ref_pods_server)
  have nz: "0 \<notin> cm_ports tcpService ref_cms" "0 \<notin> cm_ports udpService ref_cms"
    by (simp_all only: ref_cms_ports) simp_all
  obtain lbc1 s where b: "Initial ref_kube id_orders ?l ref_world0 = Returns (None, lbc1, ref_world0)"
    "processFunc (ref_host rr) id_orders lbc1 ref_world0 = Returns s"
    using ref.boot_settles [OF ref_world_ok(1) fair_id_orders fair_id_orders ref_New cms ref_cms_ports(3) nz pods ref_pods_ok(1)]
    by blast
  have "ref_run s (pod_addrs ref_pods) (cm_ports tcpService ref_cms) (cm_ports udpService ref_cms)"
    by (rule quiet_run.start, rule ref_world_ok(1), rule fair_id_orders, rule fair_id_orders, rule ref_New,
        rule cms, rule ref_cms_ports(3), rule nz(1), rule nz(2), rule pods, rule ref_pods_ok(1), rule b(1), rule b(2))
  then show ?thesis unfolding ref_cms_ports ref_pods_ok by blast
qed

text \<open>The next event: port 443 is taken out of the tcp configmap.\<close>

definition pods_in :: "string \<Rightarrow> Pod list" where
  "pods_in ns = map (pod_Namespace_update (\<lambda>_. ns)) ref_pods"

lemma pods_in_ok:
  "filter (\<lambda>p. pod_Namespace p = ns) (pods_in ns) = pods_in ns" "good_pods (pods_in ns)" "pod_addrs (pods_in ns) = ref_addrs"
proof -
  have np: "nginx_pods (pods_in ns) = pods_in ns"
    by (simp add: pods_in_def ref_pods_def nginx_pods_def nginxPattern_def)
  show "filter (\<lambda>p. pod_Namespace p = ns) (pods_in ns) = pods_in ns" by (simp add: pods_in_def ref_pods_def)
  show "good_pods (pods_in ns)" unfolding good_pods_def np
    by (simp add: pods_in_def ref_pods_def pod_addr_def ParseIP_dotted_quad)
  show "pod_addrs (pods_in ns) = ref_addrs" unfolding pod_addrs_def np
    by (auto simp: pods_in_def ref_pods_def pod_addr_def ParseIP_dotted_quad)
qed

lemma ref_event:
  "\<exists>lbc w. ref_run (lbc, w) ref_addrs {80, 443} {53} \<and>
     cm_event ref_kube tcpService ref_addrs {80, 443} {80} (port_cm tcpService [80, 443]) (port_cm tcpService [80]) lbc w"
proof -
  obtain lbc w where r: "ref_run (lbc, w) ref_addrs {80, 443} {53}" using ref_started by (metis surj_pair)
  let ?w = "w\<lparr>w_pods := pods_in (nginxServer lbc)\<rparr>"
  have "ref_run (lbc, ?w) ref_addrs {80, 443} {53}"
    by (rule quiet_run.elsewhere [OF r]) (simp add: cluster_change_def)
  moreover have "valid_ports (map dec [80]) = {80}" by (subst valid_ports_dec; simp)
  then have "cm_event ref_kube tcpService ref_addrs {80, 443} {80} (port_cm tcpService [80, 443]) (port_cm tcpService [80]) lbc ?w"
    unfolding cm_event_def ref_lists port_cm_keys using pods_in_ok [of "nginxServer lbc"]
    by (auto simp: port_cm_def data_eq_def go_map_eq_def)
  ultimately show ?thesis by blast
qed

end
