(* ===== verification/Pod_Events.thy ===== *)
theory Pod_Events
  imports Informer_Correct Reference_World
begin

text \<open>
  The two informers of \<open>NewLoadBalancerController\<close>: their handlers are the functions of the
  controller, registered as \<open>ResourceEventHandlerFuncs\<close> (\<open>client-go/tools/cache/controller.go\<close>).
  Shown: what a call of the informer means for the controller, and which pods the update
  handler never hears of.
\<close>

section \<open>Registered handlers\<close>

record ('v, 'w) ResourceEventHandlerFuncs =
  AddFunc :: "('v object \<Rightarrow> 'w LoadBalancerController \<Rightarrow> 'w \<Rightarrow> 'w st outcome) option"
  UpdateFunc :: "('v object \<Rightarrow> 'v object \<Rightarrow> 'w LoadBalancerController \<Rightarrow> 'w \<Rightarrow> 'w st outcome) option"
  DeleteFunc :: "('v final \<Rightarrow> 'w LoadBalancerController \<Rightarrow> 'w \<Rightarrow> 'w st outcome) option"

text \<open>A function that is nil is not called.\<close>

fun notify :: "('v, 'w) ResourceEventHandlerFuncs \<Rightarrow> 'v notification \<Rightarrow> 'w LoadBalancerController \<Rightarrow> 'w \<Rightarrow> 'w st outcome" where
  "notify r (OnAdd obj) lbc w = (case AddFunc r of Some f \<Rightarrow> f obj lbc w | None \<Rightarrow> Returns (lbc, w))"
| "notify r (OnUpdate oldObj newObj) lbc w =
     (case UpdateFunc r of Some f \<Rightarrow> f oldObj newObj lbc w | None \<Rightarrow> Returns (lbc, w))"
| "notify r (OnDelete obj) lbc w = (case DeleteFunc r of Some f \<Rightarrow> f obj lbc w | None \<Rightarrow> Returns (lbc, w))"

declare notify.simps [simp del]

text \<open>The body of a pod: what the handlers read besides its name and namespace.\<close>

record pod_body =
  pb_PodIP :: string
  pb_Deleted :: bool

definition pod_of :: "pod_body object \<Rightarrow> Pod" where
  "pod_of ob = \<lparr>pod_Name = ob_Name ob, pod_Namespace = ob_Namespace ob,
     pod_PodIP = pb_PodIP (ob_Body ob), pod_Deleted = pb_Deleted (ob_Body ob)\<rparr>"

type_synonym cm_body = "(string, string) gomap option"

definition cm_of :: "cm_body object \<Rightarrow> ConfigMap" where
  "cm_of ob = \<lparr>cm_Name = ob_Name ob, cm_Data = ob_Body ob\<rparr>"

definition pod_handlers :: "'w kube \<Rightarrow> orders \<Rightarrow> (pod_body, 'w) ResourceEventHandlerFuncs" where
  "pod_handlers kube ord = \<lparr>AddFunc = Some (\<lambda>obj lbc w. Returns (addrAddFunc (pod_of obj) lbc, w)),
     UpdateFunc = Some (\<lambda>oldObj newObj. addrUpdateFunc kube ord (pod_of oldObj) (pod_of newObj)),
     DeleteFunc = None\<rparr>"

definition cm_handlers :: "'w kube \<Rightarrow> orders \<Rightarrow> (cm_body, 'w) ResourceEventHandlerFuncs" where
  "cm_handlers kube ord = \<lparr>AddFunc = None,
     UpdateFunc = Some (\<lambda>oldObj newObj. updatePorts kube ord (cm_of oldObj) (cm_of newObj)), DeleteFunc = None\<rparr>"

text \<open>
  What \<open>NewLoadBalancerController\<close> hands to \<open>NewInformer\<close>: the resource and the namespace its
  reflector lists and watches, the resync period, and the handlers. With period 0 the channel of
  \<open>resyncChan\<close> is one on which nothing is ever sent (\<open>None\<close>), so a reflector never resyncs.
\<close>

record ('v, 'w) informer_args =
  ia_resource :: string
  ia_namespace :: string
  ia_resyncPeriod :: int
  ia_handlers :: "('v, 'w) ResourceEventHandlerFuncs"

definition pod_informer :: "'w kube \<Rightarrow> orders \<Rightarrow> 'w LoadBalancerController \<Rightarrow> (pod_body, 'w) informer_args" where
  "pod_informer kube ord lbc = \<lparr>ia_resource = ''pods'', ia_namespace = nginxServer lbc, ia_resyncPeriod = 0,
     ia_handlers = pod_handlers kube ord\<rparr>"

definition cm_informer :: "'w kube \<Rightarrow> orders \<Rightarrow> 'w LoadBalancerController \<Rightarrow> (cm_body, 'w) informer_args" where
  "cm_informer kube ord lbc = \<lparr>ia_resource = ''configmaps'', ia_namespace = nginxServer lbc, ia_resyncPeriod = 0,
     ia_handlers = cm_handlers kube ord\<rparr>"

definition resyncChan :: "int \<Rightarrow> int option" where
  "resyncChan resyncPeriod = (if resyncPeriod = 0 then None else Some resyncPeriod)"

fun possible :: "int \<Rightarrow> 'v turn \<Rightarrow> bool" where
  "possible resyncPeriod Resynced \<longleftrightarrow> resyncChan resyncPeriod \<noteq> None"
| "possible resyncPeriod t \<longleftrightarrow> True"

lemma no_resync:
  assumes "\<forall>t \<in> set ts. possible (ia_resyncPeriod (pod_informer kube ord lbc)) t"
  shows "Resynced \<notin> set ts"
  using assms by (auto simp: pod_informer_def resyncChan_def)

text \<open>The calls are the events of the goroutine model.\<close>

lemma notify_pod:
  "notify (pod_handlers kube ord) (OnAdd obj) lbc w = Returns (addrAddFunc (pod_of obj) lbc, w)"
  "notify (pod_handlers kube ord) (OnUpdate old new) lbc w = handle kube ord (PodEvent (pod_of old) (pod_of new)) lbc w"
  "notify (pod_handlers kube ord) (OnDelete x) lbc w = Returns (lbc, w)"
  by (simp_all add: notify.simps pod_handlers_def OnUpdate_pod_def)

lemma notify_cm:
  "notify (cm_handlers kube ord) (OnAdd obj') lbc w = Returns (lbc, w)"
  "notify (cm_handlers kube ord) (OnUpdate old' new') lbc w = handle kube ord (CmEvent (cm_of old') (cm_of new')) lbc w"
  "notify (cm_handlers kube ord) (OnDelete x') lbc w = Returns (lbc, w)"
  by (simp_all add: notify.simps cm_handlers_def)

section \<open>Pods whose address comes last\<close>

text \<open>The objects of a key that a run puts into the queue, in order.\<close>

fun puts :: "'v turn \<Rightarrow> 'v object list" where
  "puts (Listed objs) = objs"
| "puts (Watched (Watch_Added ob)) = [ob]"
| "puts (Watched (Watch_Modified ob)) = [ob]"
| "puts t = []"

definition versions :: "string \<Rightarrow> 'v turn list \<Rightarrow> 'v object list" where
  "versions key ts = filter (\<lambda>ob. MetaNamespaceKeyFunc ob = key) (concat (map puts ts))"

definition no_addr :: "pod_body object option \<Rightarrow> bool" where
  "no_addr x \<longleftrightarrow> (\<forall>ob. x = Some ob \<longrightarrow> pb_PodIP (ob_Body ob) = [])"

lemma no_addr_simps [simp]: "no_addr None" "no_addr (Some ob) \<longleftrightarrow> pb_PodIP (ob_Body ob) = []"
  by (simp_all add: no_addr_def)

text \<open>Deltas after which no update has an old object with an address.\<close>

fun quiet :: "pod_body object option \<Rightarrow> pod_body delta list \<Rightarrow> bool" where
  "quiet old [] \<longleftrightarrow> True"
| "quiet old (d # ds) \<longleftrightarrow> (is_Deleted d \<or> no_addr old) \<and> quiet (delta_view d) ds"

lemma quiet_append:
  "quiet old (ds @ [d]) \<longleftrightarrow> quiet old ds \<and> (is_Deleted d \<or> no_addr (if ds = [] then old else delta_view (last ds)))"
  by (induction ds arbitrary: old) auto

fun quiet_call :: "string \<Rightarrow> pod_body notification \<Rightarrow> bool" where
  "quiet_call key (OnUpdate old new) \<longleftrightarrow> (MetaNamespaceKeyFunc new = key \<longrightarrow> pb_PodIP (ob_Body old) = [])"
| "quiet_call key c \<longleftrightarrow> True"

text \<open>
  What holds of a queue \<open>f\<close> over a store \<open>m\<close> when the versions \<open>vs\<close> of the key are still to
  come, of which only the last may have an address.
\<close>

definition late :: "string \<Rightarrow> pod_body object list \<Rightarrow> pod_body fifo \<Rightarrow> (string \<Rightarrow> pod_body object option) \<Rightarrow> bool" where
  "late key vs f m \<longleftrightarrow> quiet (m key) (deltas_of f key) \<and> (vs \<noteq> [] \<longrightarrow> no_addr (pending f m key)) \<and>
     (\<forall>ob \<in> set (butlast vs). pb_PodIP (ob_Body ob) = [])"

abbreviation of_key :: "string \<Rightarrow> 'v object list \<Rightarrow> 'v object list" where
  "of_key key objs \<equiv> filter (\<lambda>ob. MetaNamespaceKeyFunc ob = key) objs"

lemma late_flags [simp]:
  "late key vs (f\<lparr>ff_populated := b\<rparr>) m = late key vs f m"
  "late key vs (f\<lparr>ff_initialPopulationCount := n\<rparr>) m = late key vs f m"
  by (simp_all add: late_def)

lemma quiet_dedup:
  assumes "quiet old ds" and "\<not> is_Deleted d \<Longrightarrow> no_addr (if ds = [] then old else delta_view (last ds))"
    and "\<And>a. a \<in> set ds \<Longrightarrow> delta_key a = delta_key d"
  shows "quiet old (dedupDeltas (ds @ [d]))"
proof (cases "ds \<noteq> [] \<and> is_Deleted d \<and> is_Deleted (last ds)")
  case True
  then obtain ds' a where ds: "ds = ds' @ [a]" by (cases ds rule: rev_exhaust) simp_all
  have "is_Deleted (merged d a)"
    using True assms(3) unfolding ds by (intro merged_deletion(1) [of _ _ "delta_key d"]) simp_all
  then show ?thesis using True assms(1) dedup_append [of ds d] unfolding ds by (simp add: quiet_append)
next
  case False
  then have "dedupDeltas (ds @ [d]) = ds @ [d]" by (simp only: dedup_append if_False)
  then show ?thesis using assms(1,2) by (cases "is_Deleted d") (simp_all add: quiet_append)
qed

lemma late_action:
  assumes ok: "fifo_ok f" and l: "late key (of_key key (case delta_view d of Some ob \<Rightarrow> [ob] | None \<Rightarrow> []) @ vs) f m"
    and dk: "\<And>ob. delta_view d = Some ob \<Longrightarrow> delta_key d = MetaNamespaceKeyFunc ob"
  shows "late key vs (queueActionLocked d f) m"
proof -
  let ?os = "of_key key (case delta_view d of Some ob \<Rightarrow> [ob] | None \<Rightarrow> [])"
  have rest: "\<forall>ob \<in> set (butlast vs). pb_PodIP (ob_Body ob) = []"
    using l by (cases vs) (auto simp: late_def butlast_append)
  consider (ign) "ignored d f" | (other) "\<not> ignored d f" "delta_key d \<noteq> key" | (here) "\<not> ignored d f" "delta_key d = key" by blast
  then show ?thesis
  proof cases
    case ign
    with l rest show ?thesis by (auto simp: action_ignored late_def)
  next
    case other
    then have "?os = []" using dk by (auto split: option.split)
    with other l show ?thesis by (simp add: late_def pending_action [OF ok] action_deltas)
  next
    case here
    have p: "pending f m key = (if deltas_of f key = [] then m key else delta_view (last (deltas_of f key)))"
      by (simp add: pending_def)
    have put: "no_addr (pending f m key)" if "\<not> is_Deleted d"
    proof -
      have "delta_view d \<noteq> None" using that by (simp add: delta_view_None)
      then obtain ob where "delta_view d = Some ob" by blast
      with here dk have "?os \<noteq> []" by simp
      then show ?thesis using l by (simp add: late_def)
    qed
    have "quiet (m key) (dedupDeltas (deltas_of f key @ [d]))"
      using l put here fifo_okD(5) [OF ok, of _ key] unfolding p by (intro quiet_dedup) (simp_all add: late_def)
    then have "quiet (m key) (deltas_of (queueActionLocked d f) key)" using here by (simp add: action_deltas)
    moreover have "pending (queueActionLocked d f) m key = delta_view d" using here by (simp add: pending_action [OF ok])
    moreover have "no_addr (delta_view d)" if "vs \<noteq> []"
    proof (cases "delta_view d")
      case (Some ob)
      then have "ob \<in> set (butlast (?os @ vs))" using that here dk by (simp add: butlast_append)
      with l Some show ?thesis by (simp add: late_def)
    qed simp
    ultimately show ?thesis using rest by (simp add: late_def)
  qed
qed

lemma late_deleted: "fifo_ok f \<Longrightarrow> late key vs f m \<Longrightarrow> late key vs (queueActionLocked (Deleted_of x) f) m"
  by (rule late_action) simp_all

lemma late_syncs:
  assumes "fifo_ok f" and "late key (of_key key objs @ vs) f m"
  shows "late key vs (queue_syncs objs f) m \<and> fifo_ok (queue_syncs objs f)"
  using assms
proof (induction objs arbitrary: f)
  case (Cons ob objs)
  have "late key (of_key key objs @ vs) (queueActionLocked (Sync_of ob) f) m"
    using Cons.prems by (intro late_action) auto
  with Cons.IH [of "queueActionLocked (Sync_of ob) f"] Cons.prems(1) show ?case by (simp add: fifo_ok_action)
qed simp

lemma late_tombstones:
  assumes "fifo_ok f" and "late key vs f m"
  shows "late key vs (fold (tombstone look) ks f) m"
  using assms
  by (induction ks arbitrary: f) (simp_all add: tombstone_def fifo_ok_action late_deleted)

lemma late_Replace:
  assumes "fifo_ok f" and "late key (of_key key objs @ vs) f m"
  shows "late key vs (fifo_Replace ord (Some st) objs f) m"
proof -
  obtain b n where eq: "fifo_Replace ord (Some st) objs f =
      (fold (tombstone (known_object st))
        (filter (\<lambda>k. k \<notin> MetaNamespaceKeyFunc ` set objs) (name_order ord 0 (go_keys (items st))))
        (queue_syncs objs f))\<lparr>ff_populated := b, ff_initialPopulationCount := n\<rparr>"
    using Replace_eq [of ord st objs f] by blast
  show ?thesis using late_syncs [OF assms] by (simp add: eq late_tombstones)
qed

text \<open>The process loop calls the handlers only with such old objects.\<close>

lemma quiet_Process:
  assumes "state_ok st" and "Process ds st = (cs, st')" and "chain (map_of (items st) key \<noteq> None) ds"
    and "\<forall>d \<in> set ds. delta_key d = key" and "quiet (map_of (items st) key) ds"
  shows "\<forall>c \<in> set cs. quiet_call key c"
  using assms
proof (induction ds arbitrary: st cs)
  case (Cons d ds)
  obtain c st1 where 1: "Process_delta d st = (c, st1)" by (cases "Process_delta d st") auto
  obtain cs1 st2 where 2: "Process ds st1 = (cs1, st2)" by (cases "Process ds st1") auto
  have cs: "cs = c # cs1" "st' = st2" using Cons.prems(2) 1 2 by simp_all
  have d: "state_ok st1" "map_of (items st1) key = delta_view d"
    using Process_delta_spec [OF Cons.prems(1) 1] Cons.prems(3,4) by auto
  have "chain (map_of (items st1) key \<noteq> None) ds"
    using Cons.prems(3) delta_view_None [of d] by (simp add: d(2))
  then have "\<forall>c \<in> set cs1. quiet_call key c"
    using Cons.IH [OF d(1) 2 [folded cs(2)]] Cons.prems(4,5) d(2) by simp
  moreover have "quiet_call key c"
    using 1 Cons.prems(4,5)
    by (cases d) (auto simp: Process_put_def cache_Get_def cache_GetByKey_def split: option.splits)
  ultimately show ?case by (simp add: cs)
qed simp

lemma other_calls: "call_key c \<noteq> key \<Longrightarrow> quiet_call key c"
  by (cases c) simp_all

text \<open>The invariant of a run in which only the last version of the key has an address.\<close>

definition late_state :: "string \<Rightarrow> pod_body object list \<Rightarrow> pod_body informer_state \<Rightarrow> bool" where
  "late_state key vs s \<longleftrightarrow> late key vs (is_fifo s) (known s) \<and> (\<forall>c \<in> set (is_calls s). quiet_call key c)"

lemma late_processed:
  assumes inv: "informer_inv s" and l: "late_state key vs s"
  shows "late_state key vs (processLoop_turn s)"
proof (cases "ff_queue (is_fifo s)")
  case Nil
  with l show ?thesis by (simp add: processLoop_empty)
next
  case (Cons k queue)
  let ?f = "is_fifo s" and ?st = "is_store s"
  let ?ds = "deltas_of ?f k"
  obtain cs st where p: "Process ?ds ?st = (cs, st)" by (cases "Process ?ds ?st") auto
  note inv' = inv [unfolded informer_inv_def fifo_inv_def chained_def]
  have ok: "fifo_ok ?f" using inv' by simp
  note eq = processLoop_head [OF ok Cons p]
  have ds: "?ds \<noteq> []" using ok Cons by (simp add: fifo_okD(4))
  have st: "map_of (items st) = (known s)(k := delta_view (last ?ds))"
    using Process_spec [OF _ p, of k] inv' fifo_okD(5) [OF ok] ds by auto
  have v: "informer_view (processLoop_turn s) = informer_view s" using processLoop_inv [OF inv] by simp
  have calls: "\<forall>c \<in> set cs. quiet_call key c"
  proof (cases "k = key")
    case True
    then show ?thesis
      using quiet_Process [OF _ p, of key] inv' fifo_okD(5) [OF ok] l by (auto simp: late_state_def late_def)
  next
    case False
    have "set (map call_key cs) = set (map delta_key ?ds)" by (simp only: Process_calls [OF p])
    then have "call_key c = k" if "c \<in> set cs" for c using that fifo_okD(5) [OF ok] by fastforce
    with False show ?thesis by (auto intro: other_calls)
  qed
  have "quiet (map_of (items st) key) (deltas_of (is_fifo (processLoop_turn s)) key)"
    using l by (cases "k = key") (simp_all add: eq deltas_popped st late_state_def late_def)
  with calls l v show ?thesis
    by (auto simp: late_state_def late_def eq informer_view_def)
qed

lemma late_turn:
  assumes inv: "informer_inv s" and l: "late_state key (of_key key (puts t) @ vs) s" and "t \<noteq> Resynced"
  shows "late_state key vs (take_turn (fifo_store ord) processLoop_turn t s)"
proof -
  have ok: "fifo_ok (is_fifo s)" "fifo_ok ((is_fifo s)\<lparr>ff_populated := True\<rparr>)"
    using inv by (simp_all add: informer_inv_def fifo_inv_def)
  have q: "late key (of_key key (puts t) @ vs) (is_fifo s) (known s)" "\<forall>c \<in> set (is_calls s). quiet_call key c"
    using l by (simp_all add: late_state_def)
  show ?thesis
  proof (cases t)
    case (Listed objs)
    with q late_Replace [OF ok(1)] show ?thesis by (simp add: late_state_def syncWith_def fifo_store_def)
  next
    case (Watched ev)
    have puts: "late key vs (queueActionLocked d ((is_fifo s)\<lparr>ff_populated := True\<rparr>)) (known s)"
      if "puts t = (case delta_view d of Some ob \<Rightarrow> [ob] | None \<Rightarrow> [])"
        and "\<And>ob. delta_view d = Some ob \<Longrightarrow> delta_key d = MetaNamespaceKeyFunc ob" for d
      using q(1) that by (intro late_action [OF ok(2)]) simp_all
    show ?thesis
    proof (cases ev)
      case (Watch_Added ob)
      with Watched q(2) puts [of "Added_of ob"] show ?thesis by (simp add: late_state_def fifo_store_def fifo_Add_def)
    next
      case (Watch_Modified ob)
      with Watched q(2) puts [of "Updated_of ob"] show ?thesis by (simp add: late_state_def fifo_store_def fifo_Update_def)
    next
      case (Watch_Deleted ob)
      with Watched q puts [of "Deleted_of (Object ob)"] show ?thesis
        by (simp add: late_state_def fifo_store_def fifo_Delete_def Let_def)
    qed (use Watched l in simp_all)
  next
    case Processed
    with late_processed [OF inv] l show ?thesis by simp
  qed (use assms(3) in simp)
qed

lemma late_run:
  assumes "\<forall>n. fair_orders (ords n)" and "informer_inv s" and "late_state key (versions key ts) s" and "Resynced \<notin> set ts"
  shows "late_state key [] (informer_run ords ts s)"
  using assms
proof (induction ts arbitrary: ords s)
  case (Cons t ts)
  let ?s = "take_turn (fifo_store (ords 0)) processLoop_turn t s"
  have "late_state key (versions key ts) ?s"
    using Cons.prems(3,4) by (intro late_turn [OF Cons.prems(2)]) (auto simp: versions_def)
  moreover have "informer_inv ?s" using Cons.prems(1,2) by (simp add: fifo_queue.turn_ok)
  ultimately show ?case using Cons.IH [of "\<lambda>n. ords (Suc n)" ?s] Cons.prems(1,4) by simp
qed (simp add: versions_def)

lemma late_new:
  assumes "\<forall>ob \<in> set (butlast vs). pb_PodIP (ob_Body ob) = []"
  shows "late_state key vs NewInformer"
proof -
  let ?s = "NewInformer :: pod_body informer_state"
  have "is_fifo ?s = NewDeltaFIFO" "known ?s = Map.empty" "is_calls ?s = []"
    by (simp_all add: NewInformer_def NewStore_def NewThreadSafeStore_def)
  with assms show ?thesis by (simp add: late_state_def late_def new_deltas pending_def)
qed

section \<open>The handlers of the controller\<close>

text \<open>
  C21. The pod informer never resyncs (its period is 0). Then a pod whose address is only in the
  last version of it that the informer is told has no effect on the queue of the controller:
  every call for it returns at once and leaves the queue, the mutex and the world as they are,
  whatever its deltas are merged with and however the turns interleave.
\<close>

theorem last_address_unheard:
  fixes ts :: "pod_body turn list"
  assumes "\<forall>n. fair_orders (ords n)"
    and "\<forall>t \<in> set ts. possible (ia_resyncPeriod (pod_informer kube ord lbc)) t"
    and "\<forall>ob \<in> set (butlast (versions key ts)). pb_PodIP (ob_Body ob) = []"
    and "c \<in> set (is_calls (informer_run ords ts NewInformer))" and "call_key c = key"
  shows "\<exists>lbc'. notify (ia_handlers (pod_informer kube ord lbc)) c lbc w = Returns (lbc', w) \<and>
    lbstore lbc' = lbstore lbc \<and> cond_L lbc' = cond_L lbc"
proof -
  have "late_state key [] (informer_run ords ts NewInformer)"
    by (rule late_run [OF assms(1) informer_inv_new(1) late_new [OF assms(3)] no_resync [OF assms(2)]])
  then have q: "quiet_call key c" using assms(4) by (simp add: late_state_def)
  show ?thesis
  proof (cases c)
    case (OnAdd ob)
    then show ?thesis by (simp add: pod_informer_def notify_pod addrAddFunc_def Let_def split: prod.split bool.split)
  next
    case (OnUpdate old new)
    with q assms(5) show ?thesis by (simp add: pod_informer_def notify_pod OnUpdate_pod_def addrUpdateFunc_def pod_of_def)
  qed (simp add: pod_informer_def notify_pod)
qed

text \<open>An ingress pod that is listed before it has an address and then gets one.\<close>

definition late_pod :: "string \<Rightarrow> pod_body object" where
  "late_pod ip = \<lparr>ob_Namespace = nginxDefault, ob_Name = nginxPattern, ob_Labels = [], ob_Body = \<lparr>pb_PodIP = ip, pb_Deleted = False\<rparr>\<rparr>"

definition late_turns :: "pod_body turn list" where
  "late_turns = [Listed [late_pod []], Processed, Watched (Watch_Modified (late_pod ''10.0.0.21'')), Processed]"

theorem last_address_unheard_witness:
  "OnUpdate (late_pod []) (late_pod ''10.0.0.21'') \<in> set (is_calls (informer_run (\<lambda>_. id_orders) late_turns NewInformer)) \<and>
    (\<exists>lbc'. notify (ia_handlers (pod_informer ref_kube id_orders (fresh ref_cfg ref_manager))) (OnUpdate (late_pod []) (late_pod ''10.0.0.21''))
         (fresh ref_cfg ref_manager) ref_world = Returns (lbc', ref_world) \<and>
       lbstore lbc' = lbstore (fresh ref_cfg ref_manager) \<and> cond_L lbc' = cond_L (fresh ref_cfg ref_manager))"
proof -
  have c: "is_calls (informer_run (\<lambda>_. id_orders) late_turns NewInformer) =
      [OnAdd (late_pod []), OnUpdate (late_pod []) (late_pod ''10.0.0.21'')]" by code_simp
  have "versions (MetaNamespaceKeyFunc (late_pod ''10.0.0.21'')) late_turns = [late_pod [], late_pod ''10.0.0.21'']"
    by (simp add: versions_def late_turns_def) (simp add: MetaNamespaceKeyFunc_def late_pod_def)
  then have "\<forall>ob \<in> set (butlast (versions (MetaNamespaceKeyFunc (late_pod ''10.0.0.21'')) late_turns)). pb_PodIP (ob_Body ob) = []"
    by (simp add: late_pod_def)
  moreover have "\<forall>t \<in> set late_turns. possible (ia_resyncPeriod (pod_informer ref_kube id_orders (fresh ref_cfg ref_manager))) t"
    by (simp add: late_turns_def)
  ultimately show ?thesis
    using last_address_unheard [of "\<lambda>_. id_orders" late_turns ref_kube id_orders "fresh ref_cfg ref_manager" _
        "OnUpdate (late_pod []) (late_pod ''10.0.0.21'')" ref_world] c
    by (simp add: fair_id_orders)
qed

end
