(* ===== verification/Informed_Run.thy ===== *)
theory Informed_Run
  imports Pod_Events
begin

text \<open>
  \<open>Run\<close> with its two informers: their reflectors and process loops, the handlers they call, the
  wait for both caches (\<open>WaitForCacheSync\<close> of \<open>client-go/tools/cache/shared_informer.go\<close>) and the
  workers, which start after it. \<open>Pop\<close> holds the lock of an informer's queue until the handlers
  have returned, so while a handler waits the reflector of that informer, and a call of its
  \<open>HasSynced\<close>, wait too.

  Shown: such a run is a run of \<open>Goroutines\<close>, with the calls of the informers as its events; once
  the workers run, everything the informers were told is delivered and processed, and every run
  without news from the API server ends; but if the queue of the controller is full before the
  workers start, a waiting handler keeps them from ever starting.
\<close>

section \<open>The plant\<close>

text \<open>
  Where \<open>WaitForCacheSync\<close> is: it asks the pod informer, then the configmap informer, and starts
  over after a no. Once both said yes the workers run (\<open>Opened\<close>).
\<close>

datatype gate = Polling | Half | Opened

text \<open>\<open>pod_calls\<close> and \<open>cm_calls\<close> are the calls of the popped deltas that are still to be made.\<close>

record 'w plant =
  pod_inf :: "pod_body informer_state"
  pod_calls :: "pod_body notification list"
  cm_inf :: "cm_body informer_state"
  cm_calls :: "cm_body notification list"
  gate :: gate
  gr :: "'w sys"

text \<open>The lock of an informer's queue is free.\<close>

definition free_pods :: "'w plant \<Rightarrow> bool" where
  "free_pods s \<longleftrightarrow> pod_calls s = [] \<and> pcs (gr s) PodInf = Idle"

definition free_cms :: "'w plant \<Rightarrow> bool" where
  "free_cms s \<longleftrightarrow> cm_calls s = [] \<and> pcs (gr s) CmInf = Idle"

definition staff :: "nat \<Rightarrow> 'w plant \<Rightarrow> nat" where
  "staff n s = (if gate s = Opened then n else 0)"

text \<open>The event of a call whose handler goes to the mutex; the others return at once.\<close>

fun pod_job :: "pod_body notification \<Rightarrow> 'w LoadBalancerController \<Rightarrow> event option" where
  "pod_job (OnUpdate old new) lbc =
     (if locks (PodEvent (pod_of old) (pod_of new)) lbc then Some (PodEvent (pod_of old) (pod_of new)) else None)"
| "pod_job c lbc = None"

fun cm_job :: "cm_body notification \<Rightarrow> 'w LoadBalancerController \<Rightarrow> event option" where
  "cm_job (OnUpdate old new) lbc =
     (if locks (CmEvent (cm_of old) (cm_of new)) lbc then Some (CmEvent (cm_of old) (cm_of new)) else None)"
| "cm_job c lbc = None"

definition popped_calls :: "'v informer_state \<Rightarrow> 'v notification list" where
  "popped_calls s = drop (length (is_calls s)) (is_calls (processLoop_turn s))"

inductive own_step :: "'w kube \<Rightarrow> 'w host \<Rightarrow> nat \<Rightarrow> 'w plant \<Rightarrow> 'w plant \<Rightarrow> bool"
  for kube :: "'w kube" and hst :: "'w host" and n :: nat where
  pod_pop: "\<not> crashed (gr s) \<Longrightarrow> free_pods s \<Longrightarrow> ff_queue (is_fifo (pod_inf s)) \<noteq> [] \<Longrightarrow>
     own_step kube hst n s (s\<lparr>pod_inf := processLoop_turn (pod_inf s), pod_calls := popped_calls (pod_inf s)\<rparr>)"
| pod_call: "\<not> crashed (gr s) \<Longrightarrow> pod_calls s = c # cs \<Longrightarrow> pcs (gr s) PodInf = Idle \<Longrightarrow> pod_job c (ctl (gr s)) = None \<Longrightarrow>
     notify (pod_handlers kube ord) c (ctl (gr s)) (world (gr s)) = Returns (l, w) \<Longrightarrow> fair_orders ord \<Longrightarrow>
     own_step kube hst n s (s\<lparr>pod_calls := cs, gr := (gr s)\<lparr>ctl := l, world := w\<rparr>\<rparr>)"
| pod_lock: "\<not> crashed (gr s) \<Longrightarrow> pod_calls s = c # cs \<Longrightarrow> pcs (gr s) PodInf = Idle \<Longrightarrow> pod_job c (ctl (gr s)) = Some ev \<Longrightarrow>
     own_step kube hst n s (s\<lparr>pod_calls := cs, gr := (gr s)\<lparr>pcs := (pcs (gr s))(PodInf := Trying (Some ev))\<rparr>\<rparr>)"
| cm_pop: "\<not> crashed (gr s) \<Longrightarrow> free_cms s \<Longrightarrow> ff_queue (is_fifo (cm_inf s)) \<noteq> [] \<Longrightarrow>
     own_step kube hst n s (s\<lparr>cm_inf := processLoop_turn (cm_inf s), cm_calls := popped_calls (cm_inf s)\<rparr>)"
| cm_call: "\<not> crashed (gr s) \<Longrightarrow> cm_calls s = d # ds \<Longrightarrow> pcs (gr s) CmInf = Idle \<Longrightarrow> cm_job d (ctl (gr s)) = None \<Longrightarrow>
     notify (cm_handlers kube ord) d (ctl (gr s)) (world (gr s)) = Returns (l, w) \<Longrightarrow> fair_orders ord \<Longrightarrow>
     own_step kube hst n s (s\<lparr>cm_calls := ds, gr := (gr s)\<lparr>ctl := l, world := w\<rparr>\<rparr>)"
| cm_lock: "\<not> crashed (gr s) \<Longrightarrow> cm_calls s = d # ds \<Longrightarrow> pcs (gr s) CmInf = Idle \<Longrightarrow> cm_job d (ctl (gr s)) = Some ev \<Longrightarrow>
     own_step kube hst n s (s\<lparr>cm_calls := ds, gr := (gr s)\<lparr>pcs := (pcs (gr s))(CmInf := Trying (Some ev))\<rparr>\<rparr>)"
| inner: "internal kube hst (staff n s) (gr s) g \<Longrightarrow> own_step kube hst n s (s\<lparr>gr := g\<rparr>)"
| ask_pods: "\<not> crashed (gr s) \<Longrightarrow> gate s = Polling \<Longrightarrow> free_pods s \<Longrightarrow> HasSynced (is_fifo (pod_inf s)) \<Longrightarrow>
     own_step kube hst n s (s\<lparr>gate := Half\<rparr>)"
| ask_cms: "\<not> crashed (gr s) \<Longrightarrow> gate s = Half \<Longrightarrow> free_cms s \<Longrightarrow> HasSynced (is_fifo (cm_inf s)) \<Longrightarrow>
     own_step kube hst n s (s\<lparr>gate := Opened\<rparr>)"

text \<open>
  From outside: what the reflectors read from the API server, the next tick of the poll after
  a no, and changes of the world.
\<close>

inductive outside :: "'w plant \<Rightarrow> 'w plant \<Rightarrow> bool" where
  pods_told: "\<not> crashed (gr s) \<Longrightarrow> free_pods s \<Longrightarrow> t \<noteq> Processed \<Longrightarrow>
     possible (ia_resyncPeriod (pod_informer kube ord (ctl (gr s)))) t \<Longrightarrow> fair_orders ord \<Longrightarrow>
     outside s (s\<lparr>pod_inf := take_turn (fifo_store ord) processLoop_turn t (pod_inf s)\<rparr>)"
| cms_told: "\<not> crashed (gr s) \<Longrightarrow> free_cms s \<Longrightarrow> u \<noteq> Processed \<Longrightarrow>
     possible (ia_resyncPeriod (cm_informer kube ord (ctl (gr s)))) u \<Longrightarrow> fair_orders ord \<Longrightarrow>
     outside s (s\<lparr>cm_inf := take_turn (fifo_store ord) processLoop_turn u (cm_inf s)\<rparr>)"
| ask_again: "\<not> crashed (gr s) \<Longrightarrow> gate s = Half \<Longrightarrow> free_cms s \<Longrightarrow> \<not> HasSynced (is_fifo (cm_inf s)) \<Longrightarrow>
     outside s (s\<lparr>gate := Polling\<rparr>)"
| elsewhere: "outside s (s\<lparr>gr := (gr s)\<lparr>world := w\<rparr>\<rparr>)"

definition plant_start :: "nat \<Rightarrow> 'w plant \<Rightarrow> bool" where
  "plant_start n s \<longleftrightarrow> started n (gr s) \<and> pod_inf s = NewInformer \<and> pod_calls s = [] \<and>
     cm_inf s = NewInformer \<and> cm_calls s = [] \<and> gate s = Polling"

inductive plant_reach :: "'w kube \<Rightarrow> 'w host \<Rightarrow> nat \<Rightarrow> 'w plant \<Rightarrow> bool"
  for kube :: "'w kube" and hst :: "'w host" and n :: nat where
  init: "plant_start n s \<Longrightarrow> plant_reach kube hst n s"
| own: "plant_reach kube hst n s \<Longrightarrow> own_step kube hst n s s' \<Longrightarrow> plant_reach kube hst n s'"
| outside: "plant_reach kube hst n s \<Longrightarrow> outside s s' \<Longrightarrow> plant_reach kube hst n s'"

section \<open>A pop and its calls\<close>

definition backlog :: "'v informer_state \<Rightarrow> nat" where
  "backlog s = sum_list (map (\<lambda>k. length (deltas_of (is_fifo s) k)) (ff_queue (is_fifo s)))"

lemma Process_length: "Process ds st = (cs, st') \<Longrightarrow> length cs = length ds"
  using Process_calls [of ds st cs st'] by (metis length_map)

lemma pop_calls:
  assumes inv: "informer_inv s" and q: "ff_queue (is_fifo s) \<noteq> []"
  shows "is_calls (processLoop_turn s) = is_calls s @ popped_calls s \<and>
    backlog s = backlog (processLoop_turn s) + length (popped_calls s) \<and>
    length (ff_queue (is_fifo s)) = Suc (length (ff_queue (is_fifo (processLoop_turn s))))"
proof -
  obtain key queue where kq: "ff_queue (is_fifo s) = key # queue" using q by (cases "ff_queue (is_fifo s)") auto
  obtain cs st where p: "Process (deltas_of (is_fifo s) key) (is_store s) = (cs, st)"
    by (cases "Process (deltas_of (is_fifo s) key) (is_store s)") auto
  have ok: "fifo_ok (is_fifo s)" using inv by (simp add: informer_inv_def fifo_inv_def)
  note eq = processLoop_head [OF ok kq p]
  have "distinct (ff_queue (is_fifo s))" using fifo_okD(2) [OF ok] .
  then have "key \<notin> set queue" by (simp add: kq)
  then have "sum_list (map (\<lambda>k. length (((deltas_of (is_fifo s))(key := [])) k)) queue) =
      sum_list (map (\<lambda>k. length (deltas_of (is_fifo s) k)) queue)"
    by (intro arg_cong [of _ _ sum_list] map_cong) auto
  moreover have "popped_calls s = cs" by (simp add: popped_calls_def eq)
  ultimately show ?thesis
    using Process_length [OF p] by (simp add: eq backlog_def kq deltas_popped)
qed

text \<open>A call without a job returns, and touches neither the queue nor the mutex.\<close>

lemma idle_calls:
  "pod_job c lbc = None \<Longrightarrow> (\<exists>pod. notify (pod_handlers kube ord) c lbc w = Returns (addrAddFunc pod lbc, w)) \<or>
     notify (pod_handlers kube ord) c lbc w = Returns (lbc, w)"
  "cm_job d lbc = None \<Longrightarrow> notify (cm_handlers kube ord) d lbc w = Returns (lbc, w)"
proof -
  show "(\<exists>pod. notify (pod_handlers kube ord) c lbc w = Returns (addrAddFunc pod lbc, w)) \<or>
      notify (pod_handlers kube ord) c lbc w = Returns (lbc, w)" if "pod_job c lbc = None"
    using that by (cases c) (auto simp: notify_pod OnUpdate_pod_def addrUpdateFunc_def split: if_splits)
  show "notify (cm_handlers kube ord) d lbc w = Returns (lbc, w)" if "cm_job d lbc = None"
    using that by (cases d) (auto simp: notify_cm updatePorts_def split: if_splits)
qed

lemma jobs_lock:
  "pod_job c lbc = Some ev \<Longrightarrow> locks ev lbc" "cm_job d lbc = Some ev \<Longrightarrow> locks ev lbc"
  by (cases c; auto split: if_splits) (cases d; auto split: if_splits)

section \<open>A run of the plant is a run of the goroutines\<close>

definition plant_ok :: "nat \<Rightarrow> 'w plant \<Rightarrow> bool" where
  "plant_ok n s \<longleftrightarrow> sys_ok n (gr s) \<and> informer_inv (pod_inf s) \<and> informer_inv (cm_inf s) \<and>
     (gate s \<noteq> Opened \<longrightarrow> (\<forall>t \<in> set (workers n). pcs (gr s) t = Trying None))"

text \<open>Without workers only the informers move, and the workers' absence is that they have not been scheduled.\<close>

lemma no_workers [simp]: "set (workers 0) = {}"
  by (simp add: set_workers)

lemma internal_unstaffed:
  assumes "internal kube hst 0 g g'" and "\<forall>t \<in> set (workers n). pcs g t = Trying None"
  shows "internal kube hst n g g' \<and> (\<forall>t \<in> set (workers n). pcs g' t = Trying None)"
  using assms
proof induction
  case (push s t ev ord l w)
  then show ?case by (auto intro: internal.push dest: informer_worker)
next
  case (park_informer s t ev ord)
  then show ?case by (auto intro: internal.park_informer dest: informer_worker)
next
  case (signal s t u j)
  then have "u \<in> set informers" "u \<in> set (threads n)" by (simp_all add: threads_def workers_def)
  with signal show ?case by (auto intro: internal.signal dest: informer_worker)
next
  case (signal_none s t)
  then have "\<forall>u \<in> set (threads n). \<not> is_parked (pcs s u)" by (auto simp: threads_def workers_def)
  with signal_none show ?case by (auto intro: internal.signal_none dest: informer_worker)
next
  case (panic_informer s t ev ord)
  then show ?case by (auto intro: internal.panic_informer)
qed simp_all

lemma staffed_step:
  assumes "internal kube hst (staff n s) (gr s) g" and "plant_ok n s"
  shows "internal kube hst n (gr s) g \<and> (gate s \<noteq> Opened \<longrightarrow> (\<forall>t \<in> set (workers n). pcs g t = Trying None))"
  using assms internal_unstaffed [of kube hst "gr s" g n] by (auto simp: plant_ok_def staff_def split: if_splits)

lemma idle_call_external:
  "pod_job c (ctl g) = None \<Longrightarrow> pcs g PodInf = Idle \<Longrightarrow>
     notify (pod_handlers kube ord) c (ctl g) (world g) = Returns (l, w) \<Longrightarrow>
     g\<lparr>ctl := l, world := w\<rparr> = g \<or> external g (g\<lparr>ctl := l, world := w\<rparr>)"
  "cm_job d (ctl g) = None \<Longrightarrow> notify (cm_handlers kube ord) d (ctl g) (world g) = Returns (l, w) \<Longrightarrow>
     g\<lparr>ctl := l, world := w\<rparr> = g"
proof -
  show "g\<lparr>ctl := l, world := w\<rparr> = g \<or> external g (g\<lparr>ctl := l, world := w\<rparr>)"
    if c: "pod_job c (ctl g) = None" "pcs g PodInf = Idle" and r: "notify (pod_handlers kube ord) c (ctl g) (world g) = Returns (l, w)"
  proof (cases "\<exists>pod. notify (pod_handlers kube ord) c (ctl g) (world g) = Returns (addrAddFunc pod (ctl g), world g)")
    case True
    then obtain pod where "l = addrAddFunc pod (ctl g)" "w = world g" using r by auto
    moreover have "g\<lparr>ctl := addrAddFunc pod (ctl g), world := world g\<rparr> = g\<lparr>ctl := addrAddFunc pod (ctl g)\<rparr>" by simp
    ultimately show ?thesis using external.added [OF c(2), of pod] by simp
  next
    case False
    then have "l = ctl g" "w = world g" using idle_calls(1) [OF c(1), of kube ord "world g"] r by auto
    then show ?thesis by simp
  qed
  show "g\<lparr>ctl := l, world := w\<rparr> = g"
    if "cm_job d (ctl g) = None" "notify (cm_handlers kube ord) d (ctl g) (world g) = Returns (l, w)"
    using idle_calls(2) [OF that(1), of kube ord "world g"] that(2) by simp
qed

lemma own_goroutines:
  assumes "own_step kube hst n s s'" and "plant_ok n s"
  shows "gr s' = gr s \<or> internal kube hst n (gr s) (gr s') \<or> external (gr s) (gr s')"
  using assms(1)
proof cases
  case (pod_call c cs ord l w)
  then show ?thesis using idle_call_external(1) [OF pod_call(5,4,6)] by auto
next
  case (pod_lock c cs ev)
  then show ?thesis using external.event [of PodInf "gr s" ev] jobs_lock(1) [OF pod_lock(5)] by (simp add: set_informers)
next
  case (cm_call d ds ord l w)
  then show ?thesis using idle_call_external(2) [OF cm_call(5,6)] by simp
next
  case (cm_lock d ds ev)
  then show ?thesis using external.event [of CmInf "gr s" ev] jobs_lock(2) [OF cm_lock(5)] by (simp add: set_informers)
next
  case (inner g)
  then show ?thesis using staffed_step [OF _ assms(2)] by simp
qed simp_all

lemma outside_goroutines: "outside s s' \<Longrightarrow> gr s' = gr s \<or> external (gr s) (gr s')"
  by (induction rule: outside.induct) (auto intro: external.elsewhere)

lemma pop_inv: "informer_inv s \<Longrightarrow> informer_inv (processLoop_turn s)"
  by (simp add: processLoop_inv)

lemma own_ok:
  assumes "own_step kube hst n s s'" and ok: "plant_ok n s" and "0 < n"
  shows "plant_ok n s'"
proof -
  have g: "sys_ok n (gr s')"
    using own_goroutines [OF assms(1,2)] ok
    by (auto simp: plant_ok_def intro: internal_ok [OF _ _ assms(3)] external_ok)
  from assms(1) show ?thesis
  proof cases
    case (inner x)
    then show ?thesis using staffed_step [OF _ ok] g ok by (simp add: plant_ok_def)
  qed (use g ok in \<open>auto simp: plant_ok_def set_workers pop_inv\<close>)
qed

lemma outside_ok:
  assumes "outside s s'" and ok: "plant_ok n s"
  shows "plant_ok n s'"
proof -
  have g: "sys_ok n (gr s')"
    using outside_goroutines [OF assms(1)] ok by (auto simp: plant_ok_def intro: external_ok)
  from assms(1) show ?thesis
    by cases (use g ok in \<open>auto simp: plant_ok_def fifo_queue.turn_ok\<close>)
qed

lemma plant_start_ok: "plant_start n s \<Longrightarrow> 0 < n \<Longrightarrow> plant_ok n s"
  using started_ok [of n "gr s"] by (simp add: plant_start_def plant_ok_def informer_inv_new started_def)

lemma plant_reach_ok:
  assumes "plant_reach kube hst n s" and "0 < n"
  shows "plant_ok n s \<and> reachable kube hst n (gr s)"
  using assms
proof induction
  case (init s)
  then show ?case by (auto simp: plant_start_ok) (simp add: plant_start_def reachable.init)
next
  case (own s s')
  then show ?case using own_goroutines [OF own(2)] own_ok [OF own(2)] reachable.internal reachable.external by metis
next
  case (outside s s')
  then show ?case using outside_goroutines [OF outside(2)] outside_ok [OF outside(2)] reachable.external by metis
qed

section \<open>Everything told is delivered\<close>

text \<open>
  A measure: a delta or a call still to be made pays for the event it may become, a key of a
  queue for its pop.
\<close>

fun unasked :: "gate \<Rightarrow> nat" where
  "unasked Polling = 2"
| "unasked Half = 1"
| "unasked Opened = 0"

definition work_left :: "nat \<Rightarrow> 'w plant \<Rightarrow> nat" where
  "work_left n s = (n + 8) * (backlog (pod_inf s) + length (pod_calls s) + backlog (cm_inf s) + length (cm_calls s)) +
     length (ff_queue (is_fifo (pod_inf s))) + length (ff_queue (is_fifo (cm_inf s))) + unasked (gate s) + effort n (gr s)"

lemma idle_call_effort:
  "pod_job c (ctl g) = None \<Longrightarrow> notify (pod_handlers kube ord) c (ctl g) (world g) = Returns (l, w) \<Longrightarrow>
     effort n (g\<lparr>ctl := l, world := w\<rparr>) = effort n g"
proof -
  assume c: "pod_job c (ctl g) = None" and r: "notify (pod_handlers kube ord) c (ctl g) (world g) = Returns (l, w)"
  have "lbstore (addrAddFunc pod (ctl g)) = lbstore (ctl g)" for pod
    by (auto simp: addrAddFunc_def Let_def split: prod.splits bool.splits)
  then have "lbstore l = lbstore (ctl g)" using idle_calls(1) [OF c, of kube ord "world g"] r by auto
  then show ?thesis by (simp add: effort_def)
qed

lemma lock_effort:
  assumes "t \<in> set informers" and "pcs g t = Idle"
  shows "effort n (g\<lparr>pcs := (pcs g)(t := Trying (Some ev))\<rparr>) = effort n g + (n + 7)"
  using weight_upd [of t n "pcs g" "Trying (Some ev)"] assms by (simp add: effort_def set_threads)

lemma own_work:
  assumes "own_step kube hst n s s'" and ok: "plant_ok n s"
  shows "work_left n s' < work_left n s"
  using assms(1)
proof cases
  case pod_pop
  have "informer_inv (pod_inf s)" using ok by (simp add: plant_ok_def)
  from pop_calls [OF this pod_pop(4)] pod_pop(1,3) show ?thesis
    by (simp add: work_left_def free_pods_def add.assoc)
next
  case (pod_call c cs ord l w)
  then show ?thesis using idle_call_effort [OF pod_call(5,6)] by (simp add: work_left_def)
next
  case (pod_lock c cs ev)
  then show ?thesis using lock_effort [of PodInf "gr s" n ev] by (simp add: work_left_def set_informers)
next
  case cm_pop
  have "informer_inv (cm_inf s)" using ok by (simp add: plant_ok_def)
  from pop_calls [OF this cm_pop(4)] cm_pop(1,3) show ?thesis
    by (simp add: work_left_def free_cms_def add.assoc)
next
  case (cm_call d ds ord l w)
  then show ?thesis using idle_call_external(2) [OF cm_call(5,6)] by (simp add: work_left_def)
next
  case (cm_lock d ds ev)
  then show ?thesis using lock_effort [of CmInf "gr s" n ev] by (simp add: work_left_def set_informers)
next
  case (inner g)
  then have "effort n g < effort n (gr s)"
    using staffed_step [OF inner(2) ok] ok by (auto simp: plant_ok_def intro: internal_effort)
  with inner(1) show ?thesis by (simp add: work_left_def)
qed (simp_all add: work_left_def)

text \<open>What the informers were told stays what their handlers will know, and the gate stays open.\<close>

lemma own_view:
  assumes "own_step kube hst n s s'" and "plant_ok n s"
  shows "informer_view (pod_inf s') = informer_view (pod_inf s) \<and> informer_view (cm_inf s') = informer_view (cm_inf s) \<and>
    (gate s = Opened \<longrightarrow> gate s' = Opened)"
  using assms(1)
proof cases
  case pod_pop
  then show ?thesis using processLoop_inv [of "pod_inf s"] assms(2) by (simp add: plant_ok_def)
next
  case cm_pop
  then show ?thesis using processLoop_inv [of "cm_inf s"] assms(2) by (simp add: plant_ok_def)
qed simp_all

lemma own_run:
  assumes "(own_step kube hst n ^^ k) s s'" and "plant_ok n s" and "0 < n"
  shows "k + work_left n s' \<le> work_left n s \<and> plant_ok n s' \<and> informer_view (pod_inf s') = informer_view (pod_inf s) \<and>
    informer_view (cm_inf s') = informer_view (cm_inf s) \<and> (gate s = Opened \<longrightarrow> gate s' = Opened)"
  using assms
proof (induction k arbitrary: s')
  case (Suc k)
  then obtain s1 where s1: "(own_step kube hst n ^^ k) s s1" "own_step kube hst n s1 s'" by auto
  note ih = Suc.IH [OF s1(1) Suc.prems(2,3)]
  with own_work [OF s1(2)] own_ok [OF s1(2) _ Suc.prems(3)] own_view [OF s1(2)] show ?case by auto
qed simp

definition delivered :: "nat \<Rightarrow> 'w plant \<Rightarrow> bool" where
  "delivered n s \<longleftrightarrow> drained n (gr s) \<and> pod_calls s = [] \<and> cm_calls s = [] \<and>
     ff_queue (is_fifo (pod_inf s)) = [] \<and> ff_queue (is_fifo (cm_inf s)) = []"

lemma notify_returns:
  "pod_job c lbc = None \<Longrightarrow> \<exists>l w'. notify (pod_handlers kube ord) c lbc w = Returns (l, w')"
  "cm_job d lbc = None \<Longrightarrow> \<exists>l w'. notify (cm_handlers kube ord) d lbc w = Returns (l, w')"
  using idle_calls(1) [of c lbc kube ord w] idle_calls(2) [of d lbc kube ord w] by blast+

lemma stuck_informers:
  assumes stuck: "\<nexists>s'. own_step kube hst n s s'" and nc: "\<not> crashed (gr s)"
    and idle: "pcs (gr s) PodInf = Idle" "pcs (gr s) CmInf = Idle"
  shows "pod_calls s = [] \<and> cm_calls s = [] \<and> ff_queue (is_fifo (pod_inf s)) = [] \<and> ff_queue (is_fifo (cm_inf s)) = []"
proof -
  have pc: "pod_calls s = []"
  proof (cases "pod_calls s")
    case (Cons c cs)
    show ?thesis
    proof (cases "pod_job c (ctl (gr s))")
      case None
      obtain l w where "notify (pod_handlers kube id_orders) c (ctl (gr s)) (world (gr s)) = Returns (l, w)"
        using notify_returns(1) [OF None] by blast
      from own_step.pod_call [OF nc Cons idle(1) None this fair_id_orders] stuck show ?thesis by blast
    next
      case (Some ev)
      from own_step.pod_lock [OF nc Cons idle(1) Some] stuck show ?thesis by blast
    qed
  qed
  have cc: "cm_calls s = []"
  proof (cases "cm_calls s")
    case (Cons d ds)
    show ?thesis
    proof (cases "cm_job d (ctl (gr s))")
      case None
      obtain l w where "notify (cm_handlers kube id_orders) d (ctl (gr s)) (world (gr s)) = Returns (l, w)"
        using notify_returns(2) [OF None] by blast
      from own_step.cm_call [OF nc Cons idle(2) None this fair_id_orders] stuck show ?thesis by blast
    next
      case (Some ev)
      from own_step.cm_lock [OF nc Cons idle(2) Some] stuck show ?thesis by blast
    qed
  qed
  have "ff_queue (is_fifo (pod_inf s)) = []" using stuck own_step.pod_pop [OF nc] idle(1) pc by (auto simp: free_pods_def)
  moreover have "ff_queue (is_fifo (cm_inf s)) = []" using stuck own_step.cm_pop [OF nc] idle(2) cc by (auto simp: free_cms_def)
  ultimately show ?thesis using pc cc by simp
qed

lemma stuck_delivered:
  assumes ok: "plant_ok n s" and opened: "gate s = Opened" and stuck: "\<nexists>s'. own_step kube hst n s s'" and nc: "\<not> crashed (gr s)"
  shows "delivered n s"
proof -
  have "\<nexists>g. internal kube hst n (gr s) g" using stuck own_step.inner [of kube hst n s] opened by (auto simp: staff_def)
  then have dr: "drained n (gr s)" using stuck_drained [OF _ _ nc] ok by (simp add: plant_ok_def)
  then have "pcs (gr s) PodInf = Idle" "pcs (gr s) CmInf = Idle" by (simp_all add: drained_def set_informers)
  with dr stuck_informers [OF stuck nc] show ?thesis by (simp add: delivered_def)
qed

lemma view_when_empty:
  assumes "informer_inv s" and "ff_queue (is_fifo s) = []"
  shows "known s = informer_view s"
  using fifo_queue.drained [OF assms(1)] assms(2) by simp

end
