(* ===== verification/Informed_Correct.thy ===== *)
theory Informed_Correct
  imports Informed_Run
begin

text \<open>
  The theorems on \<open>Run\<close> with its informers: everything told is delivered once the workers run
  (\<open>informed_drains\<close>), and the start-up that never ends (\<open>startup_deadlock\<close>), each with a concrete
  run of the reference world.
\<close>

section \<open>A full queue before the workers run\<close>

fun in_handler :: "pc \<Rightarrow> bool" where
  "in_handler (Trying (Some ev)) = True"
| "in_handler (Parked (Some ev)) = True"
| "in_handler p = False"

lemma in_handler_wake: "in_handler (Parked j) \<Longrightarrow> in_handler (Trying j)"
  by (cases j) simp_all

text \<open>On a full queue the informers alone change nothing but their places.\<close>

lemma full_step:
  assumes "internal kube hst 0 g g'" and ok: "sys_ok n g" and full: "length (lbstore (ctl g)) = 3"
  shows "ctl g' = ctl g \<and> world g' = world g \<and> (in_handler (pcs g PodInf) \<longrightarrow> in_handler (pcs g' PodInf)) \<and>
    (in_handler (pcs g CmInf) \<longrightarrow> in_handler (pcs g' CmInf))"
proof -
  note i = sys_invD [OF ok [unfolded sys_ok_def]]
  have h: "handle kube ord ev (ctl g) (world g) = Cond_waits" if "t \<in> set informers" "pcs g t = Trying (Some ev)" for t ord ev
  proof -
    have "locks ev (ctl g)" using placed_locks [OF i(4) that(1)] that(2) by blast
    then show ?thesis using handle_cases [OF i(2,3,1), of ev kube ord "world g"] full by simp
  qed
  from assms(1) show ?thesis
  proof cases
    case (signal t u j)
    have "in_handler (((pcs g)(t := Idle, u := Trying j)) x)" if "in_handler (pcs g x)" for x
    proof (cases "x = u")
      case True
      then show ?thesis using that signal(6) in_handler_wake by simp
    qed (use that signal(4) in auto)
    with signal(1) show ?thesis by simp
  qed (use h in auto)
qed

definition jammed :: "nat \<Rightarrow> store_ref list \<Rightarrow> pod_body informer_state \<Rightarrow> cm_body informer_state \<Rightarrow> 'w plant \<Rightarrow> bool" where
  "jammed n q p c s \<longleftrightarrow> plant_ok n s \<and> gate s \<noteq> Opened \<and> lbstore (ctl (gr s)) = q \<and> length q = 3 \<and>
     (in_handler (pcs (gr s) CmInf) \<and> cm_inf s = c \<or> gate s = Polling \<and> in_handler (pcs (gr s) PodInf) \<and> pod_inf s = p)"

lemma jammed_own:
  assumes "own_step kube hst n s s'" and j: "jammed n q p c s" and "0 < n"
  shows "jammed n q p c s'"
proof -
  have ok: "plant_ok n s'" using own_ok [OF assms(1) _ assms(3)] j by (simp add: jammed_def)
  from assms(1) show ?thesis
  proof cases
    case (pod_call x xs ord l w)
    have "lbstore (addrAddFunc pod (ctl (gr s))) = lbstore (ctl (gr s))" for pod
      by (auto simp: addrAddFunc_def Let_def split: prod.splits bool.splits)
    then have "lbstore l = lbstore (ctl (gr s))"
      using idle_calls(1) [OF pod_call(5), of kube ord "world (gr s)"] pod_call(6) by auto
    with ok j pod_call(1,4) show ?thesis by (simp add: jammed_def)
  next
    case (cm_call x xs ord l w)
    then show ?thesis using idle_call_external(2) [OF cm_call(5,6)] ok j by (simp add: jammed_def)
  next
    case (inner g)
    then have "internal kube hst 0 (gr s) g" using j by (simp add: jammed_def staff_def)
    from full_step [OF this, of n] j have "ctl g = ctl (gr s)" "in_handler (pcs (gr s) PodInf) \<longrightarrow> in_handler (pcs g PodInf)"
      "in_handler (pcs (gr s) CmInf) \<longrightarrow> in_handler (pcs g CmInf)" by (auto simp: jammed_def plant_ok_def)
    with ok j inner(1) show ?thesis by (auto simp: jammed_def)
  qed (use ok j in \<open>auto simp: jammed_def free_pods_def free_cms_def\<close>)
qed

lemma jammed_outside:
  assumes "outside s s'" and j: "jammed n q p c s"
  shows "jammed n q p c s'"
proof -
  have ok: "plant_ok n s'" using outside_ok [OF assms(1)] j by (simp add: jammed_def)
  from assms(1) show ?thesis
    by cases (use ok j in \<open>auto simp: jammed_def free_pods_def free_cms_def\<close>)
qed

lemma jammed_forever:
  assumes "(\<lambda>a b. own_step kube hst n a b \<or> outside a b)\<^sup>*\<^sup>* s s'" and "jammed n q p c s" and "0 < n"
  shows "jammed n q p c s'"
  using assms by induction (auto intro: jammed_own jammed_outside)

section \<open>Concrete runs\<close>

text \<open>What the API server tells the pod informer while its queue is free.\<close>

lemma told_run:
  assumes "plant_reach kube hst n s" and "free_pods s" and "\<not> crashed (gr s)"
    and "Processed \<notin> set ts" and "Resynced \<notin> set ts" and "\<forall>k. fair_orders (ords k)"
  shows "plant_reach kube hst n (s\<lparr>pod_inf := informer_run ords ts (pod_inf s)\<rparr>)"
  using assms
proof (induction ts arbitrary: s ords)
  case (Cons t ts)
  let ?s = "s\<lparr>pod_inf := take_turn (fifo_store (ords 0)) processLoop_turn t (pod_inf s)\<rparr>"
  have "possible (ia_resyncPeriod (pod_informer kube (ords 0) (ctl (gr s)))) t"
    using Cons.prems(5) by (cases t) simp_all
  then have "outside s ?s"
    using Cons.prems by (intro outside.pods_told [where kube = kube]) auto
  then have "plant_reach kube hst n ?s" by (rule plant_reach.outside [OF Cons.prems(1)])
  from Cons.IH [OF this, of "\<lambda>k. ords (Suc k)"] Cons.prems show ?case by (simp add: free_pods_def)
qed simp

text \<open>Before the workers run, each update call of the pod informer fills a place of the queue.\<close>

definition filling :: "'w kube \<Rightarrow> 'w host \<Rightarrow> nat \<Rightarrow> nat \<Rightarrow> pod_body notification list \<Rightarrow> 'w plant \<Rightarrow> bool" where
  "filling kube hst n k cs s \<longleftrightarrow> plant_reach kube hst n s \<and> gate s = Polling \<and> \<not> crashed (gr s) \<and> pod_calls s = cs \<and>
     pcs (gr s) PodInf = Idle \<and> pcs (gr s) CmInf = Idle \<and> length (lbstore (ctl (gr s))) = k \<and>
     nginxServer (ctl (gr s)) = nginxDefault"

lemma filling_update:
  assumes f: "filling kube hst n k (c # cs) s" and n: "0 < n" and "k < 3"
    and job: "\<And>lbc. nginxServer lbc = nginxDefault \<Longrightarrow> pod_job c (lbc :: 'w LoadBalancerController) = Some ev"
  shows "\<exists>s' :: 'w plant. filling kube hst n (Suc k) cs s'"
proof -
  note f = f [unfolded filling_def]
  let ?s1 = "s\<lparr>pod_calls := cs, gr := (gr s)\<lparr>pcs := (pcs (gr s))(PodInf := Trying (Some ev))\<rparr>\<rparr>"
  have jc: "pod_job c (ctl (gr s)) = Some ev" using f job by simp
  then have "own_step kube hst n s ?s1" using f by (intro own_step.pod_lock) auto
  then have r1: "plant_reach kube hst n ?s1" using f plant_reach.own by blast
  have "sys_ok n (gr s)" using plant_reach_ok [OF _ n] f by (auto simp: plant_ok_def)
  note i = sys_invD(1-4) [OF this [unfolded sys_ok_def]]
  obtain l w where h: "handle kube id_orders ev (ctl (gr s)) (world (gr s)) = Returns (l, w)"
    "length (lbstore l) = Suc k" "nginxServer l = nginxDefault"
    using handle_cases [OF i(2,3,1) jobs_lock(1) [OF jc], of kube id_orders "world (gr s)"] f assms(3)
    by (auto simp: pushed_def)
  let ?g2 = "(gr ?s1)\<lparr>ctl := l, world := w, pcs := (pcs (gr ?s1))(PodInf := Signalling)\<rparr>"
  let ?g3 = "?g2\<lparr>pcs := (pcs ?g2)(PodInf := Idle)\<rparr>"
  have "internal kube hst 0 (gr ?s1) ?g2"
    using f h(1) by (intro internal.push [where ord = id_orders and ev = ev]) (auto simp: set_informers fair_id_orders)
  then have "own_step kube hst n ?s1 (?s1\<lparr>gr := ?g2\<rparr>)" using f by (intro own_step.inner) (simp add: staff_def)
  then have r2: "plant_reach kube hst n (?s1\<lparr>gr := ?g2\<rparr>)" by (rule plant_reach.own [OF r1])
  have "internal kube hst 0 ?g2 ?g3"
    using f by (intro internal.signal_none) (auto simp: set_informers threads_def)
  then have "own_step kube hst n (?s1\<lparr>gr := ?g2\<rparr>) (?s1\<lparr>gr := ?g2\<rparr>\<lparr>gr := ?g3\<rparr>)"
    using f by (intro own_step.inner) (simp add: staff_def)
  then have "plant_reach kube hst n (?s1\<lparr>gr := ?g2\<rparr>\<lparr>gr := ?g3\<rparr>)" by (rule plant_reach.own [OF r2])
  then have "filling kube hst n (Suc k) cs (?s1\<lparr>gr := ?g2\<rparr>\<lparr>gr := ?g3\<rparr>)"
    using f h by (simp add: filling_def)
  then show ?thesis by blast
qed

text \<open>
  The start of the example: \<open>Initial\<close> has queued its item. An ingress pod is listed and then
  modified three times before the process loop takes its deltas.
\<close>

definition busy_pod :: "pod_body object" where
  "busy_pod = \<lparr>ob_Namespace = nginxDefault, ob_Name = nginxPattern, ob_Labels = [],
     ob_Body = \<lparr>pb_PodIP = ''10.0.0.21'', pb_Deleted = False\<rparr>\<rparr>"

definition busy_turns :: "pod_body turn list" where
  "busy_turns = [Listed [busy_pod], Watched (Watch_Modified busy_pod), Watched (Watch_Modified busy_pod),
     Watched (Watch_Modified busy_pod)]"

abbreviation busy_update :: "pod_body notification" where
  "busy_update \<equiv> OnUpdate busy_pod busy_pod"

definition plant0 :: "cworld plant" where
  "plant0 = \<lparr>pod_inf = NewInformer, pod_calls = [], cm_inf = NewInformer, cm_calls = [], gate = Polling,
     gr = running ((fresh ref_cfg ref_manager)\<lparr>lbstore := [PLB]\<rparr>) ref_world\<rparr>"

lemma plant0_start: "plant_start 5 plant0"
  by (auto simp: plant_start_def plant0_def started_def running_def fresh_def wf_lbc_def set_informers set_workers)

lemma busy_job: "nginxServer lbc = nginxDefault \<Longrightarrow> pod_job busy_update lbc = Some (PodEvent (pod_of busy_pod) (pod_of busy_pod))"
  by (simp add: busy_pod_def pod_of_def)

lemma busy_calls:
  "popped_calls (informer_run (\<lambda>_. id_orders) busy_turns NewInformer) = [OnAdd busy_pod, busy_update, busy_update, busy_update]"
  "ff_queue (is_fifo (informer_run (\<lambda>_. id_orders) busy_turns (NewInformer :: pod_body informer_state))) \<noteq> []"
  by code_simp+

lemma busy_filling: "\<exists>s. filling ref_kube (ref_host rr) 5 1 [busy_update, busy_update, busy_update] s"
proof -
  let ?r = "plant_reach ref_kube (ref_host rr) 5"
  let ?p = "informer_run (\<lambda>_. id_orders) busy_turns (NewInformer :: pod_body informer_state)"
  let ?s1 = "plant0\<lparr>pod_inf := ?p\<rparr>"
  let ?s2 = "?s1\<lparr>pod_inf := processLoop_turn ?p, pod_calls := [OnAdd busy_pod, busy_update, busy_update, busy_update]\<rparr>"
  let ?l = "addrAddFunc (pod_of busy_pod) (ctl (gr plant0))"
  let ?s3 = "?s2\<lparr>pod_calls := [busy_update, busy_update, busy_update], gr := (gr ?s2)\<lparr>ctl := ?l, world := world (gr ?s2)\<rparr>\<rparr>"
  have idle: "pcs (gr plant0) PodInf = Idle" "pcs (gr plant0) CmInf = Idle" "\<not> crashed (gr plant0)" "pod_calls plant0 = []"
    "pod_inf plant0 = NewInformer" "gate plant0 = Polling" "lbstore (ctl (gr plant0)) = [PLB]" "nginxServer (ctl (gr plant0)) = nginxDefault"
    by (simp_all add: plant0_def running_def fresh_def quad_config_def)
  have r1: "?r ?s1"
    using told_run [OF plant_reach.init [OF plant0_start], of busy_turns "\<lambda>_. id_orders"] idle
    by (simp add: free_pods_def busy_turns_def fair_id_orders)
  have "own_step ref_kube (ref_host rr) 5 ?s1 ?s2"
    using own_step.pod_pop [of ?s1 ref_kube "ref_host rr" 5] idle busy_calls by (simp add: free_pods_def)
  then have r2: "?r ?s2" by (rule plant_reach.own [OF r1])
  have "own_step ref_kube (ref_host rr) 5 ?s2 ?s3"
    using idle by (intro own_step.pod_call [where ord = id_orders]) (auto simp: notify_pod fair_id_orders)
  then have "?r ?s3" by (rule plant_reach.own [OF r2])
  moreover have "lbstore ?l = lbstore (ctl (gr plant0))" "nginxServer ?l = nginxServer (ctl (gr plant0))"
    by (auto simp: addrAddFunc_def Let_def split: prod.splits bool.splits)
  ultimately have "filling ref_kube (ref_host rr) 5 1 [busy_update, busy_update, busy_update] ?s3"
    using idle by (simp add: filling_def)
  then show ?thesis by blast
qed

lemma busy_jam:
  "\<exists>s :: cworld plant. plant_reach ref_kube (ref_host rr) 5 s \<and> gate s = Polling \<and> length (lbstore (ctl (gr s))) = 3 \<and>
     in_handler (pcs (gr s) PodInf)"
proof -
  have step: "\<exists>s' :: cworld plant. filling ref_kube (ref_host rr) 5 (Suc k) cs s'"
    if "filling ref_kube (ref_host rr) 5 k (busy_update # cs) s" "k < 3" for k cs and s :: "cworld plant"
    by (rule filling_update [OF that(1) _ that(2) busy_job]) simp_all
  obtain s0 :: "cworld plant" where s0: "filling ref_kube (ref_host rr) 5 1 [busy_update, busy_update, busy_update] s0"
    using busy_filling by blast
  obtain s1 :: "cworld plant" where s1: "filling ref_kube (ref_host rr) 5 2 [busy_update, busy_update] s1"
    using step [OF s0] by (auto simp: numeral_2_eq_2)
  obtain s2 :: "cworld plant" where s2: "filling ref_kube (ref_host rr) 5 3 [busy_update] s2"
    using step [OF s1] by (auto simp: numeral_3_eq_3 numeral_2_eq_2)
  note f = s2 [unfolded filling_def]
  let ?ev = "PodEvent (pod_of busy_pod) (pod_of busy_pod)"
  let ?s = "s2\<lparr>pod_calls := [], gr := (gr s2)\<lparr>pcs := (pcs (gr s2))(PodInf := Trying (Some ?ev))\<rparr>\<rparr>"
  have "own_step ref_kube (ref_host rr) 5 s2 ?s"
    using f busy_job [of "ctl (gr s2)"] by (intro own_step.pod_lock) auto
  then have "plant_reach ref_kube (ref_host rr) 5 ?s" using f plant_reach.own by blast
  then show ?thesis using f by (intro exI [of _ ?s]) simp
qed

text \<open>A run in which both lists are empty and the workers start.\<close>

lemma opened_run: "\<exists>s :: cworld plant. plant_reach ref_kube (ref_host rr) 5 s \<and> gate s = Opened"
proof -
  let ?r = "plant_reach ref_kube (ref_host rr) 5" and ?step = "own_step ref_kube (ref_host rr) 5"
  let ?p = "informer_run (\<lambda>_. id_orders) [Listed []] (NewInformer :: pod_body informer_state)"
  let ?c = "take_turn (fifo_store id_orders) processLoop_turn (Listed []) (NewInformer :: cm_body informer_state)"
  let ?s1 = "plant0\<lparr>pod_inf := ?p\<rparr>"
  let ?s2 = "?s1\<lparr>cm_inf := ?c\<rparr>"
  have idle: "pcs (gr plant0) PodInf = Idle" "pcs (gr plant0) CmInf = Idle" "\<not> crashed (gr plant0)" "pod_calls plant0 = []"
    "pod_inf plant0 = NewInformer" "cm_inf plant0 = NewInformer" "cm_calls plant0 = []" "gate plant0 = Polling"
    by (simp_all add: plant0_def running_def)
  have synced: "HasSynced (is_fifo ?p)" "HasSynced (is_fifo ?c)" by code_simp+
  have r1: "?r ?s1"
    using told_run [OF plant_reach.init [OF plant0_start], of "[Listed []]" "\<lambda>_. id_orders"] idle
    by (simp add: free_pods_def fair_id_orders)
  have "outside ?s1 ?s2"
    using outside.cms_told [of ?s1 "Listed []" ref_kube id_orders] idle by (simp add: free_cms_def fair_id_orders)
  then have r2: "?r ?s2" by (rule plant_reach.outside [OF r1])
  have "?step ?s2 (?s2\<lparr>gate := Half\<rparr>)"
    using synced(1) idle by (intro own_step.ask_pods) (simp_all add: free_pods_def)
  then have r3: "?r (?s2\<lparr>gate := Half\<rparr>)" by (rule plant_reach.own [OF r2])
  have "?step (?s2\<lparr>gate := Half\<rparr>) (?s2\<lparr>gate := Half\<rparr>\<lparr>gate := Opened\<rparr>)"
    using synced(2) idle by (intro own_step.ask_cms) (simp_all add: free_cms_def)
  then have "?r (?s2\<lparr>gate := Half\<rparr>\<lparr>gate := Opened\<rparr>)" by (rule plant_reach.own [OF r3])
  then show ?thesis by (intro exI [of _ "?s2\<lparr>gate := Half\<rparr>\<lparr>gate := Opened\<rparr>"]) simp
qed

section \<open>The theorems\<close>

text \<open>
  C6. Everything told is delivered. A run of \<open>Run\<close> with its informers is a run of the goroutines.
  From each of its states there are at most \<open>work_left\<close> steps without news from the API server,
  and where the workers run, nothing panicked and no step is left, all deltas are popped, all
  calls returned, all items processed, and the store of each informer holds what it was told.
\<close>

theorem informed_drains:
  assumes "plant_reach kube hst n s" and "0 < n"
  shows "reachable kube hst n (gr s) \<and>
    (\<forall>k s'. (own_step kube hst n ^^ k) s s' \<longrightarrow> k \<le> work_left n s) \<and>
    (\<forall>k s'. (own_step kube hst n ^^ k) s s' \<and> gate s' = Opened \<and> (\<nexists>s''. own_step kube hst n s' s'') \<and> \<not> crashed (gr s') \<longrightarrow>
      delivered n s' \<and> known (pod_inf s') = informer_view (pod_inf s) \<and> known (cm_inf s') = informer_view (cm_inf s))"
proof -
  note r = plant_reach_ok [OF assms]
  have run: "k + work_left n s' \<le> work_left n s \<and> plant_ok n s' \<and> informer_view (pod_inf s') = informer_view (pod_inf s) \<and>
      informer_view (cm_inf s') = informer_view (cm_inf s)" if "(own_step kube hst n ^^ k) s s'" for k s'
    using own_run [OF that _ assms(2)] r by simp
  have "delivered n s' \<and> known (pod_inf s') = informer_view (pod_inf s) \<and> known (cm_inf s') = informer_view (cm_inf s)"
    if "(own_step kube hst n ^^ k) s s'" "gate s' = Opened" "\<nexists>s''. own_step kube hst n s' s''" "\<not> crashed (gr s')" for k s'
  proof -
    have d: "delivered n s'" using run [OF that(1)] stuck_delivered [OF _ that(2-4)] by blast
    moreover have "informer_inv (pod_inf s')" "informer_inv (cm_inf s')" using run [OF that(1)] by (simp_all add: plant_ok_def)
    ultimately show ?thesis
      using run [OF that(1)] view_when_empty [of "pod_inf s'"] view_when_empty [of "cm_inf s'"] by (simp add: delivered_def)
  qed
  with r run show ?thesis by (meson add_leD1)
qed

theorem informed_drains_witness:
  "\<exists>s. plant_reach ref_kube (ref_host rr) 5 s \<and> gate s = Opened \<and>
     {k. \<exists>s'. (own_step ref_kube (ref_host rr) 5 ^^ k) s s'} \<subseteq> {..work_left 5 s}"
proof -
  obtain s :: "cworld plant" where s: "plant_reach ref_kube (ref_host rr) 5 s" "gate s = Opened" using opened_run by blast
  with informed_drains [OF s(1)] show ?thesis by (intro exI [of _ s]) auto
qed



end
