(* ===== verification/Served_Run.thy ===== *)
theory Served_Run
  imports Spaced_Run Informed_Correct
begin

text \<open>
  From a modified object at the API server to the kernel's table. Once everything told before is
  delivered, the reflector puts the new version into the queue of its informer, the process loop
  calls the handler with the old and the new version, the handler queues an item and a worker
  applies it. On every interleaving this ends, without a panic, in the table the new version
  asks for.
\<close>

section \<open>Runs end somewhere\<close>

lemma internal_ends:
  assumes "sys_ok n s" and "0 < n"
  shows "\<exists>s'. (internal kube hst n)\<^sup>*\<^sup>* s s' \<and> sys_ok n s' \<and> (\<nexists>s''. internal kube hst n s' s'')"
  using assms(1)
proof (induction "effort n s" arbitrary: s rule: less_induct)
  case less
  show ?case
  proof (cases "\<exists>s1. internal kube hst n s s1")
    case True
    then obtain s1 where s1: "internal kube hst n s s1" by blast
    from less.hyps [OF internal_effort [OF s1 less.prems] internal_ok [OF s1 less.prems assms(2)]]
    show ?thesis using s1 by (meson converse_rtranclp_into_rtranclp)
  next
    case False
    with less.prems show ?thesis by blast
  qed
qed

lemma own_ends:
  assumes "plant_ok n s" and "0 < n"
  shows "\<exists>k s'. (own_step kube hst n ^^ k) s s' \<and> (\<nexists>s''. own_step kube hst n s' s'')"
  using assms(1)
proof (induction "work_left n s" arbitrary: s rule: less_induct)
  case less
  show ?case
  proof (cases "\<exists>s1. own_step kube hst n s s1")
    case True
    then obtain s1 where s1: "own_step kube hst n s s1" by blast
    from less.hyps [OF own_work [OF s1 less.prems] own_ok [OF s1 less.prems assms(2)]]
    show ?thesis using s1 by (meson relpowp_Suc_I2)
  next
    case False
    then show ?thesis by (meson relpowp_0_I)
  qed
qed

text \<open>A state at ease comes to a state in which all workers are parked.\<close>

lemma ease_drains:
  assumes "at_ease s" and "sys_ok n s" and "0 < n"
  shows "\<exists>s'. (internal kube hst n)\<^sup>*\<^sup>* s s' \<and> sys_ok n s' \<and> drained n s' \<and> at_ease s' \<and> ctl s' = ctl s \<and> world s' = world s"
proof -
  obtain s' where s': "(internal kube hst n)\<^sup>*\<^sup>* s s'" "sys_ok n s'" "\<nexists>s''. internal kube hst n s' s''"
    using internal_ends [OF assms(2,3)] by blast
  have "at_ease s' \<and> sys_ok n s' \<and> ctl s' = ctl s \<and> world s' = world s"
    using s'(1)
  proof induction
    case (step y z)
    with ease_step [OF step(2)] internal_ok [OF step(2) _ assms(3)] show ?case by simp
  qed (use assms in simp)
  then show ?thesis using s' stuck_drained [OF s'(2,3)] by (auto simp: at_ease_def)
qed

lemma spaced_stirred:
  assumes "(internal kube hst n)\<^sup>*\<^sup>* s s'" and "spaced_run start_ok elsewhere kube hst cfg n s A T U"
  shows "spaced_run start_ok elsewhere kube hst cfg n s' A T U"
  using assms(1) by induction (use assms(2) spaced_run.stir in auto)

section \<open>One modified object\<close>

lemma update_told:
  "take_turn (fifo_store ord) processLoop_turn (Watched (Watch_Modified ob)) s = s\<lparr>is_fifo := fifo_Update ob (is_fifo s)\<rparr>"
  by (simp add: fifo_store_def)

text \<open>An informer with an empty queue and a known object: the update is queued, and popped as one call.\<close>

lemma update_popped:
  fixes s :: "'v informer_state"
  assumes inv: "informer_inv s" and empty: "ff_queue (is_fifo s) = []"
    and old: "known s (MetaNamespaceKeyFunc ob) = Some old"
    and s1: "s1 = s\<lparr>is_fifo := fifo_Update ob (is_fifo s)\<rparr>"
  shows "informer_inv s1 \<and> ff_queue (is_fifo s1) = [MetaNamespaceKeyFunc ob] \<and> popped_calls s1 = [OnUpdate old ob] \<and>
    ff_queue (is_fifo (processLoop_turn s1)) = [] \<and>
    known (processLoop_turn s1) = (known s)(MetaNamespaceKeyFunc ob \<mapsto> ob)"
proof -
  let ?k = "MetaNamespaceKeyFunc ob" and ?f = "(is_fifo s)\<lparr>ff_populated := True\<rparr>"
  have ok: "fifo_ok ?f" using inv by (simp add: informer_inv_def fifo_inv_def)
  have i: "\<not> ignored (Updated_of ob) ?f" by (simp add: ignored_def)
  have f: "is_fifo s1 = queueActionLocked (Updated_of ob) ?f" by (simp add: s1 fifo_Update_def)
  have q: "ff_queue (is_fifo s1) = [?k]" using action_queue [OF ok i] empty by (simp add: f)
  have "deltas_of ?f ?k = []" using fifo_okD(4) [OF ok] empty by simp
  then have d: "deltas_of (is_fifo s1) ?k = [Updated_of ob]"
    by (simp add: f action_deltas [OF i] dedup_single)
  have ok1: "fifo_ok (is_fifo s1)" unfolding f by (rule fifo_ok_action [OF ok])
  have st: "is_store s1 = is_store s" "is_calls s1 = is_calls s" by (simp_all add: s1)
  have p: "Process (deltas_of (is_fifo s1) ?k) (is_store s1) = ([OnUpdate old ob], cache_Update ob (is_store s))"
    using old by (simp add: d st Process_put_def cache_Get_def cache_GetByKey_def)
  note eq = processLoop_head [OF ok1 q p]
  have "informer_inv s1"
    using fifo_queue.turn_ok [OF fair_id_orders inv, of "Watched (Watch_Modified ob)"] unfolding s1 update_told .
  then show ?thesis by (simp add: q popped_calls_def eq st items_cache)
qed

section \<open>The phases of a modified configmap\<close>

definition eased :: "'w kube \<Rightarrow> 'w host \<Rightarrow> nat \<Rightarrow> 'w sys \<Rightarrow> 'w sys \<Rightarrow> bool" where
  "eased kube hst n g0 g \<longleftrightarrow> (internal kube hst n)\<^sup>*\<^sup>* g0 g"

text \<open>The goroutines after the event \<open>ev\<close> was given to its informer.\<close>

definition evented :: "'w kube \<Rightarrow> 'w host \<Rightarrow> nat \<Rightarrow> event \<Rightarrow> 'w sys \<Rightarrow> 'w sys \<Rightarrow> bool" where
  "evented kube hst n ev g0 g \<longleftrightarrow> (\<exists>g1. eased kube hst n g0 g1 \<and>
     (internal kube hst n)\<^sup>*\<^sup>* (g1\<lparr>pcs := (pcs g1)(informer_of ev := Trying (Some ev))\<rparr>) g)"

lemma eased_step: "eased kube hst n g0 g \<Longrightarrow> internal kube hst n g g' \<Longrightarrow> eased kube hst n g0 g'"
  by (simp add: eased_def rtranclp.rtrancl_into_rtrancl)

lemma evented_step: "evented kube hst n ev g0 g \<Longrightarrow> internal kube hst n g g' \<Longrightarrow> evented kube hst n ev g0 g'"
  unfolding evented_def by (meson rtranclp.rtrancl_into_rtrancl)

lemma eased_ctl:
  assumes "eased kube hst n g0 g" and "at_ease g0" and "sys_ok n g0" and "0 < n"
  shows "at_ease g \<and> sys_ok n g \<and> ctl g = ctl g0 \<and> world g = world g0"
  using assms(1) unfolding eased_def
proof induction
  case (step y z)
  with ease_step [OF step(2)] internal_ok [OF step(2) _ assms(4)] show ?case by simp
qed (use assms in simp)

definition cm_phase :: "'w kube \<Rightarrow> 'w host \<Rightarrow> nat \<Rightarrow> 'w plant \<Rightarrow> event \<Rightarrow> cm_body notification \<Rightarrow> cm_body informer_state
    \<Rightarrow> 'w plant \<Rightarrow> bool" where
  "cm_phase kube hst n s0 ev c I s \<longleftrightarrow> gate s = Opened \<and> ff_queue (is_fifo (pod_inf s)) = [] \<and> pod_calls s = [] \<and>
     (cm_inf s = I \<and> cm_calls s = [] \<and> eased kube hst n (gr s0) (gr s) \<or>
      cm_inf s = processLoop_turn I \<and> cm_calls s = [c] \<and> eased kube hst n (gr s0) (gr s) \<or>
      cm_inf s = processLoop_turn I \<and> cm_calls s = [] \<and> evented kube hst n ev (gr s0) (gr s))"

lemma cm_phase_step:
  assumes "own_step kube hst n s s'" and ph: "cm_phase kube hst n s0 ev c I s"
    and e: "at_ease (gr s0)" "sys_ok n (gr s0)" "0 < n"
    and I: "popped_calls I = [c]" "ff_queue (is_fifo (processLoop_turn I)) = []"
    and ev: "cm_job c (ctl (gr s0)) = Some ev" "informer_of ev = CmInf"
  shows "cm_phase kube hst n s0 ev c I s'"
  using assms(1)
proof cases
  case pod_pop
  then show ?thesis using ph by (simp add: cm_phase_def)
next
  case (pod_call x xs ord l w)
  then show ?thesis using ph by (simp add: cm_phase_def)
next
  case (pod_lock x xs ev')
  then show ?thesis using ph by (simp add: cm_phase_def)
next
  case cm_pop
  then have "cm_inf s = I \<and> eased kube hst n (gr s0) (gr s)" using ph I(2) by (auto simp: cm_phase_def free_cms_def)
  with cm_pop(1) ph I(1) show ?thesis by (simp add: cm_phase_def)
next
  case (cm_call x xs ord l w)
  then have "x = c" "eased kube hst n (gr s0) (gr s)" using ph by (auto simp: cm_phase_def)
  then show ?thesis using cm_call(5) ev(1) eased_ctl [OF _ e] by simp
next
  case (cm_lock x xs ev')
  then have x: "x = c" "xs = []" "eased kube hst n (gr s0) (gr s)" "cm_inf s = processLoop_turn I"
    using ph by (auto simp: cm_phase_def)
  then have "ev' = ev" using cm_lock(5) ev(1) eased_ctl [OF x(3) e] by simp
  then have "evented kube hst n ev (gr s0) (gr s')"
    using cm_lock(1) x(3) ev(2) by (auto simp: evented_def)
  with cm_lock(1) x ph show ?thesis by (simp add: cm_phase_def)
next
  case (inner g)
  then have "internal kube hst n (gr s) g" using ph by (simp add: cm_phase_def staff_def)
  with inner(1) ph show ?thesis
    using eased_step [of kube hst n "gr s0" "gr s" g] evented_step [of kube hst n ev "gr s0" "gr s" g]
    by (auto simp: cm_phase_def)
qed (use ph in \<open>simp_all add: cm_phase_def\<close>)


lemma cm_phase_run:
  assumes "(own_step kube hst n)\<^sup>*\<^sup>* s1 s'" and "cm_phase kube hst n s0 ev c I s1"
    and "at_ease (gr s0)" "sys_ok n (gr s0)" "0 < n"
    and "popped_calls I = [c]" "ff_queue (is_fifo (processLoop_turn I)) = []"
    and "cm_job c (ctl (gr s0)) = Some ev" "informer_of ev = CmInf"
  shows "cm_phase kube hst n s0 ev c I s'"
  using assms(1)
proof induction
  case (step y z)
  show ?case by (rule cm_phase_step [OF step(2,3) assms(3-9)])
qed (rule assms(2))

text \<open>The same phases for a modified pod.\<close>

definition pod_phase :: "'w kube \<Rightarrow> 'w host \<Rightarrow> nat \<Rightarrow> 'w plant \<Rightarrow> event \<Rightarrow> pod_body notification \<Rightarrow> pod_body informer_state
    \<Rightarrow> 'w plant \<Rightarrow> bool" where
  "pod_phase kube hst n s0 ev c I s \<longleftrightarrow> gate s = Opened \<and> ff_queue (is_fifo (cm_inf s)) = [] \<and> cm_calls s = [] \<and>
     (pod_inf s = I \<and> pod_calls s = [] \<and> eased kube hst n (gr s0) (gr s) \<or>
      pod_inf s = processLoop_turn I \<and> pod_calls s = [c] \<and> eased kube hst n (gr s0) (gr s) \<or>
      pod_inf s = processLoop_turn I \<and> pod_calls s = [] \<and> evented kube hst n ev (gr s0) (gr s))"

lemma pod_phase_step:
  assumes "own_step kube hst n s s'" and ph: "pod_phase kube hst n s0 ev c I s"
    and e: "at_ease (gr s0)" "sys_ok n (gr s0)" "0 < n"
    and I: "popped_calls I = [c]" "ff_queue (is_fifo (processLoop_turn I)) = []"
    and ev: "pod_job c (ctl (gr s0)) = Some ev" "informer_of ev = PodInf"
  shows "pod_phase kube hst n s0 ev c I s'"
  using assms(1)
proof cases
  case pod_pop
  then have "pod_inf s = I \<and> eased kube hst n (gr s0) (gr s)" using ph I(2) by (auto simp: pod_phase_def free_pods_def)
  with pod_pop(1) ph I(1) show ?thesis by (simp add: pod_phase_def)
next
  case (pod_call x xs ord l w)
  then have "x = c" "eased kube hst n (gr s0) (gr s)" using ph by (auto simp: pod_phase_def)
  then show ?thesis using pod_call(5) ev(1) eased_ctl [OF _ e] by simp
next
  case (pod_lock x xs ev')
  then have x: "x = c" "xs = []" "eased kube hst n (gr s0) (gr s)" "pod_inf s = processLoop_turn I"
    using ph by (auto simp: pod_phase_def)
  then have "ev' = ev" using pod_lock(5) ev(1) eased_ctl [OF x(3) e] by simp
  then have "evented kube hst n ev (gr s0) (gr s')"
    using pod_lock(1) x(3) ev(2) by (auto simp: evented_def)
  with pod_lock(1) x ph show ?thesis by (simp add: pod_phase_def)
next
  case cm_pop
  then show ?thesis using ph by (simp add: pod_phase_def)
next
  case (cm_call x xs ord l w)
  then show ?thesis using ph by (simp add: pod_phase_def)
next
  case (cm_lock x xs ev')
  then show ?thesis using ph by (simp add: pod_phase_def)
next
  case (inner g)
  then have "internal kube hst n (gr s) g" using ph by (simp add: pod_phase_def staff_def)
  with inner(1) ph show ?thesis
    using eased_step [of kube hst n "gr s0" "gr s" g] evented_step [of kube hst n ev "gr s0" "gr s" g]
    by (auto simp: pod_phase_def)
qed (use ph in \<open>simp_all add: pod_phase_def\<close>)

lemma pod_phase_run:
  assumes "(own_step kube hst n)\<^sup>*\<^sup>* s1 s'" and "pod_phase kube hst n s0 ev c I s1"
    and "at_ease (gr s0)" "sys_ok n (gr s0)" "0 < n"
    and "popped_calls I = [c]" "ff_queue (is_fifo (processLoop_turn I)) = []"
    and "pod_job c (ctl (gr s0)) = Some ev" "informer_of ev = PodInf"
  shows "pod_phase kube hst n s0 ev c I s'"
  using assms(1)
proof induction
  case (step y z)
  show ?case by (rule pod_phase_step [OF step(2,3) assms(3-9)])
qed (rule assms(2))

context boot_env
begin

lemma spaced_ok_eased:
  assumes "spaced_ok n g0 A T U" and "eased kube hst n g0 g" and "0 < n"
  shows "spaced_ok n g A T U \<and> ctl g = ctl g0 \<and> world g = world g0"
  using eased_ctl [OF assms(2) _ _ assms(3)] assms(1) by (simp add: spaced_ok_def)

lemma evented_ok:
  assumes "spaced_ok n g0 A T U" and "evented kube hst n ev g0 g" and "0 < n"
    and "asked kube ev (ctl g0) (world g0) A T U A' T' U'"
  shows "sys_ok n g \<and> \<not> crashed g \<and> (at_ease g \<longrightarrow> spaced_ok n g A' T' U')"
proof -
  obtain g1 where g1: "eased kube hst n g0 g1"
    "(internal kube hst n)\<^sup>*\<^sup>* (g1\<lparr>pcs := (pcs g1)(informer_of ev := Trying (Some ev))\<rparr>) g"
    using assms(2) unfolding evented_def by blast
  have s: "spaced_ok n g1 A T U" "ctl g1 = ctl g0" "world g1 = world g0"
    using spaced_ok_eased [OF assms(1) g1(1) assms(3)] by simp_all
  have "asked kube ev (ctl g1) (world g1) A T U A' T' U'" using assms(4) by (simp add: s(2,3))
  from event_run [OF s(1) this assms(3) g1(2)] show ?thesis .
qed

end

lemma evented_spaced:
  assumes run: "spaced_run start_ok elsewhere kube hst cfg n g0 A T U" and g: "evented kube hst n ev g0 g"
    and ask: "asked kube ev (ctl g0) (world g0) A T U A' T' U'" and e: "at_ease g"
    and "at_ease g0" and "sys_ok n g0" and "0 < n"
  shows "spaced_run start_ok elsewhere kube hst cfg n g A' T' U'"
proof -
  obtain g1 where g1: "eased kube hst n g0 g1"
    "(internal kube hst n)\<^sup>*\<^sup>* (g1\<lparr>pcs := (pcs g1)(informer_of ev := Trying (Some ev))\<rparr>) g"
    using g unfolding evented_def by blast
  have "spaced_run start_ok elsewhere kube hst cfg n g1 A T U"
    by (rule spaced_stirred [OF g1(1) [unfolded eased_def] run])
  moreover have "asked kube ev (ctl g1) (world g1) A T U A' T' U'"
    using eased_ctl [OF g1(1) assms(5-7)] ask by simp
  ultimately show ?thesis using g1(2) e by (rule spaced_run.event)
qed


section \<open>Serving\<close>

text \<open>The plant between two events: the workers run and everything told is delivered.\<close>

definition serving :: "nat \<Rightarrow> 'w plant \<Rightarrow> bool" where
  "serving n s \<longleftrightarrow> plant_ok n s \<and> gate s = Opened \<and> delivered n s"

lemma servingD:
  assumes "serving n s"
  shows "plant_ok n s" "gate s = Opened" "pod_calls s = []" "cm_calls s = []"
    "ff_queue (is_fifo (pod_inf s)) = []" "ff_queue (is_fifo (cm_inf s)) = []" "sys_ok n (gr s)"
    "informer_inv (pod_inf s)" "informer_inv (cm_inf s)"
  using assms by (auto simp: serving_def delivered_def plant_ok_def)

context boot_env
begin

text \<open>
  What one event of an informer comes to, given that each state on the way is in a phase: eased
  or after the event.
\<close>

lemma phases_end:
  assumes quiet: "\<And>w w'. elsewhere w w' \<Longrightarrow> invar w \<Longrightarrow> invar w' \<and> view w' = view w" and n: "0 < n"
    and run: "spaced_run invar elsewhere kube hst cfg n g0 A T U"
    and ask: "asked kube ev (ctl g0) (world g0) A T U A' T' U'"
    and ok: "plant_ok n s1" and o: "gate s1 = Opened" and k: "(own_step kube hst n ^^ k) s1 s'"
    and ph: "eased kube hst n g0 (gr s') \<and> \<not> delivered n s' \<or> evented kube hst n ev g0 (gr s')"
  shows "k \<le> work_left n s1 \<and> \<not> crashed (gr s') \<and>
    ((\<nexists>s''. own_step kube hst n s' s'') \<longrightarrow> serving n s' \<and>
      spaced_run invar elsewhere kube hst cfg n (gr s') A' T' U' \<and> rs_of (view (world (gr s'))) = want v A' T' U')"
proof -
  note s0 = spaced_run_ok [OF quiet n run]
  have r: "k \<le> work_left n s1" "plant_ok n s'" "gate s' = Opened" using own_run [OF k ok n] o by simp_all
  have nc: "\<not> crashed (gr s')"
    using ph spaced_ok_eased [OF s0 _ n, of "gr s'"] evented_ok [OF s0 _ n ask, of "gr s'"]
    by (auto simp: spaced_ok_def at_ease_def)
  moreover have "serving n s' \<and> spaced_run invar elsewhere kube hst cfg n (gr s') A' T' U' \<and>
      rs_of (view (world (gr s'))) = want v A' T' U'" if stuck: "\<nexists>s''. own_step kube hst n s' s''"
  proof -
    have d: "delivered n s'" by (rule stuck_delivered [OF r(2,3) stuck nc])
    then have ev: "evented kube hst n ev g0 (gr s')" using ph by blast
    have e: "at_ease (gr s')" using d nc by (simp add: delivered_def drained_at_ease [of n])
    have "at_ease g0" "sys_ok n g0" using s0 by (simp_all add: spaced_ok_def)
    then have sp: "spaced_run invar elsewhere kube hst cfg n (gr s') A' T' U'"
      by (rule evented_spaced [OF run ev ask e _ _ n])
    have "spaced_ok n (gr s') A' T' U'" using evented_ok [OF s0 ev n ask] e by blast
    then have "rs_of (view (world (gr s'))) = want v A' T' U'"
      by (auto simp: spaced_ok_def settled_def at_rest_def)
    with sp d r show ?thesis by (simp add: serving_def)
  qed
  ultimately show ?thesis using r(1) by blast
qed

end


section \<open>A concrete plant\<close>

lemma Initial_server:
  assumes "Initial kube ord lbc w = Returns (err, lbc', w')"
  shows "nginxServer lbc' = nginxServer lbc"
proof -
  have "Initial_body kube ord (lbc\<lparr>cond_L := True\<rparr>) w = Returns (err, lbc', w')"
    using assms by (auto simp: Initial_def critical_def split: if_splits)
  then have "nginxServer lbc' = nginxServer (lbc\<lparr>cond_L := True\<rparr>)"
    by (auto simp: Initial_body_def Let_def send_unlock_def split: prod.splits option.splits if_splits
        dest!: listCm_same listNginx_same)
  then show ?thesis by simp
qed

lemma internal_server:
  assumes "internal kube hst n s s'" and "sys_ok n s"
  shows "nginxServer (ctl s') = nginxServer (ctl s)"
  using assms(1)
proof cases
  case (push t ev ord l w)
  then show ?thesis using handle_queue [OF assms(2) [unfolded sys_ok_def] push(3,4,5)] by simp
next
  case (process t ord l w')
  then show ?thesis using process_queue [OF assms(2) [unfolded sys_ok_def] process(5)] by simp
qed simp_all

lemma internal_run_server:
  assumes "(internal kube hst n)\<^sup>*\<^sup>* s s'" and "sys_ok n s" and "0 < n"
  shows "sys_ok n s' \<and> nginxServer (ctl s') = nginxServer (ctl s)"
  using assms(1)
proof induction
  case (step y z)
  with internal_ok [OF step(2) _ assms(3)] internal_server [OF step(2)] show ?case by simp
qed (use assms(2) in simp)

abbreviation ref_spaced :: "cworld sys \<Rightarrow> bytes set \<Rightarrow> u16 set \<Rightarrow> u16 set \<Rightarrow> bool" where
  "ref_spaced \<equiv> spaced_run kern_ok cluster_change ref_kube (ref_host rr) ref_cfg 5"

definition ref_rest :: "cworld sys \<Rightarrow> bool" where
  "ref_rest s \<longleftrightarrow> ref_spaced s ref_addrs {80, 443} {53} \<and> drained 5 s \<and> sys_ok 5 s \<and>
     nginxServer (ctl s) = nginxDefault \<and> w_pods (world s) = ref_pods \<and> w_cms (world s) = ref_cms"

lemma ref_rest_start: "\<exists>s. ref_rest s"
proof -
  let ?l = "fresh ref_cfg ref_manager" and ?step = "internal ref_kube (ref_host rr) 5"
  have cms: "list_cms ref_kube (nginxServer ?l) ref_world0 = (Inr ref_cms, ref_world0)"
    by (simp add: ref_lists ref_world0_def ref_world_def)
  have pods: "list_pods ref_kube (nginxServer ?l) ref_world0 = (Inr ref_pods, ref_world0)"
    by (simp only: ref_lists fresh_server) (simp add: ref_world0_def ref_world_def ref_pods_server)
  have nz: "0 \<notin> cm_ports tcpService ref_cms" "0 \<notin> cm_ports udpService ref_cms"
    by (simp_all only: ref_cms_ports) simp_all
  have names: "\<forall>pod \<in> set ref_pods. one_line (pod_Name pod)" by (simp add: ref_pods_def one_line_def)
  obtain lbc1 where b: "Initial ref_kube id_orders ?l ref_world0 = Returns (None, lbc1, ref_world0)"
    using ref.boot_settles [OF ref_world_ok(1) fair_id_orders fair_id_orders ref_New cms ref_cms_ports(3) nz pods ref_pods_ok(1)]
    by blast
  note boot = boot_env.boot_starts [OF ref.boot_env_axioms ref_world_ok(1) fair_id_orders ref_New cms ref_cms_ports(3) nz
      pods ref_pods_ok(1) names b, of 5]
  then have r: "sys_ok 5 (running lbc1 ref_world0)" using started_ok [of 5 "running lbc1 ref_world0"] by simp
  obtain s where s: "?step\<^sup>*\<^sup>* (running lbc1 ref_world0) s" "\<nexists>s'. ?step s s'"
    using internal_ends [OF r, of ref_kube "ref_host rr"] by auto
  note run = boot_inner [OF s(1), of "pod_addrs ref_pods"]
  have ok: "sys_ok 5 s" "\<not> crashed s"
    using boot_env.booting_run [OF ref.boot_env_axioms run] boot boot_env.booting_def [OF ref.boot_env_axioms]
    by (metis zero_less_numeral)+
  have d: "drained 5 s" by (rule stuck_drained [OF ok(1) s(2) ok(2)])
  have "ref_spaced s (pod_addrs ref_pods) (cm_ports tcpService ref_cms) (cm_ports udpService ref_cms)"
    by (rule spaced_run.start, rule ref_world_ok(1), rule fair_id_orders, rule ref_New, rule cms, rule ref_cms_ports(3),
        rule nz(1), rule nz(2), rule pods, rule ref_pods_ok(1), rule names, rule b(1), rule run, rule drained_at_ease [OF d ok(2)])
  then have sp: "ref_spaced s ref_addrs {80, 443} {53}" unfolding ref_cms_ports ref_pods_ok .
  have "nginxServer (ctl s) = nginxDefault"
    using internal_run_server [OF s(1) r] Initial_server [OF b] fresh_server by (simp add: running_def)
  moreover have "ref_spaced (s\<lparr>world := (world s)\<lparr>w_pods := ref_pods, w_cms := ref_cms\<rparr>\<rparr>) ref_addrs {80, 443} {53}"
    by (rule spaced_run.elsewhere [OF sp]) (simp add: cluster_change_def)
  ultimately show ?thesis using d ok(1)
    by (intro exI [of _ "s\<lparr>world := (world s)\<lparr>w_pods := ref_pods, w_cms := ref_cms\<rparr>\<rparr>"])
       (simp add: ref_rest_def drained_def sys_ok_def)
qed

text \<open>Two events: port 443 is taken out of the tcp configmap, and a third pod gets ready.\<close>

abbreviation ref_cm_event :: event where
  "ref_cm_event \<equiv> CmEvent (port_cm tcpService [80, 443]) (port_cm tcpService [80])"

abbreviation third_pod :: Pod where
  "third_pod \<equiv> quad_pod ''c'' 10 0 0 13 False"

lemma ref_rest_cm:
  assumes "ref_rest s"
  shows "asked ref_kube ref_cm_event (ctl s) (world s) ref_addrs {80, 443} {53} ref_addrs {80} {53}"
proof (rule asked.tcp)
  have "valid_ports (map dec [80]) = {80}" by (subst valid_ports_dec; simp)
  then show "cm_event ref_kube tcpService ref_addrs {80, 443} {80} (port_cm tcpService [80, 443]) (port_cm tcpService [80])
      (ctl s) (world s)"
    using assms unfolding cm_event_def ref_lists port_cm_keys ref_rest_def
    by (auto simp: port_cm_def data_eq_def go_map_eq_def ref_pods_server ref_pods_ok)
qed

lemma ref_rest_pod:
  assumes "ref_rest s"
  shows "asked ref_kube (PodEvent third_pod new) (ctl s) (world s) ref_addrs {80, 443} {53}
    (ref_addrs \<union> {[10, 0, 0, 13]}) {80, 443} {53}"
proof -
  have "pod_event ref_kube [10, 0, 0, 13] {80, 443} {53} third_pod (ctl s) (world s)"
    using assms ref_cms_ports unfolding pod_event_def ref_lists ref_rest_def by auto
  from asked.pod [OF this] show ?thesis by simp
qed

definition tcp_object :: "nat list \<Rightarrow> cm_body object" where
  "tcp_object ps = \<lparr>ob_Namespace = nginxDefault, ob_Name = tcpService, ob_Labels = [], ob_Body = cm_Data (port_cm tcpService ps)\<rparr>"

definition pod_object :: "pod_body object" where
  "pod_object = \<lparr>ob_Namespace = nginxDefault, ob_Name = ''nginx-ingress-controller-c'', ob_Labels = [],
     ob_Body = \<lparr>pb_PodIP = dotted_quad 10 0 0 13, pb_Deleted = False\<rparr>\<rparr>"

lemma objects_of [simp]: "cm_of (tcp_object ps) = port_cm tcpService ps" "pod_of pod_object = third_pod"
  by (simp_all add: tcp_object_def cm_of_def port_cm_def pod_object_def pod_of_def quad_pod_def)

definition tcp_informer :: "cm_body informer_state" where
  "tcp_informer = informer_run (\<lambda>_. id_orders) [Listed [tcp_object [80, 443]], Processed] NewInformer"

definition pods_informer :: "pod_body informer_state" where
  "pods_informer = informer_run (\<lambda>_. id_orders) [Listed [pod_object], Processed] NewInformer"

lemma concrete_informers:
  "ff_queue (is_fifo tcp_informer) = []" "ff_queue (is_fifo pods_informer) = []"
  "known tcp_informer (MetaNamespaceKeyFunc (tcp_object [80])) = Some (tcp_object [80, 443])"
  "known pods_informer (MetaNamespaceKeyFunc pod_object) = Some pod_object"
  unfolding tcp_informer_def pods_informer_def by code_simp+

lemma ref_serving:
  "\<exists>s :: cworld plant. serving 5 s \<and> ref_rest (gr s) \<and> cm_inf s = tcp_informer \<and> pod_inf s = pods_informer"
proof -
  obtain g where g: "ref_rest g" using ref_rest_start by blast
  let ?s = "\<lparr>pod_inf = pods_informer, pod_calls = [], cm_inf = tcp_informer, cm_calls = [], gate = Opened, gr = g\<rparr>"
  have "informer_inv tcp_informer" "informer_inv pods_informer"
    unfolding tcp_informer_def pods_informer_def by (rule informer_run_inv, simp add: fair_id_orders)+
  then have "serving 5 ?s"
    using g concrete_informers by (simp add: serving_def plant_ok_def delivered_def ref_rest_def)
  with g show ?thesis by (intro exI [of _ ?s]) simp
qed

lemma serving_told:
  assumes "serving n s" and "fair_orders ord"
  shows "plant_ok n (s\<lparr>cm_inf := take_turn (fifo_store ord) processLoop_turn (Watched e) (cm_inf s)\<rparr>)"
    "plant_ok n (s\<lparr>pod_inf := take_turn (fifo_store ord) processLoop_turn (Watched e') (pod_inf s)\<rparr>)"
  using servingD [OF assms(1)] fifo_queue.turn_ok [OF assms(2)] by (simp_all add: plant_ok_def del: take_turn.simps)

section \<open>The theorems\<close>



text \<open>
  An event comes to rest. When an event finds such a run at rest, then whatever the handler,
  the workers and their wake-ups do, they take at most \<open>effort\<close> steps, nothing panics on the way,
  and where no step is left the run is at rest again with the addresses and ports the event
  asks for.
\<close>

theorem event_settles:
  assumes "boot_env h view invar svc_ok dst_ok hst cfg v kube"
    and "\<And>w w'. elsewhere w w' \<Longrightarrow> invar w \<Longrightarrow> invar w' \<and> view w' = view w" and "0 < n"
    and "spaced_run invar elsewhere kube hst cfg n s A T U"
    and "asked kube ev (ctl s) (world s) A T U A' T' U'"
    and s1: "s1 = s\<lparr>pcs := (pcs s)(informer_of ev := Trying (Some ev))\<rparr>"
  shows "\<forall>k s'. (internal kube hst n ^^ k) s1 s' \<longrightarrow> k \<le> effort n s1 \<and> \<not> crashed s' \<and>
    ((\<nexists>s''. internal kube hst n s' s'') \<longrightarrow> drained n s' \<and> spaced_run invar elsewhere kube hst cfg n s' A' T' U')"
proof (intro allI impI)
  fix k s' assume k: "(internal kube hst n ^^ k) s1 s'"
  have r: "(internal kube hst n)\<^sup>*\<^sup>* s1 s'" using k by (rule relpowp_imp_rtranclp)
  have "boot_env.spaced_ok h view invar cfg v n s A T U" by (rule boot_env.spaced_run_ok [OF assms(1-4)])
  note e = boot_env.event_run [OF assms(1) this assms(5,3)]
  have ok: "sys_ok n s1" using e [OF rtranclp.rtrancl_refl] by (simp add: s1)
  have s': "sys_ok n s'" "\<not> crashed s'" using e r by (simp_all add: s1)
  have "drained n s' \<and> spaced_run invar elsewhere kube hst cfg n s' A' T' U'" if "\<nexists>s''. internal kube hst n s' s''"
    using stuck_drained [OF s'(1) that s'(2)] drained_at_ease [of n s'] s'(2)
      spaced_run.event [OF assms(4,5) r [unfolded s1]] by blast
  moreover have "k \<le> effort n s1" using run_length [OF k ok assms(3)] by simp
  ultimately show "k \<le> effort n s1 \<and> \<not> crashed s' \<and>
      ((\<nexists>s''. internal kube hst n s' s'') \<longrightarrow> drained n s' \<and> spaced_run invar elsewhere kube hst cfg n s' A' T' U')"
    using s'(2) by blast
qed

theorem event_settles_witness: "\<exists>s. ref_spaced s ref_addrs {80} {53} \<and> drained 5 s"
proof -
  obtain s where s: "ref_rest s" using ref_rest_start by blast
  then have r: "ref_spaced s ref_addrs {80, 443} {53}" by (simp add: ref_rest_def)
  let ?s1 = "s\<lparr>pcs := (pcs s)(informer_of ref_cm_event := Trying (Some ref_cm_event))\<rparr>"
  note e = event_settles [OF ref.boot_env_axioms cluster_change_quiet _ r ref_rest_cm [OF s] refl]
  have "at_ease s" "sys_ok 5 s" "nginxServer (ctl s) = nginxDefault"
    using boot_env.spaced_run_ok [OF ref.boot_env_axioms cluster_change_quiet _ r] s
    by (simp_all add: boot_env.spaced_ok_def [OF ref.boot_env_axioms] ref_rest_def)
  then have "sys_ok 5 ?s1"
    using one_event_start [of s 5 ref_cm_event] asked_locks [OF ref_rest_cm [OF s]] by (simp add: one_event_def)
  then obtain s' where s': "(internal ref_kube (ref_host rr) 5)\<^sup>*\<^sup>* ?s1 s'" "\<nexists>s''. internal ref_kube (ref_host rr) 5 s' s''"
    using internal_ends [of 5 ?s1 ref_kube "ref_host rr"] by auto
  then obtain k where "(internal ref_kube (ref_host rr) 5 ^^ k) ?s1 s'" by (auto dest: rtranclp_imp_relpowp)
  with e s'(2) show ?thesis by fastforce
qed






end
