(* ===== verification/Bounded_Run.thy ===== *)
theory Bounded_Run
  imports Reference_World Spaced_Run
begin

text \<open>
  Every interleaving of the goroutines, with any events: if the pods and configmaps that are
  delivered and listed only name addresses of \<open>A\<close> and ports of \<open>T\<close> (tcp) and \<open>U\<close> (udp), and
  nobody else changes the kernel's table, then the controller stores only these, no goroutine
  panics, and the table only gains real servers that pair an address of \<open>A\<close> with one of the
  ports.
\<close>

section \<open>Named addresses and ports\<close>

definition knows_cm :: "u16 set \<Rightarrow> u16 set \<Rightarrow> ConfigMap \<Rightarrow> bool" where
  "knows_cm T U cm \<longleftrightarrow> (Contains (cm_Name cm) tcpService \<longrightarrow> valid_ports (data_keys cm) \<subseteq> T) \<and>
     (Contains (cm_Name cm) udpService \<longrightarrow> valid_ports (data_keys cm) \<subseteq> U)"

text \<open>The handlers read the old pod and the new configmap.\<close>

fun knows_event :: "bytes set \<Rightarrow> u16 set \<Rightarrow> u16 set \<Rightarrow> event \<Rightarrow> bool" where
  "knows_event A T U (PodEvent old new) \<longleftrightarrow> knows_pod A old"
| "knows_event A T U (CmEvent old cm) \<longleftrightarrow> knows_cm T U cm"

definition stores_within :: "bytes set \<Rightarrow> u16 set \<Rightarrow> u16 set \<Rightarrow> LBStore \<Rightarrow> bool" where
  "stores_within A T U lb \<longleftrightarrow> (\<forall>key ip. map_of (Addr lb) key = Some ip \<longrightarrow> addr4 ip \<in> Some ` A) \<and>
     dom (map_of (Tcp lb)) \<subseteq> T \<and> dom (map_of (Udp lb)) \<subseteq> U"

definition lbc_within :: "bytes set \<Rightarrow> u16 set \<Rightarrow> u16 set \<Rightarrow> 'w LoadBalancerController \<Rightarrow> bool" where
  "lbc_within A T U lbc \<longleftrightarrow> stores_within A T U (clbdata lbc) \<and> stores_within A T U (plbdata lbc) \<and>
     dom (map_of (NwTcp lbc)) \<subseteq> T \<and> dom (map_of (ExTcp lbc)) \<subseteq> T \<and>
     dom (map_of (NwUdp lbc)) \<subseteq> U \<and> dom (map_of (ExUdp lbc)) \<subseteq> U"

lemma lbc_within_deref: "lbc_within A T U lbc \<Longrightarrow> stores_within A T U (deref r lbc)"
  by (cases r) (simp_all add: lbc_within_def)

lemma lbc_within_set_store:
  "lbc_within A T U lbc \<Longrightarrow> stores_within A T U lb \<Longrightarrow> lbc_within A T U (set_store r lb lbc)"
  by (cases r) (simp_all add: lbc_within_def)

lemma lbc_within_frame [simp]:
  "lbc_within A T U (lbc\<lparr>cond_L := b\<rparr>) = lbc_within A T U lbc"
  "lbc_within A T U (lbc\<lparr>lbstore := rs\<rparr>) = lbc_within A T U lbc"
  by (simp_all add: lbc_within_def)

lemma store_adds_within:
  assumes "stores_within A T U lb"
  shows "store_adds v lb \<subseteq> want v A T U"
proof
  fix x assume "x \<in> store_adds v lb"
  then obtain key a where a: "key_addr lb key = Some a" "x \<in> addr_adds v lb a"
    by (auto simp: store_adds_def key_adds_def split: option.splits if_splits)
  then obtain ip where "map_of (Addr lb) key = Some ip" "addr4 ip = Some a" by (auto simp: key_addr_Some)
  then have "a \<in> A" using assms unfolding stores_within_def by fastforce
  with a(2) assms show "x \<in> want v A T U"
    unfolding addr_adds_def with_act_def stores_within_def want_def by blast
qed

lemma store_sane_within: "stores_within A T U lb \<Longrightarrow> 0 \<notin> T \<Longrightarrow> 0 \<notin> U \<Longrightarrow> store_sane lb"
  unfolding stores_within_def store_sane_def by fastforce

section \<open>The loops keep to the names\<close>

lemma dom_delete_keys: "dom (map_of (delete_keys ks m)) \<subseteq> dom (map_of m)"
  by (auto simp: map_of_delete_keys split: if_splits)

lemma dom_fold_put_valid: "dom (map_of (fold (put_valid proto) keys m)) \<subseteq> dom (map_of m) \<union> valid_ports keys"
proof (induction keys arbitrary: m)
  case (Cons k ks)
  obtain b p where v: "ValidatePort k = (b, p)" by (cases "ValidatePort k")
  have "dom (map_of (put_valid proto k m)) = dom (map_of m) \<union> (if b then {p} else {})"
    using v by (cases b) (simp_all add: put_valid_def)
  moreover have "valid_ports (k # ks) = valid_ports ks \<union> (if b then {p} else {})" using v by (cases b) simp_all
  moreover have "fold (put_valid proto) (k # ks) m = fold (put_valid proto) ks (put_valid proto k m)" by simp
  ultimately show ?case using Cons.IH [of "put_valid proto k m"] by auto
qed simp

lemma dom_add_ports: "dom (map_of (snd (add_ports keys m))) \<subseteq> dom (map_of m) \<union> valid_ports keys"
proof (induction keys arbitrary: m)
  case (Cons k ks)
  show ?case
  proof (cases "ValidatePort k")
    case (Pair ok p)
    with Cons.IH [of "go_put p addition m"] show ?thesis by (cases ok) auto
  qed
qed simp

lemma add_ports_within:
  "dom (map_of m) \<subseteq> P \<Longrightarrow> valid_ports keys \<subseteq> P \<Longrightarrow> dom (map_of (snd (add_ports keys m))) \<subseteq> P"
  by (rule subset_trans [OF dom_add_ports]) (rule Un_least)

lemma add_pods_within:
  assumes "\<forall>key ip. map_of m key = Some ip \<longrightarrow> addr4 ip \<in> Some ` A" and "\<forall>pod \<in> set pods. knows_pod A pod"
  shows "\<forall>key ip. map_of (snd (add_pods pods m)) key = Some ip \<longrightarrow> addr4 ip \<in> Some ` A"
  using assms
proof (induction pods arbitrary: m)
  case (Cons pod pods)
  obtain b ip where v: "ValidateIPv4 (pod_PodIP pod) = (b, ip)" by (cases "ValidateIPv4 (pod_PodIP pod)")
  have rest: "\<forall>pod \<in> set pods. knows_pod A pod" using Cons.prems(2) by simp
  show ?case
  proof (cases "Contains (pod_Name pod) nginxPattern \<and> pod_PodIP pod \<noteq> [] \<and> b")
    case True
    let ?m = "go_put (''adding_'' @ pod_Name pod) ip m"
    have "addr4 ip \<in> Some ` A" using Cons.prems(2) v True by (simp add: knows_pod_def)
    then have "\<forall>key ip'. map_of ?m key = Some ip' \<longrightarrow> addr4 ip' \<in> Some ` A" using Cons.prems(1) by simp
    from Cons.IH [OF this rest] True v show ?thesis by simp
  next
    case False
    with Cons.IH [OF Cons.prems(1) rest] Cons.prems(1) v show ?thesis by (cases b) auto
  qed
qed simp

lemma dom_fold_move_key:
  "fold move_key ks (old, new) = (old', new') \<Longrightarrow>
     dom (map_of old') \<subseteq> dom (map_of old) \<union> set ks \<and> dom (map_of new') \<subseteq> dom (map_of new)"
proof (induction ks arbitrary: old new)
  case (Cons k ks)
  then have "fold move_key ks (go_put k (go_get_str new k) old, go_del k new) = (old', new')" by simp
  note ih = Cons.IH [OF this]
  have "dom (map_of (go_put k (go_get_str new k) old)) = insert k (dom (map_of old))"
    "dom (map_of (go_del k new)) = dom (map_of new) - {k}" by simp_all
  with ih show ?case unfolding list.set by blast
qed simp

lemma L4Compare_within:
  assumes "fair_orders ord" and "L4Compare ord old new delta = (old', new', delta')"
    and "dom (map_of old) \<subseteq> P" "dom (map_of new) \<subseteq> P" "dom (map_of delta) \<subseteq> P"
  shows "dom (map_of old') \<subseteq> P \<and> dom (map_of new') \<subseteq> P \<and> dom (map_of delta') \<subseteq> P"
proof (cases "go_map_eq old new")
  case False
  define d1 where "d1 = delete_keys (port_order ord 0 (go_keys delta)) delta"
  define d2 where "d2 = fold (mark_new old) (port_order ord 1 (go_keys new)) d1"
  define d3 where "d3 = fold (mark_dead new) (port_order ord 2 (go_keys old)) d2"
  define o1 where "o1 = delete_keys (port_order ord 3 (go_keys d3)) old"
  have m: "fold move_key (port_order ord 4 (go_keys new)) (o1, new) = (old', new')" and d: "delta' = d3"
    using assms(2) False
    by (auto simp: L4Compare_def Let_def d1_def d2_def d3_def o1_def split: prod.splits)
  have d1: "dom (map_of d1) \<subseteq> P" unfolding d1_def by (rule subset_trans [OF dom_delete_keys assms(5)])
  have o1: "dom (map_of o1) \<subseteq> P" unfolding o1_def by (rule subset_trans [OF dom_delete_keys assms(3)])
  have "dom (map_of d2) \<subseteq> dom (map_of d1) \<union> dom (map_of new)"
    using assms(1) by (auto simp: d2_def map_of_fold_mark_new split: if_splits)
  then have d2: "dom (map_of d2) \<subseteq> P" by (rule subset_trans) (rule Un_least [OF d1 assms(4)])
  have "dom (map_of d3) \<subseteq> dom (map_of d2) \<union> dom (map_of old)"
    using assms(1) by (auto simp: d3_def map_of_fold_mark_dead split: if_splits)
  then have d3: "dom (map_of d3) \<subseteq> P" by (rule subset_trans) (rule Un_least [OF d2 assms(3)])
  have new: "set (port_order ord 4 (go_keys new)) = dom (map_of new)" using assms(1) by simp
  note mk = dom_fold_move_key [OF m, unfolded new]
  have "dom (map_of old') \<subseteq> P" by (rule subset_trans [OF mk [THEN conjunct1]]) (rule Un_least [OF o1 assms(4)])
  moreover have "dom (map_of new') \<subseteq> P" by (rule subset_trans [OF mk [THEN conjunct2] assms(4)])
  ultimately show ?thesis using d3 d by simp
next
  case True
  then have "L4Compare ord old new delta = (old, new, delta)" by (simp add: L4Compare_def)
  with assms show ?thesis by simp
qed

lemma add_cms_within:
  assumes "fair_orders ord" and "stores_within A T U lb" and "\<forall>cm \<in> set cms. knows_cm T U cm"
  shows "stores_within A T U (snd (add_cms ord n cms lb))"
  using assms(2,3)
proof (induction cms arbitrary: n lb)
  case (Cons cm cms)
  define u where "u = (if Contains (cm_Name cm) udpService
    then add_ports (name_order ord (2 * n + 1) (data_keys cm)) (Udp lb) else (None, Udp lb))"
  define t where "t = (if Contains (cm_Name cm) tcpService
    then add_ports (name_order ord (2 * n + 2) (data_keys cm)) (Tcp lb) else (None, Tcp lb))"
  note eq = add_cms_Cons [OF u_def t_def, of cms]
  have lb: "dom (map_of (Tcp lb)) \<subseteq> T" "dom (map_of (Udp lb)) \<subseteq> U" using Cons.prems(1) by (simp_all add: stores_within_def)
  have cm: "knows_cm T U cm" using Cons.prems(2) by simp
  have vp: "valid_ports (name_order ord i (data_keys cm)) = valid_ports (data_keys cm)" for i
    using assms(1) by (intro valid_ports_set) simp
  have U: "dom (map_of (snd u)) \<subseteq> U"
    using lb(2) cm vp by (simp add: u_def knows_cm_def add_ports_within)
  have T: "dom (map_of (snd t)) \<subseteq> T"
    using lb(1) cm vp by (simp add: t_def knows_cm_def add_ports_within)
  have w: "stores_within A T U (lb\<lparr>Udp := snd u\<rparr>)" "stores_within A T U (lb\<lparr>Udp := snd u, Tcp := snd t\<rparr>)"
    using Cons.prems(1) U T by (simp_all add: stores_within_def)
  moreover have "stores_within A T U (snd (add_cms ord (n + 1) cms (lb\<lparr>Udp := snd u, Tcp := snd t\<rparr>)))"
    using Cons.IH [OF w(2), of "n + 1"] Cons.prems(2) by simp
  ultimately show ?case unfolding eq by (cases "fst u"; cases "fst t") simp_all
qed simp

section \<open>Lists that keep to the names\<close>

definition lists_within :: "'w kube \<Rightarrow> ('w \<Rightarrow> bool) \<Rightarrow> bytes set \<Rightarrow> u16 set \<Rightarrow> u16 set \<Rightarrow> bool" where
  "lists_within kube good A T U \<longleftrightarrow>
     (\<forall>ns w pods w1. good w \<longrightarrow> list_pods kube ns w = (Inr pods, w1) \<longrightarrow> (\<forall>pod \<in> set pods. knows_pod A pod)) \<and>
     (\<forall>ns w cms w1. good w \<longrightarrow> list_cms kube ns w = (Inr cms, w1) \<longrightarrow> (\<forall>cm \<in> set cms. knows_cm T U cm))"

lemma stores_within_Addr:
  "stores_within A T U lb \<Longrightarrow> \<forall>key ip. map_of addrs key = Some ip \<longrightarrow> addr4 ip \<in> Some ` A \<Longrightarrow>
     stores_within A T U (lb\<lparr>Addr := addrs\<rparr>)"
  by (simp add: stores_within_def)

lemma cleared_addrs:
  assumes "stores_within A T U lb"
  shows "\<forall>key ip. map_of (delete_keys ks (Addr lb)) key = Some ip \<longrightarrow> addr4 ip \<in> Some ` A"
  using assms unfolding stores_within_def map_of_delete_keys by (metis option.distinct(1))

lemma listNginx_within:
  assumes "listNginx kube ord r lbc w = (err, lbc', w')" and "lbc_within A T U lbc"
    and "lists_within kube good A T U" and "good w"
  shows "lbc_within A T U lbc'"
proof (cases "fst (list_pods kube (nginxServer lbc) w)")
  case (Inl e)
  with assms show ?thesis by (auto simp: listNginx_def split: prod.splits)
next
  case (Inr pods)
  define m where "m = delete_keys (name_order ord 0 (go_keys (Addr (deref r lbc)))) (Addr (deref r lbc))"
  from Inr assms(1) have eq: "lbc' = set_store r ((deref r lbc)\<lparr>Addr := snd (add_pods pods m)\<rparr>) lbc"
    by (auto simp: listNginx_def Let_def m_def split: prod.splits)
  have "list_pods kube (nginxServer lbc) w = (Inr pods, snd (list_pods kube (nginxServer lbc) w))"
    using Inr by (metis prod.collapse)
  with assms(3,4) have "\<forall>pod \<in> set pods. knows_pod A pod" unfolding lists_within_def by blast
  from add_pods_within [OF _ this, of m] cleared_addrs [OF lbc_within_deref [OF assms(2)]]
  show ?thesis unfolding eq m_def
    by (intro lbc_within_set_store stores_within_Addr lbc_within_deref assms(2)) blast
qed

lemma listCm_within:
  assumes "listCm kube ord lbc w = (err, lbc', w')" and "lbc_within A T U lbc"
    and "lists_within kube good A T U" and "good w" and "fair_orders ord"
  shows "lbc_within A T U lbc'"
proof (cases "fst (list_cms kube (nginxServer lbc) w)")
  case (Inl e)
  with assms show ?thesis by (auto simp: listCm_def split: prod.splits)
next
  case (Inr cms)
  define lb where "lb = (plbdata lbc)\<lparr>
    Tcp := delete_keys (port_order ord 0 (go_keys (Tcp (plbdata lbc)))) (Tcp (plbdata lbc)),
    Udp := delete_keys (port_order ord 1 (go_keys (Udp (plbdata lbc)))) (Udp (plbdata lbc))\<rparr>"
  have eq: "lbc' = lbc\<lparr>plbdata := snd (add_cms ord 0 cms lb)\<rparr>"
    using Inr assms(1) by (auto simp: listCm_def Let_def lb_def split: prod.splits)
  have "list_cms kube (nginxServer lbc) w = (Inr cms, snd (list_cms kube (nginxServer lbc) w))"
    using Inr by (metis prod.collapse)
  with assms(3,4) have cms: "\<forall>cm \<in> set cms. knows_cm T U cm" unfolding lists_within_def by blast
  have p: "stores_within A T U (plbdata lbc)" using assms(2) by (simp add: lbc_within_def)
  then have "stores_within A T U lb"
    unfolding stores_within_def lb_def by simp (meson dom_delete_keys subset_trans)
  from add_cms_within [OF assms(5) this cms, of 0] assms(2) show ?thesis
    by (simp add: eq lbc_within_def)
qed

lemma send_within:
  "lbc_within A T U lbc \<Longrightarrow> send_unlock r lbc w = Returns (l, w') \<Longrightarrow> lbc_within A T U l \<and> w' = w \<and>
     lvsManager l = lvsManager lbc"
  by (auto simp: send_unlock_def split: if_splits)

section \<open>The handlers and the worker keep to the names\<close>

lemma updateTcp_prep:
  assumes "lbc_within A T U lbc" and "fair_orders ord" and "valid_ports (data_keys cm) \<subseteq> T"
    and "L4Compare ord (ExTcp lbc) (fold (put_valid protoTcp) (name_order ord 0 (data_keys cm)) (NwTcp lbc))
      (Tcp (clbdata lbc)) = (ex', nw', delta)"
  shows "lbc_within A T U (lbc\<lparr>ExTcp := ex', NwTcp := nw', clbdata := (clbdata lbc)\<lparr>Tcp := delta\<rparr>\<rparr>)"
proof -
  have "valid_ports (name_order ord 0 (data_keys cm)) = valid_ports (data_keys cm)"
    using assms(2) by (intro valid_ports_set) simp
  with assms(1,3) have "dom (map_of (fold (put_valid protoTcp) (name_order ord 0 (data_keys cm)) (NwTcp lbc))) \<subseteq> T"
    by (intro subset_trans [OF dom_fold_put_valid]) (simp add: lbc_within_def)
  with L4Compare_within [OF assms(2,4), of T] assms(1) show ?thesis
    by (simp add: lbc_within_def stores_within_def)
qed

lemma updateUdp_prep:
  assumes "lbc_within A T U lbc" and "fair_orders ord" and "valid_ports (data_keys cm) \<subseteq> U"
    and "L4Compare ord (ExUdp lbc) (fold (put_valid protoUdp) (name_order ord 0 (data_keys cm)) (NwUdp lbc))
      (Udp (clbdata lbc)) = (ex', nw', delta)"
  shows "lbc_within A T U (lbc\<lparr>ExUdp := ex', NwUdp := nw', clbdata := (clbdata lbc)\<lparr>Udp := delta\<rparr>\<rparr>)"
proof -
  have "valid_ports (name_order ord 0 (data_keys cm)) = valid_ports (data_keys cm)"
    using assms(2) by (intro valid_ports_set) simp
  with assms(1,3) have "dom (map_of (fold (put_valid protoUdp) (name_order ord 0 (data_keys cm)) (NwUdp lbc))) \<subseteq> U"
    by (intro subset_trans [OF dom_fold_put_valid]) (simp add: lbc_within_def)
  with L4Compare_within [OF assms(2,4), of U] assms(1) show ?thesis
    by (simp add: lbc_within_def stores_within_def)
qed

lemma addrUpdate_prep:
  assumes "lbc_within A T U lbc" and "knows_pod A pod"
  shows "lbc_within A T U (lbc\<lparr>plbdata := (plbdata lbc)\<lparr>Addr := (case ValidateIPv4 (pod_PodIP pod) of
      (True, addr) \<Rightarrow> go_put key addr (delete_keys ks (Addr (plbdata lbc)))
    | (False, _) \<Rightarrow> delete_keys ks (Addr (plbdata lbc)))\<rparr>\<rparr>)"
proof -
  let ?m = "delete_keys ks (Addr (plbdata lbc))"
  have p: "stores_within A T U (plbdata lbc)" using assms(1) by (simp add: lbc_within_def)
  note m = cleared_addrs [OF p, of ks]
  obtain b ip where v: "ValidateIPv4 (pod_PodIP pod) = (b, ip)" by (cases "ValidateIPv4 (pod_PodIP pod)")
  define addrs where "addrs = (if b then go_put key ip ?m else ?m)"
  have "addr4 ip \<in> Some ` A" if b using assms(2) v that by (simp add: knows_pod_def)
  with m have "\<forall>key ip. map_of addrs key = Some ip \<longrightarrow> addr4 ip \<in> Some ` A" by (simp add: addrs_def)
  then have "stores_within A T U ((plbdata lbc)\<lparr>Addr := addrs\<rparr>)" by (rule stores_within_Addr [OF p])
  with assms(1) v show ?thesis by (cases b) (simp_all add: lbc_within_def addrs_def)
qed

lemma addrAddFunc_within:
  assumes "lbc_within A T U lbc" and "knows_pod A pod"
  shows "lbc_within A T U (addrAddFunc pod lbc) \<and> lvsManager (addrAddFunc pod lbc) = lvsManager lbc"
proof -
  obtain b ip where v: "ValidateIPv4 (pod_PodIP pod) = (b, ip)" by (cases "ValidateIPv4 (pod_PodIP pod)")
  have p: "stores_within A T U (plbdata lbc)" using assms(1) by (simp add: lbc_within_def)
  have "addr4 ip \<in> Some ` A" if b using assms(2) v that by (simp add: knows_pod_def)
  with p have "stores_within A T U ((plbdata lbc)\<lparr>Addr := go_put k ip (Addr (plbdata lbc))\<rparr>)" if b for k
    using that by (intro stores_within_Addr) (simp_all add: stores_within_def)
  with assms(1) v show ?thesis by (cases b) (simp_all add: addrAddFunc_def Let_def lbc_within_def)
qed

definition kept :: "('w \<Rightarrow> bool) \<Rightarrow> ('w \<Rightarrow> ipvs_view) \<Rightarrow> bytes set \<Rightarrow> u16 set \<Rightarrow> u16 set
    \<Rightarrow> 'w LoadBalancerController \<Rightarrow> 'w \<Rightarrow> 'w st outcome \<Rightarrow> bool" where
  "kept good view A T U lbc w r \<longleftrightarrow> (\<forall>l w'. r = Returns (l, w') \<longrightarrow>
     lbc_within A T U l \<and> lvsManager l = lvsManager lbc \<and> good w' \<and> view w' = view w)"

context controller_env
begin

lemma listNginx_world:
  assumes "listNginx kube ord r lbc w = (err, lbc', w')" and "good w"
  shows "good w' \<and> view w' = view w \<and> lvsManager lbc' = lvsManager lbc"
proof -
  have "lvsManager lbc' = lvsManager lbc" using listNginx_frame [OF assms(1)] by (metis set_store_sel(8))
  moreover have "w' = snd (list_pods kube (nginxServer lbc) w)"
    using assms(1) by (auto simp: listNginx_def Let_def split: prod.splits sum.splits)
  ultimately show ?thesis using good_pods_list [OF assms(2)] by (metis prod.collapse)
qed

lemma listCm_world:
  assumes "listCm kube ord lbc w = (err, lbc', w')" and "good w"
  shows "good w' \<and> view w' = view w \<and> lvsManager lbc' = lvsManager lbc"
proof -
  obtain t u where "lbc' = lbc\<lparr>plbdata := (plbdata lbc)\<lparr>Tcp := t, Udp := u\<rparr>\<rparr>" using listCm_frame [OF assms(1)] by blast
  then have "lvsManager lbc' = lvsManager lbc" by simp
  moreover have "w' = snd (list_cms kube (nginxServer lbc) w)"
    using assms(1) by (auto simp: listCm_def Let_def split: prod.splits sum.splits)
  ultimately show ?thesis using good_cms_list [OF assms(2)] by (metis prod.collapse)
qed

lemma handle_kept:
  assumes "lbc_within A T U lbc" and "knows_event A T U ev" and "lists_within kube good A T U" and "good w" and "fair_orders ord"
  shows "kept good view A T U lbc w (handle kube ord ev lbc w)"
proof -
  let ?lbc = "lbc\<lparr>cond_L := True\<rparr>"
  have names: "Contains tcpService tcpService" "Contains udpService udpService" by code_simp+
  have locked: "lbc_within A T U ?lbc" using assms(1) by simp
  have tcp: "kept good view A T U lbc w (updateTcp_body kube ord cm ?lbc w)" if "valid_ports (data_keys cm) \<subseteq> T" for cm
  proof -
    obtain ex' nw' delta where L: "L4Compare ord (ExTcp ?lbc) (fold (put_valid protoTcp) (name_order ord 0 (data_keys cm)) (NwTcp ?lbc))
        (Tcp (clbdata ?lbc)) = (ex', nw', delta)" by (metis prod_cases3)
    let ?l = "?lbc\<lparr>ExTcp := ex', NwTcp := nw', clbdata := (clbdata ?lbc)\<lparr>Tcp := delta\<rparr>\<rparr>"
    obtain err l1 w1 where ln: "listNginx kube (after 1 ord) CLB ?l w = (err, l1, w1)" by (metis prod_cases3)
    have "lbc_within A T U l1"
      by (rule listNginx_within [OF ln updateTcp_prep [OF locked assms(5) that L] assms(3,4)])
    with listNginx_world [OF ln assms(4)] L ln show ?thesis
      unfolding updateTcp_body_def kept_def Let_def by (auto dest: send_within)
  qed
  have udp: "kept good view A T U lbc w (updateUdp_body kube ord cm ?lbc w)" if "valid_ports (data_keys cm) \<subseteq> U" for cm
  proof -
    obtain ex' nw' delta where L: "L4Compare ord (ExUdp ?lbc) (fold (put_valid protoUdp) (name_order ord 0 (data_keys cm)) (NwUdp ?lbc))
        (Udp (clbdata ?lbc)) = (ex', nw', delta)" by (metis prod_cases3)
    let ?l = "?lbc\<lparr>ExUdp := ex', NwUdp := nw', clbdata := (clbdata ?lbc)\<lparr>Udp := delta\<rparr>\<rparr>"
    obtain err l1 w1 where ln: "listNginx kube (after 1 ord) CLB ?l w = (err, l1, w1)" by (metis prod_cases3)
    have "lbc_within A T U l1"
      by (rule listNginx_within [OF ln updateUdp_prep [OF locked assms(5) that L] assms(3,4)])
    with listNginx_world [OF ln assms(4)] L ln show ?thesis
      unfolding updateUdp_body_def kept_def Let_def by (auto dest: send_within)
  qed
  have pod: "kept good view A T U lbc w (addrUpdate_body kube ord pod ?lbc w)" if "knows_pod A pod" for pod
  proof -
    define key where "key = (if pod_Deleted pod then ''deleting_'' else ''adding_'') @ pod_Name pod @ [CHR 0x0A]"
    define ks where "ks = name_order ord 0 (go_keys (Addr (plbdata ?lbc)))"
    let ?l = "?lbc\<lparr>plbdata := (plbdata ?lbc)\<lparr>Addr := (case ValidateIPv4 (pod_PodIP pod) of
        (True, addr) \<Rightarrow> go_put key addr (delete_keys ks (Addr (plbdata ?lbc)))
      | (False, _) \<Rightarrow> delete_keys ks (Addr (plbdata ?lbc)))\<rparr>\<rparr>"
    obtain err l1 w1 where lc: "listCm kube (after 1 ord) ?l w = (err, l1, w1)" by (metis prod_cases3)
    have "lbc_within A T U l1"
      by (rule listCm_within [OF lc addrUpdate_prep [OF locked that] assms(3,4)]) (simp add: assms(5))
    with listCm_world [OF lc assms(4)] lc show ?thesis
      unfolding addrUpdate_body_def kept_def Let_def key_def ks_def by (auto dest: send_within)
  qed
  have same: "kept good view A T U lbc w (Returns (lbc, w))" using assms(1,4) by (simp add: kept_def)
  have crit: "kept good view A T U lbc w (critical full body lbc w)"
    if "kept good view A T U lbc w (body ?lbc w)" for body
    using that by (simp add: critical_def kept_def)
  show ?thesis
  proof (cases ev)
    case (CmEvent old cm)
    then have "cm_Name cm = tcpService \<Longrightarrow> valid_ports (data_keys cm) \<subseteq> T" "cm_Name cm = udpService \<Longrightarrow> valid_ports (data_keys cm) \<subseteq> U"
      using assms(2) names by (auto simp: knows_cm_def)
    with CmEvent crit [of "updateTcp_body kube ord cm", OF tcp] crit [of "updateUdp_body kube ord cm", OF udp] same
    show ?thesis by (simp add: updatePorts_def)
  next
    case (PodEvent old new)
    with assms(2) crit [of "addrUpdate_body kube ord old", OF pod] same show ?thesis by (simp add: OnUpdate_pod_def addrUpdateFunc_def)
  qed
qed

lemma processFunc_kept:
  assumes "lbc_within A T U lbc" and "0 \<notin> T" "0 \<notin> U" and "lvsManager lbc = lm" and "good w" and "fair_orders ord"
    and "\<not> cond_L lbc"
  shows "processFunc hst ord lbc w \<noteq> Panics" and "processFunc hst ord lbc w = Returns (l, w') \<Longrightarrow>
    lbc_within A T U l \<and> lvsManager l = lm \<and> good w' \<and> rs_of (view w') \<subseteq> rs_of (view w) \<union> want v A T U"
proof -
  have d: "deref r (lbc\<lparr>cond_L := True\<rparr>) = deref r lbc" for r by (cases r) simp_all
  have run: "\<exists>w1. sync_addrs (Add hst lm) (Del hst lm) (DelRServer lm) ord (deref r lbc)
      (name_order ord 0 (go_keys (Addr (deref r lbc)))) w = Some w1 \<and> good w1 \<and>
      rs_of (view w1) \<subseteq> rs_of (view w) \<union> want v A T U" for r
  proof -
    note st = lbc_within_deref [OF assms(1), of r]
    show ?thesis
      using rs.sync_store_within [OF assms(5,6) store_sane_within [OF st assms(2,3)]] store_adds_within [OF st, of v]
      unfolding within_def by blast
  qed
  show "processFunc hst ord lbc w \<noteq> Panics"
  proof (cases "lbstore lbc")
    case Nil
    with assms(7) show ?thesis by (simp add: processFunc_def critical_def empty_def)
  next
    case (Cons r rs)
    obtain w1 where "sync_addrs (Add hst lm) (Del hst lm) (DelRServer lm) ord (deref r lbc)
        (name_order ord 0 (go_keys (Addr (deref r lbc)))) w = Some w1" using run by blast
    with Cons assms(4,7) show ?thesis
      by (simp add: processFunc_def critical_def empty_def processFunc_body_def d Let_def)
  qed
  assume p: "processFunc hst ord lbc w = Returns (l, w')"
  then obtain r rs where q: "lbstore lbc = r # rs"
    using assms(7) by (cases "lbstore lbc") (auto simp: processFunc_def critical_def empty_def)
  obtain w1 where w1: "sync_addrs (Add hst lm) (Del hst lm) (DelRServer lm) ord (deref r lbc)
      (name_order ord 0 (go_keys (Addr (deref r lbc)))) w = Some w1" "good w1"
    "rs_of (view w1) \<subseteq> rs_of (view w) \<union> want v A T U" using run by blast
  with p q assms(4,7) have "l = lbc\<lparr>lbstore := rs, cond_L := False\<rparr>" "w' = w1"
    by (simp_all add: processFunc_def critical_def empty_def processFunc_body_def d Let_def)
  with w1 assms(1,4) show "lbc_within A T U l \<and> lvsManager l = lm \<and> good w' \<and> rs_of (view w') \<subseteq> rs_of (view w) \<union> want v A T U"
    by simp
qed

end

section \<open>Runs in which everybody keeps to the names\<close>

inductive named_step :: "'w kube \<Rightarrow> 'w host \<Rightarrow> nat \<Rightarrow> ('w \<Rightarrow> bool) \<Rightarrow> ('w \<Rightarrow> ipvs_view)
    \<Rightarrow> bytes set \<Rightarrow> u16 set \<Rightarrow> u16 set \<Rightarrow> 'w sys \<Rightarrow> 'w sys \<Rightarrow> bool"
  for kube :: "'w kube" and hst :: "'w host" and n :: nat and good :: "'w \<Rightarrow> bool" and view :: "'w \<Rightarrow> ipvs_view"
    and A :: "bytes set" and T :: "u16 set" and U :: "u16 set" where
  inner: "internal kube hst n s s' \<Longrightarrow> named_step kube hst n good view A T U s s'"
| event: "t \<in> set informers \<Longrightarrow> pcs s t = Idle \<Longrightarrow> locks ev (ctl s) \<Longrightarrow> knows_event A T U ev \<Longrightarrow>
     named_step kube hst n good view A T U s (s\<lparr>pcs := (pcs s)(t := Trying (Some ev))\<rparr>)"
| added: "pcs s PodInf = Idle \<Longrightarrow> knows_pod A pod \<Longrightarrow>
     named_step kube hst n good view A T U s (s\<lparr>ctl := addrAddFunc pod (ctl s)\<rparr>)"
| elsewhere: "good w \<Longrightarrow> view w = view (world s) \<Longrightarrow> named_step kube hst n good view A T U s (s\<lparr>world := w\<rparr>)"

definition events_known :: "bytes set \<Rightarrow> u16 set \<Rightarrow> u16 set \<Rightarrow> places \<Rightarrow> bool" where
  "events_known A T U p \<longleftrightarrow> (\<forall>t \<in> set informers. \<forall>ev. p t = Trying (Some ev) \<or> p t = Parked (Some ev) \<longrightarrow> knows_event A T U ev)"

lemma events_known_upd:
  "events_known A T U p \<Longrightarrow> (\<And>ev. t \<in> set informers \<Longrightarrow> q = Trying (Some ev) \<or> q = Parked (Some ev) \<Longrightarrow> knows_event A T U ev) \<Longrightarrow>
     events_known A T U (p(t := q))"
  by (simp add: events_known_def)

lemma events_known_wake:
  assumes "events_known A T U p"
  shows "events_known A T U (\<lambda>u. if u = t then Trying None else wake (p u))"
proof -
  have "wake q = Trying (Some ev) \<Longrightarrow> q = Trying (Some ev) \<or> q = Parked (Some ev)" "wake q \<noteq> Parked (Some ev)" for q ev
    by (cases q; simp)+
  with assms show ?thesis unfolding events_known_def by (metis option.distinct(1) pc.inject(1) pc.distinct(9))
qed

text \<open>The state of the goroutines, as far as names go.\<close>

definition named :: "nat \<Rightarrow> 'w LvsManager \<Rightarrow> ('w \<Rightarrow> bool) \<Rightarrow> bytes set \<Rightarrow> u16 set \<Rightarrow> u16 set \<Rightarrow> 'w sys \<Rightarrow> bool" where
  "named n lm good A T U s \<longleftrightarrow> sys_ok n s \<and> \<not> crashed s \<and> good (world s) \<and> lvsManager (ctl s) = lm \<and>
     lbc_within A T U (ctl s) \<and> events_known A T U (pcs s)"

lemma started_events: "started n s \<Longrightarrow> events_known A T U (pcs s)"
  by (simp add: events_known_def started_def)

context controller_env
begin

lemma internal_named:
  assumes "internal kube hst n s s'" and "named n lm good A T U s" and "lists_within kube good A T U"
    and "0 \<notin> T" "0 \<notin> U" and "0 < n"
  shows "named n lm good A T U s' \<and> rs_of (view (world s')) \<subseteq> rs_of (view (world s)) \<union> want v A T U"
proof -
  have ok: "sys_ok n s" "\<not> crashed s" "good (world s)" "lvsManager (ctl s) = lm" "lbc_within A T U (ctl s)"
    "events_known A T U (pcs s)" using assms(2) by (simp_all add: named_def)
  have ok': "sys_ok n s'" by (rule internal_ok [OF assms(1) ok(1) assms(6)])
  have free: "\<not> cond_L (ctl s)" using sys_invD(2) [OF ok(1) [unfolded sys_ok_def]] .
  have known: "knows_event A T U ev" if "t \<in> set informers" "pcs s t = Trying (Some ev) \<or> pcs s t = Parked (Some ev)" for t ev
    using ok(6) that unfolding events_known_def by blast
  from assms(1) show ?thesis
  proof cases
    case (push t ev ord l w)
    have "kept good view A T U (ctl s) (world s) (handle kube ord ev (ctl s) (world s))"
      using handle_kept [OF ok(5) known [OF push(3)] assms(3) ok(3) push(6)] push(4) by blast
    with push ok ok' show ?thesis by (auto simp: named_def kept_def intro: events_known_upd)
  next
    case (park_informer t ev ord)
    with ok ok' known show ?thesis by (auto simp: named_def intro: events_known_upd)
  next
    case (signal t u j)
    have "events_known A T U ((pcs s)(t := Idle))" by (rule events_known_upd [OF ok(6)]) auto
    then have "events_known A T U ((pcs s)(t := Idle, u := Trying j))"
      by (rule events_known_upd) (use known signal(6) in auto)
    with signal ok ok' show ?thesis by (simp add: named_def)
  next
    case (signal_none t)
    with ok ok' show ?thesis by (auto simp: named_def intro: events_known_upd)
  next
    case (process t ord l w)
    with processFunc_kept(2) [OF ok(5) assms(4,5) ok(4,3) process(6) free] ok ok' show ?thesis
      by (auto simp: named_def intro: events_known_upd)
  next
    case (park_worker t ord)
    with ok ok' show ?thesis by (auto simp: named_def intro: events_known_upd)
  next
    case (broadcast t)
    with ok ok' events_known_wake [OF ok(6)] show ?thesis by (simp add: named_def)
  next
    case (panic_informer t ev ord)
    have "placed n (ctl s) (pcs s)" using sys_invD(4) [OF ok(1) [unfolded sys_ok_def]] .
    then have "locks ev (ctl s)" using placed_locks panic_informer(3,4) by blast
    with handle_cases [of "ctl s" ev kube ord "world s"] sys_invD(1-3) [OF ok(1) [unfolded sys_ok_def]] panic_informer(5)
    have False by (auto simp: pushed_def split: if_splits)
    then show ?thesis ..
  next
    case (panic_worker t ord)
    with processFunc_kept(1) [OF ok(5) assms(4,5) ok(4,3) panic_worker(6) free] show ?thesis by simp
  qed
qed

lemma named_step_named:
  assumes "named_step kube hst n good view A T U s s'" and "named n lm good A T U s" and "lists_within kube good A T U"
    and "0 \<notin> T" "0 \<notin> U" and "0 < n"
  shows "named n lm good A T U s' \<and> rs_of (view (world s')) \<subseteq> rs_of (view (world s)) \<union> want v A T U"
proof -
  have ok': "external s s' \<Longrightarrow> sys_ok n s'" using external_ok assms(2) by (auto simp: named_def)
  from assms(1) show ?thesis
  proof cases
    case inner
    then show ?thesis using internal_named assms(2-6) by blast
  next
    case (event t ev)
    then have "external s s'" by (auto intro: external.event)
    with event ok' assms(2) show ?thesis by (auto simp: named_def intro: events_known_upd)
  next
    case (added pod)
    then have "external s s'" by (auto intro: external.added)
    with added ok' assms(2) addrAddFunc_within [of A T U "ctl s" pod] show ?thesis by (auto simp: named_def)
  next
    case (elsewhere w)
    then have "external s s'" by (auto intro: external.elsewhere)
    with elsewhere ok' assms(2) show ?thesis by (auto simp: named_def)
  qed
qed

lemma named_run_bounded:
  assumes "(named_step kube hst n good view A T U)\<^sup>*\<^sup>* s s'" and "named n lm good A T U s" and "lists_within kube good A T U"
    and "0 \<notin> T" "0 \<notin> U" and "0 < n"
  shows "named n lm good A T U s' \<and> rs_of (view (world s')) \<subseteq> rs_of (view (world s)) \<union> want v A T U"
  using assms(1)
proof induction
  case base
  then show ?case using assms(2) by simp
next
  case (step s1 s2)
  with named_step_named [OF step(2) _ assms(3-6)] show ?case by blast
qed

end

section \<open>Nothing foreign\<close>

text \<open>
  For any number of workers and any interleaving of them with the handlers: if every pod
  delivered or listed only validates to addresses of \<open>A\<close>, every tcp configmap only to ports of
  \<open>T\<close> and every udp configmap only to ports of \<open>U\<close>, none of these ports is 0, and nobody else
  changes the kernel's table, then no goroutine ever panics, and every real server in the table
  was there at the start or pairs an address of \<open>A\<close> with a service on one of the ports.
\<close>

theorem nothing_foreign:
  assumes "controller_env h view invar svc_ok dst_ok lm v kube" and "0 < n" and "0 \<notin> T" and "0 \<notin> U"
    and "lists_within kube (good_world v view invar) A T U"
    and "started n s0" and "lvsManager (ctl s0) = lm" and "good_world v view invar (world s0)" and "lbc_within A T U (ctl s0)"
    and "(named_step kube hst n (good_world v view invar) view A T U)\<^sup>*\<^sup>* s0 s"
  shows "\<not> crashed s \<and> rs_of (view (world s)) \<subseteq> rs_of (view (world s0)) \<union> want v A T U"
proof -
  have "\<not> crashed s0" using assms(6) by (simp add: started_def)
  with assms(2,6-9) have "named n lm (good_world v view invar) A T U s0"
    by (simp add: named_def started_ok started_events)
  from controller_env.named_run_bounded [OF assms(1,10) this assms(5,3,4,2)]
  show ?thesis by (simp add: named_def)
qed

text \<open>An API server whose pods and configmaps stay as they are.\<close>

definition fixed_kube :: "Pod list \<Rightarrow> ConfigMap list \<Rightarrow> 'w kube" where
  "fixed_kube pods cms = \<lparr>list_pods = (\<lambda>ns w. (Inr pods, w)), list_cms = (\<lambda>ns w. (Inr cms, w))\<rparr>"

abbreviation steady_kube :: "cworld kube" where
  "steady_kube \<equiv> fixed_kube ref_pods ref_cms"

lemma steady_env: "controller_env (ref_handle rr) kern_view kern_ok (kern_svc_ok rr) kern_dst_ok ref_manager ref_vip steady_kube"
  unfolding ref_manager_def
  by (rule controller_env.intro [OF ref.env.lvs_ready_axioms controller_env_axioms.intro]) (simp_all add: fixed_kube_def)

lemma quad_known: "[a, b, c, d] \<in> A \<Longrightarrow> knows_pod A (quad_pod name a b c d del)"
  using ValidateIPv4_addr4 [of "dotted_quad a b c d"] by (auto simp: knows_pod_def ParseIP_dotted_quad)

lemma steady_lists: "lists_within steady_kube good ref_addrs {80, 443} {53}"
proof -
  have v: "valid_ports (map dec [80, 443]) = {80, 443}" "valid_ports (map dec [53]) = {53}"
    by (subst valid_ports_dec; simp)+
  have "\<forall>pod \<in> set ref_pods. knows_pod ref_addrs pod" by (auto simp: ref_pods_def intro!: quad_known)
  moreover have "\<forall>cm \<in> set ref_cms. knows_cm {80, 443} {53} cm"
    using v by (simp add: ref_cms_def knows_cm_def del: valid_ports_simps list.map)
  ultimately show ?thesis unfolding lists_within_def fixed_kube_def by auto
qed

text \<open>A pod event and its handler; what follows is bounded too.\<close>

abbreviation ref_start :: "cworld sys" where
  "ref_start \<equiv> running (fresh ref_cfg ref_manager) ref_world"

lemma ref_start_facts:
  "started 5 ref_start" "lvsManager (ctl ref_start) = ref_manager" "good_world ref_vip kern_view kern_ok (world ref_start)"
  "lbc_within ref_addrs {80, 443} {53} (ctl ref_start)" "rs_of (kern_view (world ref_start)) = {}"
proof -
  have "plbdata (fresh ref_cfg ref_manager) = NewLBStore" by (simp add: fresh_def)
  then show "lbc_within ref_addrs {80, 443} {53} (ctl ref_start)"
    by (simp add: running_def lbc_within_def stores_within_def NewLBStore_def)
qed (auto simp: running_def started_def fresh_ok set_informers set_workers good_world_def ref_world_ok rs_of_def)

abbreviation steady_step :: "cworld sys \<Rightarrow> cworld sys \<Rightarrow> bool" where
  "steady_step \<equiv> named_step steady_kube (ref_host rr) 5 (good_world ref_vip kern_view kern_ok) kern_view ref_addrs {80, 443} {53}"

lemma steady_push: "\<exists>s. steady_step\<^sup>*\<^sup>* ref_start s \<and> length (lbstore (ctl s)) = 1"
proof -
  let ?pod = "quad_pod ''a'' 10 0 0 11 False" and ?l = "fresh ref_cfg ref_manager"
  let ?ev = "PodEvent ?pod ?pod"
  let ?s1 = "ref_start\<lparr>pcs := (pcs ref_start)(PodInf := Trying (Some ?ev))\<rparr>"
  have lk: "locks ?ev ?l" by (simp add: quad_config_def)
  then have "steady_step ref_start ?s1"
    by (intro named_step.event) (auto simp: running_def set_informers intro: quad_known)
  moreover obtain l w where h: "handle steady_kube id_orders ?ev ?l ref_world = Returns (l, w)" "length (lbstore l) = 1"
    using handle_cases [of ?l ?ev steady_kube id_orders ref_world] lk by (auto simp: pushed_def fresh_ok)
  have "steady_step ?s1 (?s1\<lparr>ctl := l, world := w, pcs := (pcs ?s1)(PodInf := Signalling)\<rparr>)"
    using h(1) by (intro named_step.inner internal.push [where ord = id_orders and ev = ?ev])
      (auto simp: running_def set_informers fair_id_orders)
  ultimately have "steady_step\<^sup>*\<^sup>* ref_start (?s1\<lparr>ctl := l, world := w, pcs := (pcs ?s1)(PodInf := Signalling)\<rparr>)"
    by (meson converse_rtranclp_into_rtranclp r_into_rtranclp)
  with h(2) show ?thesis
    by (intro exI [of _ "?s1\<lparr>ctl := l, world := w, pcs := (pcs ?s1)(PodInf := Signalling)\<rparr>"]) simp
qed

theorem nothing_foreign_witness:
  "\<exists>s. steady_step\<^sup>*\<^sup>* ref_start s \<and> length (lbstore (ctl s)) = 1 \<and>
     \<not> crashed s \<and> rs_of (kern_view (world s)) \<subseteq> want ref_vip ref_addrs {80, 443} {53}"
proof -
  obtain s where s: "steady_step\<^sup>*\<^sup>* ref_start s" "length (lbstore (ctl s)) = 1" using steady_push by blast
  have "\<not> crashed s \<and> rs_of (kern_view (world s)) \<subseteq> rs_of (kern_view (world ref_start)) \<union> want ref_vip ref_addrs {80, 443} {53}"
    by (rule nothing_foreign [OF steady_env _ _ _ steady_lists ref_start_facts(1-4) s(1)]) simp_all
  with s ref_start_facts(5) show ?thesis by auto
qed

end
