(* ===== verification/Startup_Run.thy ===== *)
theory Startup_Run
  imports Served_Run Bounded_Run
begin

text \<open>
  From the start of \<open>Run\<close> to the first table. The queue of the controller holds the item of
  \<open>Initial\<close>, and the API server gives each informer its first list. The process loops deliver
  them as \<open>OnAdd\<close> calls, the wait for the caches comes to its end, the workers start and apply the
  item: on every interleaving the run ends, without a panic, in the situation \<open>Served_Run\<close>
  starts from.
\<close>

section \<open>An informer and its first list\<close>

text \<open>What is left of the list is queued, one \<open>Sync\<close> of an unknown object for each key.\<close>

definition listing :: "('v object \<Rightarrow> bool) \<Rightarrow> 'v informer_state \<Rightarrow> bool" where
  "listing Q s \<longleftrightarrow> informer_inv s \<and> ff_populated (is_fifo s) \<and>
     ff_initialPopulationCount (is_fifo s) = length (ff_queue (is_fifo s)) \<and>
     (\<forall>k \<in> set (ff_queue (is_fifo s)). known s k = None \<and> (\<exists>ob. Q ob \<and> deltas_of (is_fifo s) k = [Sync_of ob]))"

lemma syncs_distinct:
  assumes "fifo_ok f" and "distinct (map MetaNamespaceKeyFunc objs)"
    and "\<forall>ob \<in> set objs. MetaNamespaceKeyFunc ob \<notin> set (ff_queue f)"
  shows "ff_queue (queue_syncs objs f) = ff_queue f @ map MetaNamespaceKeyFunc objs \<and>
    (\<forall>ob \<in> set objs. deltas_of (queue_syncs objs f) (MetaNamespaceKeyFunc ob) = [Sync_of ob]) \<and>
    (\<forall>k. k \<notin> MetaNamespaceKeyFunc ` set objs \<longrightarrow> deltas_of (queue_syncs objs f) k = deltas_of f k)"
  using assms
proof (induction objs arbitrary: f)
  case (Cons x xs)
  let ?k = "MetaNamespaceKeyFunc x" and ?f = "queueActionLocked (Sync_of x) f"
  have e: "deltas_of f ?k = []" using fifo_okD(4) [OF Cons.prems(1)] Cons.prems(3) by simp
  then have i: "\<not> ignored (Sync_of x) f" by (simp add: ignored_def willObjectBeDeletedLocked_def)
  have q: "ff_queue ?f = ff_queue f @ [?k]" using action_queue [OF Cons.prems(1) i] Cons.prems(3) by simp
  have d: "deltas_of ?f = (deltas_of f)(?k := [Sync_of x])" using action_deltas [OF i] e by (simp add: dedup_single)
  have "\<forall>ob \<in> set xs. MetaNamespaceKeyFunc ob \<notin> set (ff_queue ?f)" using Cons.prems(2,3) by (auto simp: q image_iff)
  with Cons.IH [OF fifo_ok_action [OF Cons.prems(1)]] Cons.prems(2) show ?case by (simp add: q d)
qed simp

lemma first_list_queued:
  assumes "fair_orders ord"
  shows "is_fifo (take_turn (fifo_store ord) processLoop_turn (Listed objs) NewInformer) =
    (queue_syncs objs NewDeltaFIFO)\<lparr>ff_populated := True, ff_initialPopulationCount := length objs\<rparr>"
proof -
  have "set (name_order ord 0 []) = {}" using assms by simp
  then have "name_order ord 0 [] = []" by simp
  moreover have "\<not> ff_populated (queue_syncs objs NewDeltaFIFO)" by (simp add: syncs_populated) (simp add: NewDeltaFIFO_def)
  ultimately show ?thesis
    by (simp add: syncWith_def fifo_store_def fifo_Replace_def NewInformer_def NewStore_def NewThreadSafeStore_def Let_def)
qed

lemma listing_start:
  assumes "fair_orders ord" and "distinct (map MetaNamespaceKeyFunc objs)" and "\<forall>ob \<in> set objs. Q ob"
    and s: "s = take_turn (fifo_store ord) processLoop_turn (Listed objs) NewInformer"
  shows "listing Q s \<and> (\<forall>ob \<in> set objs. informer_view s (MetaNamespaceKeyFunc ob) = Some ob)"
proof -
  have n: "ff_queue (NewDeltaFIFO :: 'a fifo) = []" by (simp add: NewDeltaFIFO_def)
  have f: "is_fifo s = (queue_syncs objs NewDeltaFIFO)\<lparr>ff_populated := True, ff_initialPopulationCount := length objs\<rparr>"
    unfolding s by (rule first_list_queued [OF assms(1)])
  have d: "ff_queue (is_fifo s) = map MetaNamespaceKeyFunc objs"
    "\<forall>ob \<in> set objs. deltas_of (is_fifo s) (MetaNamespaceKeyFunc ob) = [Sync_of ob]"
    using syncs_distinct [OF fifo_ok_new assms(2)] by (simp_all add: f n)
  have "is_store s = NewStore" by (simp add: s syncWith_def fifo_store_def NewInformer_def)
  then have k: "known s = Map.empty" by (simp add: NewStore_def NewThreadSafeStore_def)
  have "informer_inv s" unfolding s by (rule fifo_queue.turn_ok [OF assms(1) informer_inv_new(1)])
  moreover have "ff_initialPopulationCount (is_fifo s) = length objs" "ff_populated (is_fifo s)" by (simp_all add: f)
  ultimately have "listing Q s" using d assms(3) unfolding listing_def by (auto simp: k)
  moreover have "\<forall>ob \<in> set objs. informer_view s (MetaNamespaceKeyFunc ob) = Some ob"
    using d(2) by (simp add: informer_view_def pending_def)
  ultimately show ?thesis by blast
qed

lemma listing_pop:
  assumes l: "listing Q s" and q: "ff_queue (is_fifo s) \<noteq> []"
  shows "\<exists>ob. Q ob \<and> popped_calls s = [OnAdd ob] \<and> listing Q (processLoop_turn s)"
proof -
  obtain k queue where kq: "ff_queue (is_fifo s) = k # queue" using q by (cases "ff_queue (is_fifo s)") auto
  note ls = l [unfolded listing_def]
  have "k \<in> set (ff_queue (is_fifo s))" by (simp add: kq)
  then obtain ob where ob: "Q ob" "deltas_of (is_fifo s) k = [Sync_of ob]" "known s k = None" using ls by blast
  have ok: "fifo_ok (is_fifo s)" using ls by (simp add: informer_inv_def fifo_inv_def)
  have key: "MetaNamespaceKeyFunc ob = k" using fifo_okD(5) [OF ok, of "Sync_of ob" k] ob(2) by simp
  have p: "Process (deltas_of (is_fifo s) k) (is_store s) = ([OnAdd ob], cache_Add ob (is_store s))"
    using ob(3) by (simp add: ob(2) Process_put_def cache_Get_def cache_GetByKey_def key)
  note eq = processLoop_head [OF ok kq p]
  have "k \<notin> set queue" using fifo_okD(2) [OF ok] by (simp add: kq)
  then have "\<forall>x \<in> set queue. x \<noteq> k" by blast
  moreover have "informer_inv (processLoop_turn s)" using ls pop_inv by blast
  ultimately have "listing Q (processLoop_turn s)"
    using ls by (simp add: listing_def eq deltas_popped items_cache key kq)
  with ob(1) show ?thesis by (auto simp: popped_calls_def eq)
qed

lemma listing_synced: "listing Q s \<Longrightarrow> ff_queue (is_fifo s) = [] \<Longrightarrow> HasSynced (is_fifo s)"
  by (simp add: listing_def HasSynced_def)

section \<open>The plant\<close>

definition starting :: "nat \<Rightarrow> bytes set \<Rightarrow> 'w plant \<Rightarrow> bool" where
  "starting n A s \<longleftrightarrow> plant_ok n s \<and> listing (\<lambda>ob. knows_pod A (pod_of ob)) (pod_inf s) \<and> listing (\<lambda>_. True) (cm_inf s) \<and>
     (\<forall>c \<in> set (pod_calls s). \<exists>ob. c = OnAdd ob \<and> knows_pod A (pod_of ob)) \<and> (\<forall>c \<in> set (cm_calls s). \<exists>ob. c = OnAdd ob)"

lemma starting_step:
  assumes "own_step kube hst n s s'" and st: "starting n A s" and n: "0 < n"
  shows "starting n A s' \<and> (gr s' = gr s \<or> boot_step kube hst n A (gr s) (gr s'))"
proof -
  have ok: "plant_ok n s" using st by (simp add: starting_def)
  have ok': "plant_ok n s'" by (rule own_ok [OF assms(1) ok n])
  note f = st [unfolded starting_def]
  from assms(1) show ?thesis
  proof cases
    case pod_pop
    obtain ob where "knows_pod A (pod_of ob)" "popped_calls (pod_inf s) = [OnAdd ob]"
      "listing (\<lambda>ob. knows_pod A (pod_of ob)) (processLoop_turn (pod_inf s))"
      using listing_pop [of "\<lambda>ob. knows_pod A (pod_of ob)" "pod_inf s"] f pod_pop(4) by blast
    with f pod_pop(1) ok' show ?thesis by (simp add: starting_def)
  next
    case (pod_call c cs ord l w)
    then obtain ob where ob: "c = OnAdd ob" "knows_pod A (pod_of ob)" using f by auto
    then have "gr s' = (gr s)\<lparr>ctl := addrAddFunc (pod_of ob) (ctl (gr s))\<rparr>"
      using pod_call(1,6) by (simp add: notify_pod)
    then have "boot_step kube hst n A (gr s) (gr s')" using boot_step.told [OF ob(2)] by simp
    with f pod_call(1,3) ok' show ?thesis by (simp add: starting_def)
  next
    case (pod_lock c cs ev)
    then show ?thesis using f by auto
  next
    case cm_pop
    obtain ob where "popped_calls (cm_inf s) = [OnAdd ob]" "listing (\<lambda>_. True) (processLoop_turn (cm_inf s))"
      using listing_pop [of "\<lambda>_. True" "cm_inf s"] f cm_pop(4) by blast
    with f cm_pop(1) ok' show ?thesis by (simp add: starting_def)
  next
    case (cm_call d ds ord l w)
    then have "gr s' = gr s" using idle_call_external(2) [OF cm_call(5,6)] by simp
    with f cm_call(1,3) ok' show ?thesis by (simp add: starting_def)
  next
    case (cm_lock d ds ev)
    then show ?thesis using f by auto
  next
    case (inner g)
    then have "boot_step kube hst n A (gr s) (gr s')" using staffed_step [OF inner(2) ok] by (simp add: boot_step.inner)
    with f inner(1) ok' show ?thesis by (simp add: starting_def)
  qed (use f ok' in \<open>simp_all add: starting_def\<close>)
qed

lemma starting_run:
  assumes "(own_step kube hst n)\<^sup>*\<^sup>* s s'" and "starting n A s" and "0 < n"
  shows "starting n A s' \<and> (boot_step kube hst n A)\<^sup>*\<^sup>* (gr s) (gr s')"
  using assms(1)
proof induction
  case (step y z)
  then have y: "starting n A y" "(boot_step kube hst n A)\<^sup>*\<^sup>* (gr s) (gr y)" by simp_all
  from starting_step [OF step(2) y(1) assms(3)] y(2) show ?case by (metis rtranclp.rtrancl_into_rtrancl)
qed (use assms(2) in simp)

text \<open>While the informers are idle the start can only end with the workers running.\<close>

lemma starting_stuck:
  assumes st: "starting n A s" and nc: "\<not> crashed (gr s)" and idle: "\<forall>t \<in> set informers. pcs (gr s) t = Idle"
    and stuck: "\<nexists>s'. own_step kube hst n s s'"
  shows "gate s = Opened"
proof (rule ccontr)
  assume "gate s \<noteq> Opened"
  have i: "pcs (gr s) PodInf = Idle" "pcs (gr s) CmInf = Idle" using idle by (simp_all add: set_informers)
  have e: "pod_calls s = []" "cm_calls s = []" "ff_queue (is_fifo (pod_inf s)) = []" "ff_queue (is_fifo (cm_inf s)) = []"
    using stuck_informers [OF stuck nc i] by simp_all
  then have h: "HasSynced (is_fifo (pod_inf s))" "HasSynced (is_fifo (cm_inf s))"
    using st listing_synced by (auto simp: starting_def)
  show False
  proof (cases "gate s")
    case Polling
    from own_step.ask_pods [OF nc Polling _ h(1)] e i stuck show ?thesis by (auto simp: free_pods_def)
  next
    case Half
    from own_step.ask_cms [OF nc Half _ h(2)] e i stuck show ?thesis by (auto simp: free_cms_def)
  next
    case Opened
    with \<open>gate s \<noteq> Opened\<close> show ?thesis ..
  qed
qed

section \<open>The theorem\<close>

text \<open>
  C2. The start comes to its end. \<open>Initial\<close> has queued what it listed, and the informers get their
  first lists, in which the pods only validate to addresses \<open>Initial\<close> has seen. Whatever the
  informers, the wait for the caches and the workers do, they take at most \<open>work_left\<close> steps and
  nothing panics; where no step is left the workers run, everything is delivered, the informers
  know the listed objects, and the kernel's table is the wanted one.
\<close>

theorem startup_serves:
  assumes "boot_env h view invar svc_ok dst_ok hst cfg v kube" and "0 < n"
    and "invar w" and "fair_orders ord" and "NewLoadBalancerController hst cfg w = Some (lbc0, w0)"
    and "list_cms kube (nginxServer lbc0) w0 = (Inr cms, w1)" "good_cms cms"
      "0 \<notin> cm_ports tcpService cms" "0 \<notin> cm_ports udpService cms"
    and "list_pods kube (nginxServer lbc0) w1 = (Inr pods, w2)" "good_pods pods"
    and "\<forall>pod \<in> set pods. one_line (pod_Name pod)"
    and "Initial kube ord lbc0 w0 = Returns (None, lbc1, w2)"
    and "fair_orders ord1" "distinct (map MetaNamespaceKeyFunc pobs)" "\<forall>ob \<in> set pobs. knows_pod (pod_addrs pods) (pod_of ob)"
    and "fair_orders ord2" "distinct (map MetaNamespaceKeyFunc cobs)"
    and s: "s = \<lparr>pod_inf = take_turn (fifo_store ord1) processLoop_turn (Listed pobs) NewInformer, pod_calls = [],
      cm_inf = take_turn (fifo_store ord2) processLoop_turn (Listed cobs) NewInformer, cm_calls = [],
      gate = Polling, gr = running lbc1 w2\<rparr>"
  shows "\<forall>k s'. (own_step kube hst n ^^ k) s s' \<longrightarrow> k \<le> work_left n s \<and> \<not> crashed (gr s') \<and>
    ((\<nexists>s''. own_step kube hst n s' s'') \<longrightarrow> serving n s' \<and>
      spaced_run invar elsewhere kube hst cfg n (gr s') (pod_addrs pods) (cm_ports tcpService cms) (cm_ports udpService cms) \<and>
      (\<forall>ob \<in> set pobs. known (pod_inf s') (MetaNamespaceKeyFunc ob) = Some ob) \<and>
      (\<forall>ob \<in> set cobs. known (cm_inf s') (MetaNamespaceKeyFunc ob) = Some ob) \<and>
      rs_of (view (world (gr s'))) = want v (pod_addrs pods) (cm_ports tcpService cms) (cm_ports udpService cms))"
proof (intro allI impI)
  fix k s' assume k: "(own_step kube hst n ^^ k) s s'"
  let ?A = "pod_addrs pods" and ?T = "cm_ports tcpService cms" and ?U = "cm_ports udpService cms"
  note boot = boot_env.boot_starts [OF assms(1,3-13,2)]
  note P = listing_start [OF assms(14,15) _ refl, of "\<lambda>ob. knows_pod ?A (pod_of ob)"]
  note C = listing_start [OF assms(17,18) _ refl, of "\<lambda>_. True"]
  have gr: "gr s = running lbc1 w2" by (simp add: s)
  have st: "starting n ?A s"
    using P assms(16) C boot started_ok [of n "running lbc1 w2"] assms(2)
    by (simp add: starting_def s plant_ok_def listing_def started_def del: take_turn.simps)
  then have ok: "plant_ok n s" by (simp add: starting_def)
  have r: "starting n ?A s'" "(boot_step kube hst n ?A)\<^sup>*\<^sup>* (running lbc1 w2) (gr s')"
    using starting_run [OF relpowp_imp_rtranclp [OF k] st assms(2)] by (simp_all add: gr)
  note own = own_run [OF k ok assms(2)]
  have b: "boot_env.booting h view invar cfg v n ?A ?T ?U (gr s')"
    using boot_env.booting_run [OF assms(1) r(2) _ assms(2)] boot by blast
  then have nc: "\<not> crashed (gr s')" and idle: "\<forall>t \<in> set informers. pcs (gr s') t = Idle"
    by (simp_all add: boot_env.booting_def [OF assms(1)])
  moreover have "serving n s' \<and> spaced_run invar elsewhere kube hst cfg n (gr s') ?A ?T ?U \<and>
      (\<forall>ob \<in> set pobs. known (pod_inf s') (MetaNamespaceKeyFunc ob) = Some ob) \<and>
      (\<forall>ob \<in> set cobs. known (cm_inf s') (MetaNamespaceKeyFunc ob) = Some ob) \<and>
      rs_of (view (world (gr s'))) = want v ?A ?T ?U" if stuck: "\<nexists>s''. own_step kube hst n s' s''"
  proof -
    have g: "gate s' = Opened" by (rule starting_stuck [OF r(1) nc idle stuck])
    have ok': "plant_ok n s'" using own by simp
    have d: "delivered n s'" by (rule stuck_delivered [OF ok' g stuck nc])
    then have e: "at_ease (gr s')" using nc by (simp add: delivered_def drained_at_ease [of n])
    then have "spaced_run invar elsewhere kube hst cfg n (gr s') ?A ?T ?U"
      by (rule spaced_run.start [where start_ok = invar, OF assms(3-13) r(2)])
    moreover have "rs_of (view (world (gr s'))) = want v ?A ?T ?U"
      using boot_env.booting_done [OF assms(1) b e] boot_env.spaced_ok_def [OF assms(1)] boot_env.settled_def [OF assms(1)]
      by (simp add: at_rest_def)
    moreover have "serving n s'" using ok' g d by (simp add: serving_def)
    moreover have "known (pod_inf s') = informer_view (pod_inf s)" "known (cm_inf s') = informer_view (cm_inf s)"
      using own d view_when_empty [of "pod_inf s'"] view_when_empty [of "cm_inf s'"] ok' by (simp_all add: delivered_def plant_ok_def)
    ultimately show ?thesis using P assms(16) C by (simp add: s del: take_turn.simps)
  qed
  ultimately show "k \<le> work_left n s \<and> \<not> crashed (gr s') \<and>
    ((\<nexists>s''. own_step kube hst n s' s'') \<longrightarrow> serving n s' \<and> spaced_run invar elsewhere kube hst cfg n (gr s') ?A ?T ?U \<and>
      (\<forall>ob \<in> set pobs. known (pod_inf s') (MetaNamespaceKeyFunc ob) = Some ob) \<and>
      (\<forall>ob \<in> set cobs. known (cm_inf s') (MetaNamespaceKeyFunc ob) = Some ob) \<and>
      rs_of (view (world (gr s'))) = want v ?A ?T ?U)"
    using own by simp
qed

text \<open>The pods and the tcp configmap of the reference world, as the informers are told of them.\<close>

definition pod_entry :: "string \<Rightarrow> u8 \<Rightarrow> pod_body object" where
  "pod_entry name d = \<lparr>ob_Namespace = nginxDefault, ob_Name = ''nginx-ingress-controller-'' @ name, ob_Labels = [],
     ob_Body = \<lparr>pb_PodIP = dotted_quad 10 0 0 d, pb_Deleted = False\<rparr>\<rparr>"

lemma pod_of_entry: "pod_of (pod_entry name d) = quad_pod name 10 0 0 d False"
  by (simp add: pod_entry_def pod_of_def quad_pod_def)

lemma entries_told:
  "distinct (map MetaNamespaceKeyFunc [pod_entry ''a'' 11, pod_entry ''b'' 12])"
  "\<forall>ob \<in> set [pod_entry ''a'' 11, pod_entry ''b'' 12]. knows_pod (pod_addrs ref_pods) (pod_of ob)"
  "distinct (map MetaNamespaceKeyFunc [tcp_object [80, 443]])"
proof -
  show "distinct (map MetaNamespaceKeyFunc [pod_entry ''a'' 11, pod_entry ''b'' 12])" by code_simp
  show "\<forall>ob \<in> set [pod_entry ''a'' 11, pod_entry ''b'' 12]. knows_pod (pod_addrs ref_pods) (pod_of ob)"
    using quad_known [of 10 0 0 11 ref_addrs "''a''" False] quad_known [of 10 0 0 12 ref_addrs "''b''" False]
    by (simp only: ref_pods_ok) (simp add: pod_of_entry)
  show "distinct (map MetaNamespaceKeyFunc [tcp_object [80, 443]])" by simp
qed

theorem startup_serves_witness:
  "\<exists>s'. serving 5 s' \<and> ref_spaced (gr s') ref_addrs {80, 443} {53} \<and>
    known (pod_inf s') (MetaNamespaceKeyFunc (pod_entry ''a'' 11)) = Some (pod_entry ''a'' 11) \<and>
    known (cm_inf s') (MetaNamespaceKeyFunc (tcp_object [80, 443])) = Some (tcp_object [80, 443]) \<and>
    rs_of (kern_view (world (gr s'))) = want ref_vip ref_addrs {80, 443} {53}"
proof -
  let ?l = "fresh ref_cfg ref_manager"
  have cms: "list_cms ref_kube (nginxServer ?l) ref_world0 = (Inr ref_cms, ref_world0)"
    by (simp add: ref_lists ref_world0_def ref_world_def)
  have pods: "list_pods ref_kube (nginxServer ?l) ref_world0 = (Inr ref_pods, ref_world0)"
    by (simp only: ref_lists fresh_server) (simp add: ref_world0_def ref_world_def ref_pods_server)
  have nz: "0 \<notin> cm_ports tcpService ref_cms" "0 \<notin> cm_ports udpService ref_cms"
    by (simp_all only: ref_cms_ports) simp_all
  have names: "\<forall>pod \<in> set ref_pods. one_line (pod_Name pod)" by (simp add: ref_pods_def one_line_def)
  obtain lbc1 where b: "Initial ref_kube id_orders ?l ref_world0 = Returns (None, lbc1, ref_world0)"
    using ref.boot_settles [OF ref_world_ok(1) fair_id_orders fair_id_orders ref_New cms ref_cms_ports(3) nz pods ref_pods_ok(1)]
    by blast
  define s where "s = \<lparr>pod_inf = take_turn (fifo_store id_orders) processLoop_turn
        (Listed [pod_entry ''a'' 11, pod_entry ''b'' 12]) NewInformer, pod_calls = [],
      cm_inf = take_turn (fifo_store id_orders) processLoop_turn (Listed [tcp_object [80, 443]]) NewInformer, cm_calls = [],
      gate = Polling, gr = running lbc1 ref_world0\<rparr>"
  note e = startup_serves [OF ref.boot_env_axioms _ ref_world_ok(1) fair_id_orders ref_New cms ref_cms_ports(3) nz pods
      ref_pods_ok(1) names b fair_id_orders entries_told(1,2) fair_id_orders entries_told(3) s_def,
      of 5 cluster_change, unfolded ref_cms_ports ref_pods_ok]
  have "started 5 (running lbc1 ref_world0)"
    using boot_env.boot_starts [OF ref.boot_env_axioms ref_world_ok(1) fair_id_orders ref_New cms ref_cms_ports(3) nz
      pods ref_pods_ok(1) names b, of 5] by simp
  moreover have "informer_inv (pod_inf s)" "informer_inv (cm_inf s)"
    unfolding s_def plant.simps by (rule fifo_queue.turn_ok [OF fair_id_orders informer_inv_new(1)])+
  ultimately have "plant_ok 5 s"
    using started_ok [of 5 "running lbc1 ref_world0"] by (simp add: plant_ok_def s_def started_def del: take_turn.simps)
  then obtain j s' where s': "(own_step ref_kube (ref_host rr) 5 ^^ j) s s'" "\<nexists>s''. own_step ref_kube (ref_host rr) 5 s' s''"
    using own_ends [of 5 s ref_kube "ref_host rr"] by auto
  show ?thesis by (rule exI [of _ s']) (use e s' in \<open>simp\<close>)
qed

end
