(* ===== verification/Findings.thy ===== *)
theory Findings
  imports Quiet_Run App
begin

text \<open>
  What the code does where it departs from what it means to do: the port left over in
  \<open>NwTcp\<close>, the store shared by two queued items, the swapped arguments of the pod handler, the
  port numbers and addresses that pass the validators and then panic, the text of the marking
  rule.
\<close>

section \<open>Ports that are never removed\<close>

text \<open>
  A configmap event that leaves the set of ports as it is leaves its ports in \<open>NwTcp\<close>, as
  \<open>L4Compare\<close> returns at once; the next event adds its ports to them.
\<close>

lemma updatePorts_tcp:
  assumes "\<not> cond_L lbc" and "ready_to_send lbc"
    and "\<not> data_eq (cm_Data old) (cm_Data cm)" and "cm_Name cm = tcpService"
  shows "updatePorts kube ord old cm lbc w = updateTcp_body kube ord cm (lbc\<lparr>cond_L := True\<rparr>) w"
  using assms by (simp add: updatePorts_def critical_def full_def ready_to_send_def)

lemma stale_ports:
  assumes ok: "wf_lbc lbc" "\<not> cond_L lbc" "\<not> lb_closed lbc" "lbstore lbc = []"
    and fair: "fair_orders ord1" "fair_orders ord2"
    and t: "tracked lbc T U" and l: "leftover lbc {} M"
    and ev1: "\<not> data_eq (cm_Data old1) (cm_Data cm1)" "cm_Name cm1 = tcpService" "valid_ports (data_keys cm1) = T"
    and ev2: "\<not> data_eq (cm_Data old2) (cm_Data cm2)" "cm_Name cm2 = tcpService"
    and pods1: "list_pods kube (nginxServer lbc) w = (Inr pods1, w1)" "good_pods pods1"
    and pods2: "list_pods kube (nginxServer lbc) w1 = (Inr pods2, w2)" "good_pods pods2"
  shows "\<exists>lbc1 lbc2. updatePorts kube ord1 old1 cm1 lbc w = Returns (lbc1, w1) \<and>
    updatePorts kube ord2 old2 cm2 lbc1 w1 = Returns (lbc2, w2) \<and>
    map_of (ExTcp lbc2) = port_set protoTcp (T \<union> valid_ports (data_keys cm2))"
proof -
  let ?l = "lbc\<lparr>cond_L := True\<rparr>"
  have r: "ready_to_send lbc" "ready_to_send ?l" "tracked ?l T U" "leftover ?l {} M"
    using ok t l by (simp_all add: ready_to_send_def tracked_def leftover_def)
  have p1: "list_pods kube (nginxServer ?l) w = (Inr pods1, w1)" using pods1 by simp
  obtain lbc1 where u1: "updateTcp_body kube ord1 cm1 ?l w = Returns (lbc1, w1)" "tracked lbc1 T U"
    "leftover lbc1 T M" "lbstore lbc1 = [CLB]" "nginxServer lbc1 = nginxServer lbc" "\<not> cond_L lbc1" "\<not> lb_closed lbc1"
    using updateTcp_tracks [OF r(2) fair(1) r(3,4) p1 pods1(2), of cm1] ev1(3) ok(4) by auto
  have wf1: "wf_lbc lbc1"
    using updateTcp_fine [of ?l kube ord1 cm1 w] ok u1(1) by (auto simp: fine_def)
  let ?l1 = "lbc1\<lparr>cond_L := True\<rparr>"
  have r1: "ready_to_send lbc1" "ready_to_send ?l1" "tracked ?l1 T U" "leftover ?l1 T M"
    using wf1 u1 by (simp_all add: ready_to_send_def tracked_def leftover_def)
  have p2: "list_pods kube (nginxServer ?l1) w1 = (Inr pods2, w2)" using pods2 u1(5) by simp
  obtain lbc2 where u2: "updateTcp_body kube ord2 cm2 ?l1 w1 = Returns (lbc2, w2)"
    "tracked lbc2 (T \<union> valid_ports (data_keys cm2)) U"
    using updateTcp_tracks [OF r1(2) fair(2) r1(3,4) p2 pods2(2), of cm2] by auto
  show ?thesis
    using updatePorts_tcp [OF ok(2) r(1) ev1(1,2)] updatePorts_tcp [OF u1(6) r1(1) ev2] u1(1) u2
    by (auto simp: tracked_def)
qed

section \<open>Updates that are lost\<close>

text \<open>
  Two pod events before the worker's turn: both items are the one store \<open>plbdata\<close>, so the
  worker processes the second event twice and the first one never.
\<close>

lemma OnUpdate_pod_body:
  assumes "\<not> cond_L lbc" and "ready_to_send lbc" and "pod_Namespace old = nginxServer lbc" and "pod_PodIP old \<noteq> []"
  shows "OnUpdate_pod kube ord old new lbc w = addrUpdate_body kube ord old (lbc\<lparr>cond_L := True\<rparr>) w"
  using assms by (simp add: OnUpdate_pod_def addrUpdateFunc_def critical_def full_def ready_to_send_def)

context controller_env
begin

lemma lost_pod:
  assumes rest: "at_rest v A T U (view w) lbc" and lm: "lvsManager lbc = lm" and w: "good w"
    and fair: "fair_orders o1" "fair_orders o2" "fair_orders o3" "fair_orders o4"
    and p1: "pod_Namespace p1 = nginxServer lbc" "pod_PodIP p1 \<noteq> []" "fst (ValidateIPv4 (pod_PodIP p1))"
      "pod_addr p1 = Some a"
    and p2: "pod_Namespace p2 = nginxServer lbc" "pod_PodIP p2 \<noteq> []" "fst (ValidateIPv4 (pod_PodIP p2))"
      "pod_addr p2 = Some b" "\<not> pod_Deleted p2"
    and cms1: "list_cms kube (nginxServer lbc) w = (Inr cms1, w1)" "good_cms cms1"
    and cms2: "list_cms kube (nginxServer lbc) w1 = (Inr cms2, w2)" "good_cms cms2"
      "cm_ports tcpService cms2 = T" "cm_ports udpService cms2 = U"
  shows "\<exists>lbc1 lbc2 lbc3 w3 lbc4 w4. OnUpdate_pod kube o1 p1 n1 lbc w = Returns (lbc1, w1) \<and>
    OnUpdate_pod kube o2 p2 n2 lbc1 w1 = Returns (lbc2, w2) \<and>
    processFunc hst o3 lbc2 w2 = Returns (lbc3, w3) \<and> processFunc hst o4 lbc3 w3 = Returns (lbc4, w4) \<and>
    lbstore lbc4 = [] \<and> rs_of (view w4) = want v (A \<union> {b}) T U"
proof -
  let ?l = "lbc\<lparr>cond_L := True\<rparr>"
  have r: "ready_to_send lbc" "ready_to_send ?l" "list_cms kube (nginxServer ?l) w = (Inr cms1, w1)"
    "\<not> cond_L lbc" "lbstore lbc = []"
    using rest cms1 by (simp_all add: at_rest_def ready_to_send_def)
  obtain lb where u: "addrUpdate_body kube o1 p1 ?l w =
      Returns (lbc\<lparr>plbdata := lb, lbstore := [PLB], cond_L := False\<rparr>, w1)"
    using addrUpdate_tracks [OF r(2) fair(1) r(3) cms1(2) p1(3,4)] r(5) by auto
  let ?l1 = "lbc\<lparr>plbdata := lb, lbstore := [PLB], cond_L := False\<rparr>"
  have wf1: "wf_lbc ?l1" using addrUpdate_fine [of ?l kube o1 p1 w] rest u by (auto simp: at_rest_def fine_def)
  let ?l1' = "?l1\<lparr>cond_L := True\<rparr>"
  have r1: "ready_to_send ?l1" "ready_to_send ?l1'" "list_cms kube (nginxServer ?l1') w1 = (Inr cms2, w2)"
    using wf1 rest cms2 by (simp_all add: at_rest_def ready_to_send_def)
  obtain lb2 where u2: "addrUpdate_body kube o2 p2 ?l1' w1 =
      Returns (lbc\<lparr>plbdata := lb2, lbstore := [PLB, PLB], cond_L := False\<rparr>, w2)"
    "addrs_with addition lb2 {b}" "map_of (Tcp lb2) = port_set addition T" "map_of (Udp lb2) = port_set addition U"
    using addrUpdate_tracks [OF r1(2) fair(2) r1(3) cms2(2) p2(3,4)] cms2(3,4) p2(5) by auto
  let ?l2 = "lbc\<lparr>plbdata := lb2, lbstore := [PLB, PLB], cond_L := False\<rparr>"
  have w1: "good w1" "view w1 = view w" using good_cms_list [OF w cms1(1)] by simp_all
  have w2: "good w2" "view w2 = view w" using good_cms_list [OF w1(1) cms2(1)] w1(2) by simp_all
  have "0 \<notin> dom (map_of (Tcp lb2))" "0 \<notin> dom (map_of (Udp lb2))"
    using u2(3,4) rest by (auto simp: at_rest_def)
  then have ok: "store_ok v lb2" by (rule store_ok_adding [OF u2(2)])
  obtain w3 where q3: "processFunc hst o3 ?l2 w2 = Returns (?l2\<lparr>lbstore := [PLB], cond_L := False\<rparr>, w3)" "good w3"
    "rs_of (view w3) = upd (store_adds v lb2) (store_dels v lb2) (rs_of (view w2))"
    using processFunc_one [OF w2(1) _ _ _ fair(3), of ?l2 PLB "[PLB]"] ok lm by auto
  let ?l3 = "?l2\<lparr>lbstore := [PLB], cond_L := False\<rparr>"
  obtain w4 where q4: "processFunc hst o4 ?l3 w3 = Returns (?l3\<lparr>lbstore := [], cond_L := False\<rparr>, w4)"
    "rs_of (view w4) = upd (store_adds v lb2) (store_dels v lb2) (rs_of (view w3))"
    using processFunc_one [OF q3(2) _ _ _ fair(4), of ?l3 PLB "[]"] ok lm by auto
  have "rs_of (view w3) = want v (A \<union> {b}) T U"
    using q3(3) w2(2) rest upd_want_all [OF u2(2,3,4), of v A] by (simp add: at_rest_def)
  then have "rs_of (view w4) = want v (A \<union> {b}) T U"
    using q4(2) upd_want_all [OF u2(2,3,4), of v "A \<union> {b}"] by simp
  then show ?thesis
    using OnUpdate_pod_body [OF r(4,1) p1(1,2), of kube o1 n1 w] u
      OnUpdate_pod_body [of ?l1, OF _ r1(1) _ p2(2), of kube o2 n2 w1] p2(1) u2(1) q3(1) q4(1)
    by auto
qed

end

section \<open>Port 0\<close>

text \<open>\<open>libipvs\<close> panics on a service whose identification is not complete.\<close>

lemma base_service_no_id: "service_id_attrs (base_service lm p 0 0) = None"
  by (simp add: service_id_attrs_def)

lemma Base_unmarked:
  assumes "proto = TCP \<or> proto = UDP" and "\<not> lm_marked lm"
  shows "Base hst lm ip port proto w =
    ((None, base_service lm (proto_num proto) port 0, base_destination ip port), w)"
  using assms by (auto simp: Base_def proto_num_def TCP_def UDP_def)

lemma port0_panics:
  assumes "lm_handle lm = Some (netlink_handle sync)" and "\<not> lm_marked lm" and "proto = TCP \<or> proto = UDP"
  shows "Del hst lm ip 0 proto w = None"
    "Handle_ListServices sync w = Some ((ss, None), w1) \<Longrightarrow> \<forall>s \<in> set ss. s_Port s \<noteq> 0 \<Longrightarrow>
       Add hst lm ip 0 proto w = None"
proof -
  have none: "fillAttrs (Some (base_service lm p 0 0)) d f g = None" for p d f g
    by (simp add: fillAttrs_def service_attrs_def base_service_no_id)
  show "Del hst lm ip 0 proto w = None"
    using assms(1)
    by (simp add: Del_def Base_unmarked [OF assms(3,2)] DeleteDestination_def netlink_handle_def
        Handle_DelDestination_def none)
  assume l: "Handle_ListServices sync w = Some ((ss, None), w1)" and nz: "\<forall>s \<in> set ss. s_Port s \<noteq> 0"
  have "\<not> list_ex (\<lambda>s. s_Port s = 0 \<and> s_Protocol s = proto_num proto) ss"
    using nz by (auto simp: list_ex_iff)
  with l assms(1) show "Add hst lm ip 0 proto w = None"
    by (simp add: Add_def Base_unmarked [OF assms(3,2)] EnsureService_def netlink_handle_def
        Handle_NewService_def none)
qed

section \<open>The marking rule\<close>

text \<open>\<open>string(dport)\<close> is a character, never the number.\<close>

lemma rune_not_decimal: "rune_string p \<noteq> dec (unat p)"
proof
  assume eq: "rune_string p = dec (unat p)"
  let ?n = "unat p"
  have digits: "is_digit c" if "c \<in> set (rune_string p)" for c
    using that dec_digits unfolding eq by blast
  have n: "?n < 65536" using unsigned_less [of p, where ?'a = nat] by simp
  show False
  proof (cases "?n < 128")
    case True
    then have s: "rune_string p = [char_of ?n]" by (simp add: rune_string_def)
    then have "digits_val 0 (rune_string p) = int ?n - 48"
      using True by (simp add: digits_val_def digit_val_def char_code_def)
    moreover have "digits_val 0 (rune_string p) = int ?n" unfolding eq by (rule digits_val_dec)
    ultimately show False by simp
  next
    case False
    define k where "k = (if ?n < 2048 then 192 + ?n div 64
      else if 55296 \<le> ?n \<and> ?n \<le> 57343 then 239 else 224 + ?n div 4096)"
    have hd: "hd (rune_string p) = char_of k" and "rune_string p \<noteq> []"
      using False by (auto simp: rune_string_def Let_def k_def)
    then have "is_digit (char_of k)" using digits [OF hd_in_set] by metis
    moreover have "192 \<le> k" "k < 256" using n by (auto simp: k_def)
    ultimately show False by (simp add: is_digit_def char_code_def)
  qed
qed

end
