(* ===== verification/Ipvsdr_Faults.thy ===== *)
theory Ipvsdr_Faults
  imports Ipvsdr_Correct
begin

text \<open>
  The manager over a handle any of whose calls may fail. \<open>Add\<close> and \<open>Del\<close> still return, and
  each leaves the table in one of the states on its way: unchanged, after its first call, or
  done. Since both drop the error of their second step, the returned error does not tell which.
\<close>

definition add_partial :: "svc_key \<Rightarrow> dst_key \<Rightarrow> ipvs_view \<Rightarrow> ipvs_view \<Rightarrow> bool" where
  "add_partial k dk V V' \<longleftrightarrow> V' = V \<or> k \<notin> dom V \<and> V' = V(k \<mapsto> {}) \<or> V' = spec_add k dk V"

definition del_partial :: "svc_key \<Rightarrow> dst_key \<Rightarrow> ipvs_view \<Rightarrow> ipvs_view \<Rightarrow> bool" where
  "del_partial k dk V V' \<longleftrightarrow> V' = V \<or> (\<exists>D. V k = Some D \<and> dk \<in> D \<and> V' = V(k \<mapsto> D - {dk})) \<or> V' = spec_del k dk V"

context ipvs_handle
begin

lemma EnsureService_any:
  assumes "lm_handle lm = Some h" and "invar w" and "svc_key s = Some k"
  shows "\<exists>e w'. EnsureService lm s w = Some (e, w') \<and> invar w' \<and>
    (view w' = view w \<or> k \<notin> dom (view w) \<and> view w' = (view w)(k \<mapsto> {}))"
proof -
  obtain ss e w1 where l: "ListServices h w = Some ((ss, e), w1)" "invar w1" "view w1 = view w"
    using list_services [OF assms(2)] by blast
  obtain e2 w2 where n: "NewService h s w1 = Some (e2, w2)" "invar w2"
    "if e2 = None then k \<notin> dom (view w1) \<and> view w2 = (view w1)(k \<mapsto> {}) else view w2 = view w1"
    using new_service [OF l(2) assms(3)] by blast
  show ?thesis
    using l n assms(1) by (cases e) (auto simp: EnsureService_def split: if_splits)
qed

lemma EnsureDestination_any:
  assumes "lm_handle lm = Some h" and "invar w" and "svc_key s = Some k" and "dst_key d = Some dk"
  shows "\<exists>e w'. EnsureDestination lm s d w = Some (e, w') \<and> invar w' \<and>
    (view w' = view w \<or> (\<exists>D. view w k = Some D \<and> view w' = (view w)(k \<mapsto> insert dk D)))"
proof -
  obtain ds e w1 where l: "ListDestinations h s w = Some ((ds, e), w1)" "invar w1" "view w1 = view w"
    using list_dests [OF assms(2,3)] by blast
  obtain e2 w2 where n: "NewDestination h s d w1 = Some (e2, w2)" "invar w2"
    "if e2 = None then \<exists>D. view w1 k = Some D \<and> dk \<notin> D \<and> view w2 = (view w1)(k \<mapsto> insert dk D)
     else view w2 = view w1"
    using new_dest [OF l(2) assms(3,4)] by blast
  show ?thesis
    using l n assms(1) by (cases e) (auto simp: EnsureDestination_def split: if_splits)
qed

lemma DeleteDeadSvc_any:
  assumes "lm_handle lm = Some h" and "invar w" and "svc_key s = Some k" and "view w k = Some D"
  shows "\<exists>e w'. DeleteDeadSvc lm s w = Some (e, w') \<and> invar w' \<and>
    (view w' = view w \<or> D = {} \<and> view w' = (view w)(k := None))"
proof -
  obtain ds e w1 where l: "ListDestinations h s w = Some ((ds, e), w1)" "invar w1" "view w1 = view w"
    "e = None \<longrightarrow> lists_dests (view w k) ds"
    using list_dests [OF assms(2,3)] by blast
  have len: "e = None \<Longrightarrow> length ds = 0 \<longleftrightarrow> D = {}" using l(4) assms(4) lists_dests_length by simp
  obtain e2 w2 where n: "DelService h s w1 = Some (e2, w2)" "invar w2"
    "if e2 = None then k \<in> dom (view w1) \<and> view w2 = (view w1)(k := None) else view w2 = view w1"
    using del_service [OF l(2) assms(3)] by blast
  show ?thesis
    using l n len assms(1) by (cases e) (auto simp: DeleteDeadSvc_def split: if_splits)
qed

lemma Add_any:
  assumes h: "lm_handle lm = Some h" and m: "\<not> lm_marked lm" and v: "To4 (lm_vip lm) = Some v"
    and w: "invar w" and a: "addr4 ip = Some a" and port: "port \<noteq> 0" and proto: "proto = TCP \<or> proto = UDP"
  shows "\<exists>e w'. Add hst lm ip port proto w = Some (e, w') \<and> invar w' \<and>
    add_partial (vip_key v proto port) (a, port) (view w) (view w')"
proof -
  define k where "k = vip_key v proto port"
  let ?s = "base_service lm (proto_num proto) port 0" and ?d = "base_destination ip port"
  have key: "svc_key ?s = Some k"
    unfolding k_def vip_key_def by (rule svc_key_base [OF v _ port]) (simp add: proto_num_def)
  have dkey: "dst_key ?d = Some (a, port)" by (simp add: dst_key_base a)
  have base: "Base hst lm ip port proto w = ((None, ?s, ?d), w)"
    using proto m by (auto simp: Base_def proto_num_def TCP_def UDP_def)
  obtain e1 w1 where s: "EnsureService lm ?s w = Some (e1, w1)" "invar w1"
    "view w1 = view w \<or> k \<notin> dom (view w) \<and> view w1 = (view w)(k \<mapsto> {})"
    using EnsureService_any [OF h w key] by blast
  obtain e2 w2 where d: "EnsureDestination lm ?s ?d w1 = Some (e2, w2)" "invar w2"
    "view w2 = view w1 \<or> (\<exists>D. view w1 k = Some D \<and> view w2 = (view w1)(k \<mapsto> insert (a, port) D))"
    using EnsureDestination_any [OF h s(2) key dkey] by blast
  have "add_partial k (a, port) (view w) (view w1)" "add_partial k (a, port) (view w) (view w2)"
    using s(3) d(3) by (auto simp: add_partial_def spec_add_def split: option.splits)
  then show ?thesis
    using s(1,2) d(1,2) base unfolding k_def by (cases e1) (auto simp: Add_def)
qed

lemma Del_any:
  assumes h: "lm_handle lm = Some h" and m: "\<not> lm_marked lm" and v: "To4 (lm_vip lm) = Some v"
    and w: "invar w" and a: "addr4 ip = Some a" and port: "port \<noteq> 0" and proto: "proto = TCP \<or> proto = UDP"
  shows "\<exists>w'. Del hst lm ip port proto w = Some (None, w') \<and> invar w' \<and>
    del_partial (vip_key v proto port) (a, port) (view w) (view w')"
proof -
  define k where "k = vip_key v proto port"
  let ?s = "base_service lm (proto_num proto) port 0" and ?d = "base_destination ip port"
  have key: "svc_key ?s = Some k"
    unfolding k_def vip_key_def by (rule svc_key_base [OF v _ port]) (simp add: proto_num_def)
  have dkey: "dst_key ?d = Some (a, port)" by (simp add: dst_key_base a)
  have base: "Base hst lm ip port proto w = ((None, ?s, ?d), w)"
    using proto m by (auto simp: Base_def proto_num_def TCP_def UDP_def)
  obtain e1 w1 where d: "DelDestination h ?s ?d w = Some (e1, w1)" "invar w1"
    "if e1 = None then \<exists>D. view w k = Some D \<and> (a, port) \<in> D \<and> view w1 = (view w)(k \<mapsto> D - {(a, port)})
     else view w1 = view w"
    using del_dest [OF w key dkey] by blast
  show ?thesis
  proof (cases e1)
    case (Some e)
    with d base h show ?thesis by (simp add: Del_def DeleteDestination_def del_partial_def)
  next
    case None
    then obtain D where D: "view w k = Some D" "(a, port) \<in> D" "view w1 = (view w)(k \<mapsto> D - {(a, port)})"
      using d(3) by auto
    obtain e2 w2 where x: "DeleteDeadSvc lm ?s w1 = Some (e2, w2)" "invar w2"
      "view w2 = view w1 \<or> D - {(a, port)} = {} \<and> view w2 = (view w1)(k := None)"
      using DeleteDeadSvc_any [OF h d(2) key, of "D - {(a, port)}"] D(3) by auto
    have "del_partial k (a, port) (view w) (view w2)"
      using x(3) D by (auto simp: del_partial_def spec_del_def)
    then show ?thesis
      using d(1) None x(1,2) base h unfolding k_def by (auto simp: Del_def DeleteDestination_def)
  qed
qed

end

end
