(* ===== verification/Go_Heap.thy ===== *)
theory Go_Heap
  imports Lvs_Prelude
begin

text \<open>
  Go memory with sharing, for the deep copies of the API objects: arrays of values at
  addresses, pointers to an element of an array, slices of an array, and maps. The garbage
  collector is left out, so an allocation gives the next address. \<open>'o\<close> is the sum of all array
  types; a \<open>kind\<close> is one array type in it. \<open>None\<close> as the result of an operation is a read
  through a dangling reference or one of the wrong type, which typed Go code does not have.

  \<open>deep_copier rd cp\<close> says that \<open>cp\<close> is a deep copy of the values \<open>rd\<close> reads: the copy reads as
  the same tree, everything it refers to is new, and the old memory is unchanged. The section on
  combinators derives it for slices, pointers and maps of such values.
\<close>

section \<open>Memory\<close>

type_synonym 'o heap = "'o list"

text \<open>A pointer is nil or the index of an element of an array; a slice is nil or an array, an offset and a length.\<close>

type_synonym ptr = "(nat \<times> nat) option"
type_synonym slice = "(nat \<times> nat \<times> nat) option"
type_synonym mapref = "nat option"

record ('a, 'o) kind =
  mk :: "'a list \<Rightarrow> 'o"
  un :: "'o \<Rightarrow> 'a list option"
  zero :: 'a

definition kind_ok :: "('a, 'o) kind \<Rightarrow> bool" where
  "kind_ok k \<longleftrightarrow> (\<forall>xs. un k (mk k xs) = Some xs)"

definition load :: "('a, 'o) kind \<Rightarrow> 'o heap \<Rightarrow> nat \<Rightarrow> 'a list option" where
  "load k h a = (if a < length h then un k (h ! a) else None)"

definition elem :: "('a, 'o) kind \<Rightarrow> 'o heap \<Rightarrow> nat \<Rightarrow> nat \<Rightarrow> 'a option" where
  "elem k h a i = do {xs \<leftarrow> load k h a; (if i < length xs then Some (xs ! i) else None)}"

definition set_elem :: "('a, 'o) kind \<Rightarrow> nat \<Rightarrow> nat \<Rightarrow> 'a \<Rightarrow> 'o heap \<Rightarrow> 'o heap option" where
  "set_elem k a i v h = do {xs \<leftarrow> load k h a; (if i < length xs then Some (h[a := mk k (xs[i := v])]) else None)}"

definition make :: "('a, 'o) kind \<Rightarrow> nat \<Rightarrow> 'o heap \<Rightarrow> nat \<times> 'o heap" where
  "make k n h = (length h, h @ [mk k (replicate n (zero k))])"

section \<open>Copying\<close>

text \<open>A copier gives the value to be stored in \<open>*out\<close>, and the memory after its allocations.\<close>

type_synonym ('a, 'o) copier = "'a \<Rightarrow> 'o heap \<Rightarrow> ('a \<times> 'o heap) option"

definition assign :: "('a, 'o) copier" where
  "assign x h = Some (x, h)"

text \<open>\<open>for i := range *in { (*in)[i].DeepCopyInto(&(*out)[i]) }\<close>, from index \<open>i\<close> on.\<close>

fun copy_elems :: "('a, 'o) kind \<Rightarrow> ('a, 'o) copier \<Rightarrow> nat \<Rightarrow> nat \<Rightarrow> nat \<Rightarrow> nat \<Rightarrow> nat \<Rightarrow> 'o heap \<Rightarrow> 'o heap option" where
  "copy_elems k cp a off b i 0 h = Some h"
| "copy_elems k cp a off b i (Suc n) h = do {
     x \<leftarrow> elem k h a (off + i);
     (y, h1) \<leftarrow> cp x h;
     h2 \<leftarrow> set_elem k b i y h1;
     copy_elems k cp a off b (Suc i) n h2
   }"

definition copy_slice :: "('a, 'o) kind \<Rightarrow> ('a, 'o) copier \<Rightarrow> (slice, 'o) copier" where
  "copy_slice k cp s h =
     (case s of
        None \<Rightarrow> Some (None, h)
      | Some (a, off, n) \<Rightarrow>
          (let (b, h1) = make k n h in do {
             h2 \<leftarrow> copy_elems k cp a off b 0 n h1;
             Some (Some (b, 0, n), h2)
           }))"

definition copy_ptr :: "('a, 'o) kind \<Rightarrow> ('a, 'o) copier \<Rightarrow> (ptr, 'o) copier" where
  "copy_ptr k cp p h =
     (case p of
        None \<Rightarrow> Some (None, h)
      | Some (a, i) \<Rightarrow>
          (let (b, h1) = make k 1 h in do {
             x \<leftarrow> elem k h1 a i;
             (y, h2) \<leftarrow> cp x h1;
             h3 \<leftarrow> set_elem k b 0 y h2;
             Some (Some (b, 0), h3)
           }))"

text \<open>
  A map is the single element of an array. The order of the range loop is the one numbered by
  the address of the new map.
\<close>

definition copy_map :: "((string, string) gomap, 'o) kind \<Rightarrow> orders \<Rightarrow> (mapref, 'o) copier" where
  "copy_map k ord m h =
     (case m of
        None \<Rightarrow> Some (None, h)
      | Some a \<Rightarrow> do {
          g \<leftarrow> elem k h a 0;
          let b = length h;
          Some (Some b, h @ [mk k [fold (\<lambda>key. go_put key (go_get_str g key)) (name_order ord b (go_keys g)) []]])
        })"

section \<open>Reading\<close>

text \<open>What \<open>reflect.DeepEqual\<close> compares: the value with all references followed.\<close>

datatype tree = TNil | TStrs "string list" | TNums "int list" | TDict "string \<Rightarrow> string option"
  | TList "tree list" | TPair tree tree

text \<open>A reader gives the tree of a value and the addresses it has followed.\<close>

type_synonym ('a, 'o) reader = "'o heap \<Rightarrow> 'a \<Rightarrow> (tree \<times> nat list) option"

definition read_leaf :: "('a \<Rightarrow> tree) \<Rightarrow> ('a, 'o) reader" where
  "read_leaf f h x = Some (f x, [])"

definition read_slice :: "('a, 'o) kind \<Rightarrow> ('a, 'o) reader \<Rightarrow> (slice, 'o) reader" where
  "read_slice k rd h s =
     (case s of
        None \<Rightarrow> Some (TNil, [])
      | Some (a, off, n) \<Rightarrow> do {
          xs \<leftarrow> load k h a;
          (if off + n \<le> length xs then do {
             rs \<leftarrow> those (map (rd h) (take n (drop off xs)));
             Some (TList (map fst rs), a # concat (map snd rs))
           } else None)
        })"

definition read_ptr :: "('a, 'o) kind \<Rightarrow> ('a, 'o) reader \<Rightarrow> (ptr, 'o) reader" where
  "read_ptr k rd h p =
     (case p of
        None \<Rightarrow> Some (TNil, [])
      | Some (a, i) \<Rightarrow> do {
          x \<leftarrow> elem k h a i;
          (t, A) \<leftarrow> rd h x;
          Some (TList [t], a # A)
        })"

definition read_map :: "((string, string) gomap, 'o) kind \<Rightarrow> (mapref, 'o) reader" where
  "read_map k h m =
     (case m of
        None \<Rightarrow> Some (TNil, [])
      | Some a \<Rightarrow> do {
          g \<leftarrow> elem k h a 0;
          (if go_wf g then Some (TDict (map_of g), [a]) else None)
        })"

definition read_pair :: "('a, 'o) reader \<Rightarrow> ('b, 'o) reader \<Rightarrow> ('a \<times> 'b, 'o) reader" where
  "read_pair rd rd' h xy = do {
     (t, A) \<leftarrow> rd h (fst xy);
     (u, B) \<leftarrow> rd' h (snd xy);
     Some (TPair t u, A @ B)
   }"

definition copy_pair :: "('a, 'o) copier \<Rightarrow> ('b, 'o) copier \<Rightarrow> ('a \<times> 'b, 'o) copier" where
  "copy_pair cp cp' xy h = do {
     (x, h1) \<leftarrow> cp (fst xy) h;
     (y, h2) \<leftarrow> cp' (snd xy) h1;
     Some ((x, y), h2)
   }"

section \<open>Deep copies\<close>

text \<open>The memory \<open>h'\<close> agrees with \<open>h\<close> on the addresses \<open>A\<close>; a memory that extends another.\<close>

definition agrees :: "nat set \<Rightarrow> 'o heap \<Rightarrow> 'o heap \<Rightarrow> bool" where
  "agrees A h h' \<longleftrightarrow> (\<forall>a \<in> A. a < length h' \<and> h' ! a = h ! a)"

definition extends :: "'o heap \<Rightarrow> 'o heap \<Rightarrow> bool" where
  "extends h h' \<longleftrightarrow> take (length h) h' = h"

lemma extends_iff: "extends h h' \<longleftrightarrow> length h \<le> length h' \<and> agrees {..<length h} h h'"
proof
  assume "extends h h'"
  then have t: "take (length h) h' = h" by (simp add: extends_def)
  then have "length h \<le> length h'" by (metis length_take min.cobounded1 min_def)
  moreover have "h' ! a = h ! a" if "a < length h" for a using t that by (metis nth_take)
  ultimately show "length h \<le> length h' \<and> agrees {..<length h} h h'" by (simp add: agrees_def)
next
  assume "length h \<le> length h' \<and> agrees {..<length h} h h'"
  then show "extends h h'" by (auto simp: extends_def agrees_def intro!: nth_equalityI)
qed

lemma extends_refl [simp]: "extends h h"
  by (simp add: extends_def)

lemma extends_trans: "extends h h' \<Longrightarrow> extends h' h'' \<Longrightarrow> extends h h''"
  by (auto simp: extends_iff agrees_def)

lemma extends_append [simp]: "extends h (h @ xs)"
  by (simp add: extends_def)

lemma extends_length: "extends h h' \<Longrightarrow> length h \<le> length h'"
  by (simp add: extends_iff)

lemma extends_agrees: "extends h h' \<Longrightarrow> A \<subseteq> {..<length h} \<Longrightarrow> agrees A h h'"
  by (auto simp: extends_iff agrees_def)

lemma extends_update: "extends h h' \<Longrightarrow> length h \<le> b \<Longrightarrow> extends h (h'[b := v])"
  by (simp add: extends_def)

locale deep_copier =
  fixes rd :: "('a, 'o) reader" and cp :: "('a, 'o) copier"
  assumes frame: "rd h x = Some (t, A) \<Longrightarrow> agrees (set A) h h' \<Longrightarrow> rd h' x = Some (t, A)"
    and reach: "rd h x = Some (t, A) \<Longrightarrow> set A \<subseteq> {..<length h}"
    and copies: "rd h x = Some (t, A) \<Longrightarrow> \<exists>y h' A'. cp x h = Some (y, h') \<and> extends h h' \<and>
      rd h' y = Some (t, A') \<and> set A' \<subseteq> {length h..<length h'}"
begin

lemma frame_extends:
  assumes "rd h x = Some (t, A)" and "extends h h'"
  shows "rd h' x = Some (t, A)"
  by (rule frame [OF assms(1) extends_agrees [OF assms(2) reach [OF assms(1)]]])

text \<open>
  The copy is independent of the original: changes of the old memory do not show in the copy,
  changes of the new memory do not show in the original.
\<close>

lemma independent:
  assumes "rd h x = Some (t, A)" and "cp x h = Some (y, h')"
  shows "\<exists>A'. rd h' y = Some (t, A') \<and> set A \<inter> set A' = {} \<and>
    (\<forall>h''. agrees (set A') h' h'' \<longrightarrow> rd h'' y = Some (t, A')) \<and>
    (\<forall>h''. agrees (set A) h' h'' \<longrightarrow> rd h'' x = Some (t, A))"
proof -
  obtain A' where c: "extends h h'" "rd h' y = Some (t, A')" "set A' \<subseteq> {length h..<length h'}"
    using copies [OF assms(1)] assms(2) by auto
  have "set A \<inter> set A' = {}" using reach [OF assms(1)] c(3) by fastforce
  with c frame frame_extends [OF assms(1) c(1)] show ?thesis by blast
qed

end

lemma deep_copierI:
  assumes "\<And>h x t A h'. rd h x = Some (t, A) \<Longrightarrow> agrees (set A) h h' \<Longrightarrow> rd h' x = Some (t, A)"
    and "\<And>h x t A. rd h x = Some (t, A) \<Longrightarrow> set A \<subseteq> {..<length h}"
    and "\<And>h x t A. rd h x = Some (t, A) \<Longrightarrow> \<exists>y h' A'. cp x h = Some (y, h') \<and> extends h h' \<and>
      rd h' y = Some (t, A') \<and> set A' \<subseteq> {length h..<length h'}"
  shows "deep_copier rd cp"
  using assms by unfold_locales blast+

lemma deep_leaf: "deep_copier (read_leaf f) assign"
  by (rule deep_copierI) (auto simp: read_leaf_def assign_def)

lemma deep_pair:
  assumes "deep_copier rd cp" and "deep_copier rd' cp'"
  shows "deep_copier (read_pair rd rd') (copy_pair cp cp')"
proof (rule deep_copierI)
  fix h x t A h'
  assume r: "read_pair rd rd' h x = Some (t, A)" and a: "agrees (set A) h h'"
  from r obtain t1 A1 t2 A2 where p: "rd h (fst x) = Some (t1, A1)" "rd' h (snd x) = Some (t2, A2)"
    "t = TPair t1 t2" "A = A1 @ A2"
    by (auto simp: read_pair_def split: bind_splits)
  have "agrees (set A1) h h'" "agrees (set A2) h h'" using a p(4) by (auto simp: agrees_def)
  with p show "read_pair rd rd' h' x = Some (t, A)"
    using deep_copier.frame [OF assms(1) p(1)] deep_copier.frame [OF assms(2) p(2)] by (simp add: read_pair_def)
next
  fix h x t A
  assume r: "read_pair rd rd' h x = Some (t, A)"
  then obtain t1 A1 t2 A2 where p: "rd h (fst x) = Some (t1, A1)" "rd' h (snd x) = Some (t2, A2)"
    "t = TPair t1 t2" "A = A1 @ A2"
    by (auto simp: read_pair_def split: bind_splits)
  then show "set A \<subseteq> {..<length h}"
    using deep_copier.reach [OF assms(1) p(1)] deep_copier.reach [OF assms(2) p(2)] by simp
  obtain y1 h1 B1 where c1: "cp (fst x) h = Some (y1, h1)" "extends h h1" "rd h1 y1 = Some (t1, B1)"
    "set B1 \<subseteq> {length h..<length h1}"
    using deep_copier.copies [OF assms(1) p(1)] by blast
  obtain y2 h2 B2 where c2: "cp' (snd x) h1 = Some (y2, h2)" "extends h1 h2" "rd' h2 y2 = Some (t2, B2)"
    "set B2 \<subseteq> {length h1..<length h2}"
    using deep_copier.copies [OF assms(2) deep_copier.frame_extends [OF assms(2) p(2) c1(2)]] by blast
  have "copy_pair cp cp' x h = Some ((y1, y2), h2)" using c1(1) c2(1) by (simp add: copy_pair_def)
  moreover have "read_pair rd rd' h2 (y1, y2) = Some (t, B1 @ B2)"
    using deep_copier.frame_extends [OF assms(1) c1(3) c2(2)] c2(3) p(3) by (simp add: read_pair_def)
  moreover have "set (B1 @ B2) \<subseteq> {length h..<length h2}"
    using c1(4) c2(4) extends_length [OF c1(2)] extends_length [OF c2(2)] by fastforce
  ultimately show "\<exists>y h' A'. copy_pair cp cp' x h = Some (y, h') \<and> extends h h' \<and>
      read_pair rd rd' h' y = Some (t, A') \<and> set A' \<subseteq> {length h..<length h'}"
    using extends_trans [OF c1(2) c2(2)] by blast
qed

section \<open>Slices, pointers and maps of deep copies\<close>

lemma those_map_Some:
  "those (map f xs) = Some rs \<longleftrightarrow> length rs = length xs \<and> (\<forall>j < length xs. f (xs ! j) = Some (rs ! j))"
proof (induction xs arbitrary: rs)
  case (Cons x xs)
  show ?case
  proof (cases rs)
    case (Cons r rs')
    have "those (map f (x # xs)) = Some (r # rs') \<longleftrightarrow> f x = Some r \<and> those (map f xs) = Some rs'"
      by (auto split: option.split)
    also have "\<dots> \<longleftrightarrow> length (r # rs') = length (x # xs) \<and>
        (\<forall>j < length (x # xs). f ((x # xs) ! j) = Some ((r # rs') ! j))"
      unfolding Cons.IH by (auto simp: less_Suc_eq_0_disj)
    finally show ?thesis using Cons by simp
  qed (auto split: option.splits)
qed auto

lemma load_extends: "load k h a = Some xs \<Longrightarrow> extends h h' \<Longrightarrow> load k h' a = Some xs"
  by (auto simp: load_def extends_iff agrees_def split: if_splits)

lemma load_agrees: "load k h a = Some xs \<Longrightarrow> agrees A h h' \<Longrightarrow> a \<in> A \<Longrightarrow> load k h' a = Some xs"
  by (auto simp: load_def agrees_def split: if_splits)

lemma load_length: "load k h a = Some xs \<Longrightarrow> a < length h"
  by (simp add: load_def split: if_splits)

lemma elem_load: "elem k h a i = Some x \<longleftrightarrow> (\<exists>xs. load k h a = Some xs \<and> i < length xs \<and> x = xs ! i)"
  by (auto simp: elem_def split: bind_splits if_splits)

lemma load_make: "kind_ok k \<Longrightarrow> load k (h @ [mk k xs]) (length h) = Some xs"
  by (simp add: load_def kind_ok_def)

text \<open>The new array \<open>b\<close> holds copies of the first \<open>i\<close> elements, whose trees are those of \<open>rs\<close>.\<close>

definition copied :: "('a, 'o) reader \<Rightarrow> ('a, 'o) kind \<Rightarrow> 'o heap \<Rightarrow> (tree \<times> nat list) list \<Rightarrow> nat \<Rightarrow> 'o heap \<Rightarrow> bool" where
  "copied rd k h rs i h' \<longleftrightarrow> extends h h' \<and>
     (\<exists>ys. load k h' (length h) = Some ys \<and> length ys = length rs \<and>
        (\<forall>j < i. \<exists>B. rd h' (ys ! j) = Some (fst (rs ! j), B) \<and> set B \<subseteq> {Suc (length h)..<length h'}))"

lemma copied_step:
  assumes D: "deep_copier rd cp" and k: "kind_ok k" and xs: "load k h a = Some xs" "off + i < length xs"
    and r: "rd h (xs ! (off + i)) = Some (rs ! i)" and i: "i < length rs" and c: "copied rd k h rs i hi"
  shows "\<exists>x y h1 h2. elem k hi a (off + i) = Some x \<and> cp x hi = Some (y, h1) \<and>
    set_elem k (length h) i y h1 = Some h2 \<and> copied rd k h rs (Suc i) h2"
proof -
  let ?b = "length h" and ?x = "xs ! (off + i)"
  obtain t A where ta: "rs ! i = (t, A)" by (cases "rs ! i")
  obtain ys where ys: "extends h hi" "load k hi ?b = Some ys" "length ys = length rs"
    "\<forall>j < i. \<exists>B. rd hi (ys ! j) = Some (fst (rs ! j), B) \<and> set B \<subseteq> {Suc ?b..<length hi}"
    using c by (auto simp: copied_def)
  have e: "elem k hi a (off + i) = Some ?x" using load_extends [OF xs(1) ys(1)] xs(2) by (simp add: elem_load)
  have "rd hi ?x = Some (t, A)" using deep_copier.frame_extends [OF D _ ys(1)] r ta by simp
  then obtain y h1 B where cp: "cp ?x hi = Some (y, h1)" "extends hi h1" "rd h1 y = Some (t, B)"
    "set B \<subseteq> {length hi..<length h1}"
    using deep_copier.copies [OF D] by blast
  let ?h2 = "h1[?b := mk k (ys[i := y])]"
  have b: "?b < length hi" using load_length [OF ys(2)] .
  have l1: "load k h1 ?b = Some ys" by (rule load_extends [OF ys(2) cp(2)])
  have len: "length hi \<le> length h1" by (rule extends_length [OF cp(2)])
  have s: "set_elem k ?b i y h1 = Some ?h2" using l1 ys(3) i by (simp add: set_elem_def)
  have l2: "load k ?h2 ?b = Some (ys[i := y])" using b len k by (simp add: load_def kind_ok_def)
  have keep: "rd ?h2 z = Some (u, C)" if "rd h1 z = Some (u, C)" "set C \<subseteq> {Suc ?b..<length h1}" for z u C
    by (rule deep_copier.frame [OF D that(1)]) (use that(2) in \<open>force simp: agrees_def\<close>)
  have "\<exists>B. rd ?h2 (ys[i := y] ! j) = Some (fst (rs ! j), B) \<and> set B \<subseteq> {Suc ?b..<length ?h2}" if j: "j < Suc i" for j
  proof (cases "j = i")
    case True
    have "set B \<subseteq> {Suc ?b..<length h1}" using cp(4) b by fastforce
    with keep [OF cp(3) this] True ta i ys(3) show ?thesis by auto
  next
    case False
    with j have "j < i" by simp
    then obtain C where C: "rd hi (ys ! j) = Some (fst (rs ! j), C)" "set C \<subseteq> {Suc ?b..<length hi}" using ys(4) by blast
    have "set C \<subseteq> {Suc ?b..<length h1}" using C(2) len by fastforce
    with keep [OF deep_copier.frame_extends [OF D C(1) cp(2)] this] False show ?thesis by auto
  qed
  then have "copied rd k h rs (Suc i) ?h2"
    using extends_update [OF extends_trans [OF ys(1) cp(2)], of ?b] l2 ys(3) by (auto simp: copied_def)
  with e cp(1) s show ?thesis by blast
qed

lemma copy_elems_copied:
  assumes D: "deep_copier rd cp" "kind_ok k" and xs: "load k h a = Some xs" "off + length rs \<le> length xs"
    and r: "\<And>j. j < length rs \<Longrightarrow> rd h (xs ! (off + j)) = Some (rs ! j)"
    and "copied rd k h rs i hi" and "i + n = length rs"
  shows "\<exists>h'. copy_elems k cp a off (length h) i n hi = Some h' \<and> copied rd k h rs (length rs) h'"
  using assms(6,7)
proof (induction n arbitrary: i hi)
  case (Suc n)
  then have i: "i < length rs" by simp
  obtain x y h1 h2 where s: "elem k hi a (off + i) = Some x" "cp x hi = Some (y, h1)"
    "set_elem k (length h) i y h1 = Some h2" "copied rd k h rs (Suc i) h2"
    using copied_step [OF D xs(1) _ r [OF i] i Suc.prems(1)] i xs(2) by auto
  from Suc.IH [OF s(4)] Suc.prems(2) show ?case by (simp add: s(1-3))
qed simp

lemma read_slice_Some:
  "read_slice k rd h (Some (a, off, n)) = Some (t, A) \<longleftrightarrow> (\<exists>xs rs. load k h a = Some xs \<and> off + n \<le> length xs \<and>
     length rs = n \<and> (\<forall>j < n. rd h (xs ! (off + j)) = Some (rs ! j)) \<and>
     t = TList (map fst rs) \<and> A = a # concat (map snd rs))"
proof -
  have "those (map (rd h) (take n (drop off xs))) = Some rs \<longleftrightarrow>
      length rs = n \<and> (\<forall>j < n. rd h (xs ! (off + j)) = Some (rs ! j))" if "off + n \<le> length xs" for xs rs
    unfolding those_map_Some using that by auto
  then show ?thesis
    by (fastforce simp: read_slice_def bind_eq_Some_conv split: if_splits)
qed

lemma deep_slice:
  assumes D: "deep_copier rd cp" and k: "kind_ok k"
  shows "deep_copier (read_slice k rd) (copy_slice k cp)"
proof (rule deep_copierI)
  fix h s t A h'
  assume r: "read_slice k rd h s = Some (t, A)" and a: "agrees (set A) h h'"
  show "read_slice k rd h' s = Some (t, A)"
  proof (cases s)
    case (Some s')
    obtain x off n where s': "s' = (x, off, n)" by (cases s')
    from r Some s' obtain xs rs where p: "load k h x = Some xs" "off + n \<le> length xs" "length rs = n"
      "\<forall>j < n. rd h (xs ! (off + j)) = Some (rs ! j)" "t = TList (map fst rs)" "A = x # concat (map snd rs)"
      by (auto simp: read_slice_Some)
    have "rd h' (xs ! (off + j)) = Some (rs ! j)" if j: "j < n" for j
    proof -
      obtain u C where u: "rs ! j = (u, C)" by (cases "rs ! j")
      have "set C \<subseteq> set A" using p(3,6) j u nth_mem [of j rs] by (force simp: image_iff)
      then have "agrees (set C) h h'" using a by (auto simp: agrees_def)
      moreover have "rd h (xs ! (off + j)) = Some (u, C)" using p(4) j u by metis
      ultimately have "rd h' (xs ! (off + j)) = Some (u, C)" using deep_copier.frame [OF D] by blast
      with u show ?thesis by simp
    qed
    moreover have "load k h' x = Some xs" using load_agrees [OF p(1) a] p(6) by simp
    ultimately show ?thesis unfolding Some s' read_slice_Some using p(2,3,5,6)
      by (intro exI [of _ xs] exI [of _ rs]) simp
  qed (use r in \<open>simp add: read_slice_def\<close>)
next
  fix h s t A
  assume r: "read_slice k rd h s = Some (t, A)"
  show "set A \<subseteq> {..<length h}"
  proof (cases s)
    case (Some s')
    obtain x off n where s': "s' = (x, off, n)" by (cases s')
    from r Some s' obtain xs rs where p: "load k h x = Some xs" "length rs = n"
      "\<forall>j < n. rd h (xs ! (off + j)) = Some (rs ! j)" "A = x # concat (map snd rs)"
      by (auto simp: read_slice_Some)
    have "set C \<subseteq> {..<length h}" if "(u, C) \<in> set rs" for u C
      using that p(2,3) deep_copier.reach [OF D] by (metis in_set_conv_nth)
    with p(4) load_length [OF p(1)] show ?thesis by fastforce
  qed (use r in \<open>simp add: read_slice_def\<close>)
next
  fix h s t A
  assume r: "read_slice k rd h s = Some (t, A)"
  show "\<exists>y h' A'. copy_slice k cp s h = Some (y, h') \<and> extends h h' \<and>
      read_slice k rd h' y = Some (t, A') \<and> set A' \<subseteq> {length h..<length h'}"
  proof (cases s)
    case (Some s')
    obtain x off n where s': "s' = (x, off, n)" by (cases s')
    from r Some s' obtain xs rs where p: "load k h x = Some xs" "off + n \<le> length xs" "length rs = n"
      "\<forall>j < n. rd h (xs ! (off + j)) = Some (rs ! j)" "t = TList (map fst rs)"
      by (auto simp: read_slice_Some)
    let ?h1 = "h @ [mk k (replicate n (zero k))]"
    have "copied rd k h rs 0 ?h1" using load_make [OF k] p(3) by (auto simp: copied_def)
    then obtain h' where h': "copy_elems k cp x off (length h) 0 n ?h1 = Some h'" "copied rd k h rs n h'"
      using copy_elems_copied [OF D k p(1), of off rs 0 ?h1 n] p(2-4) by auto
    then obtain ys where ys: "extends h h'" "load k h' (length h) = Some ys" "length ys = n"
      "\<forall>j < n. \<exists>B. rd h' (ys ! j) = Some (fst (rs ! j), B) \<and> set B \<subseteq> {Suc (length h)..<length h'}"
      using p(3) by (auto simp: copied_def)
    from ys(4) obtain B where B: "\<forall>j < n. rd h' (ys ! j) = Some (fst (rs ! j), B j) \<and> set (B j) \<subseteq> {Suc (length h)..<length h'}"
      by metis
    let ?rs = "map (\<lambda>j. (fst (rs ! j), B j)) [0..<n]"
    have "map fst ?rs = map fst rs" using p(3) by (simp add: list_eq_iff_nth_eq)
    then have "read_slice k rd h' (Some (length h, 0, n)) = Some (t, length h # concat (map snd ?rs))"
      unfolding read_slice_Some using ys(2,3) B p(5)
      by (intro exI [of _ ys] exI [of _ ?rs]) simp
    moreover have "set (length h # concat (map snd ?rs)) \<subseteq> {length h..<length h'}"
      using B load_length [OF ys(2)] by fastforce
    moreover have "copy_slice k cp s h = Some (Some (length h, 0, n), h')"
      using h'(1) Some s' by (simp add: copy_slice_def make_def)
    ultimately show ?thesis using ys(1) by blast
  qed (use r in \<open>simp add: read_slice_def copy_slice_def\<close>)
qed

text \<open>
  A value that is some references and the rest: copying it is copying the references. \<open>refs\<close> are
  the references of a value, \<open>with s r\<close> is \<open>s\<close> with the references \<open>r\<close>.
\<close>

lemma deep_refs:
  assumes D: "deep_copier rd cp"
    and rd': "\<And>h s. rd' h s = map_option (\<lambda>(t, A). (wrap s t, A)) (rd h (refs s))"
    and cp': "\<And>s h. cp' s h = map_option (\<lambda>(r, h'). (with_refs s r, h')) (cp (refs s) h)"
    and upd: "\<And>s r h h'. cp (refs s) h = Some (r, h') \<Longrightarrow> refs (with_refs s r) = r \<and> wrap (with_refs s r) = wrap s"
  shows "deep_copier rd' cp'"
proof (rule deep_copierI)
  fix h s t A h'
  assume r: "rd' h s = Some (t, A)" and a: "agrees (set A) h h'"
  from r obtain u where u: "rd h (refs s) = Some (u, A)" "t = wrap s u" unfolding rd' by auto
  show "rd' h' s = Some (t, A)" unfolding rd' deep_copier.frame [OF D u(1) a] using u(2) by simp
next
  fix h s t A
  assume r: "rd' h s = Some (t, A)"
  then obtain u where u: "rd h (refs s) = Some (u, A)" "t = wrap s u" unfolding rd' by auto
  show "set A \<subseteq> {..<length h}" by (rule deep_copier.reach [OF D u(1)])
  from deep_copier.copies [OF D u(1)] obtain r h' A' where c: "cp (refs s) h = Some (r, h')" "extends h h'"
    "rd h' r = Some (u, A')" "set A' \<subseteq> {length h..<length h'}" by blast
  from upd [OF c(1)] c u(2) show "\<exists>y h' A'. cp' s h = Some (y, h') \<and> extends h h' \<and>
      rd' h' y = Some (t, A') \<and> set A' \<subseteq> {length h..<length h'}"
    unfolding rd' cp' by (intro exI [of _ "with_refs s r"] exI [of _ h'] exI [of _ A']) simp
qed

text \<open>A pointer is copied as the slice of length 1.\<close>

lemma read_ptr_slice:
  "read_ptr k rd h p = read_slice k rd h (map_option (\<lambda>(a, i). (a, i, 1)) p)"
proof (cases p)
  case (Some q)
  obtain a i where q: "q = (a, i)" by (cases q)
  show ?thesis
  proof (cases "elem k h a i")
    case None
    then show ?thesis using Some q
      by (cases "load k h a") (auto simp: read_ptr_def read_slice_def elem_def split: if_splits)
  next
    case (Some x)
    then obtain xs where xs: "load k h a = Some xs" "i < length xs" "x = xs ! i" by (auto simp: elem_load)
    have "take (Suc 0) (drop i xs) = [x]" using Cons_nth_drop_Suc [OF xs(2)] xs(3) by (metis take_Suc_Cons take_0)
    with xs(1,2) Some \<open>p = Some q\<close> q show ?thesis
      by (cases "rd h x") (simp_all add: read_ptr_def read_slice_def split: prod.split)
  qed
qed (simp add: read_ptr_def read_slice_def)

lemma copy_ptr_slice:
  "copy_ptr k cp p h =
    map_option (\<lambda>(r, h'). (map_option (\<lambda>(a, i, n). (a, i)) r, h')) (copy_slice k cp (map_option (\<lambda>(a, i). (a, i, 1)) p) h)"
proof (cases p)
  case (Some q)
  obtain a i where q: "q = (a, i)" by (cases q)
  show ?thesis using Some q
    by (auto simp: copy_ptr_def copy_slice_def make_def split: bind_splits)
qed (simp add: copy_ptr_def copy_slice_def)

lemma deep_ptr:
  assumes "deep_copier rd cp" and "kind_ok k"
  shows "deep_copier (read_ptr k rd) (copy_ptr k cp)"
proof (rule deep_refs [OF deep_slice [OF assms], where wrap = "\<lambda>_ t. t"])
  show "read_ptr k rd h s = map_option (\<lambda>(t, A). (t, A)) (read_slice k rd h (map_option (\<lambda>(a, i). (a, i, 1)) s))" for h s
    by (simp add: read_ptr_slice option.map_id)
  show "copy_ptr k cp s h = map_option (\<lambda>(r, h'). (map_option (\<lambda>(a, i, n). (a, i)) r, h'))
      (copy_slice k cp (map_option (\<lambda>(a, i). (a, i, 1)) s) h)" for s h
    by (rule copy_ptr_slice)
  show "map_option (\<lambda>(a, i). (a, i, 1)) (map_option (\<lambda>(a, i, n). (a, i)) r) = r \<and> (\<lambda>t. t) = (\<lambda>t. t)"
    if "copy_slice k cp (map_option (\<lambda>(a, i). (a, i, 1)) s) h = Some (r, h')" for s r h h'
    using that by (auto simp: copy_slice_def make_def split: option.splits bind_splits prod.splits)
qed

lemma map_of_copied_map:
  assumes "go_wf g" and "set keys = dom (map_of g)"
  shows "map_of (fold (\<lambda>key. go_put key (go_get_str g key)) keys []) = map_of g"
proof -
  have "map_of (fold (\<lambda>key. go_put key (go_get_str g key)) keys m) =
      (\<lambda>x. if x \<in> set keys then Some (go_get_str g x) else map_of m x)" for m
    by (induction keys arbitrary: m) (auto simp: fun_eq_iff)
  then show ?thesis using assms(2) by (auto simp: fun_eq_iff go_get_str_def domIff split: option.split)
qed

lemma go_wf_copied_map: "go_wf m \<Longrightarrow> go_wf (fold (\<lambda>key. go_put key (f key)) keys m)"
  by (induction keys arbitrary: m) simp_all

lemma deep_map:
  assumes k: "kind_ok k" and ord: "fair_orders ord"
  shows "deep_copier (read_map k) (copy_map k ord)"
proof (rule deep_copierI)
  fix h m t A h'
  assume "read_map k h m = Some (t, A)" "agrees (set A) h h'"
  then show "read_map k h' m = Some (t, A)"
    by (auto simp: read_map_def elem_def load_def agrees_def split: option.splits bind_splits if_splits)
next
  fix h m t A
  assume "read_map k h m = Some (t, A)"
  then show "set A \<subseteq> {..<length h}"
    by (auto simp: read_map_def elem_def load_def split: option.splits bind_splits if_splits)
next
  fix h m t A
  assume r: "read_map k h m = Some (t, A)"
  show "\<exists>y h' A'. copy_map k ord m h = Some (y, h') \<and> extends h h' \<and>
      read_map k h' y = Some (t, A') \<and> set A' \<subseteq> {length h..<length h'}"
  proof (cases m)
    case (Some a)
    with r obtain g where g: "elem k h a 0 = Some g" "go_wf g" "t = TDict (map_of g)"
      by (auto simp: read_map_def split: bind_splits if_splits)
    let ?keys = "name_order ord (length h) (go_keys g)"
    let ?g = "fold (\<lambda>key. go_put key (go_get_str g key)) ?keys []"
    have "set ?keys = dom (map_of g)" using ord g(2) by (simp add: fair_orders_def go_wf_def)
    then have "map_of ?g = map_of g" by (rule map_of_copied_map [OF g(2)])
    moreover have "elem k (h @ [mk k [?g]]) (length h) 0 = Some ?g" using load_make [OF k] by (simp add: elem_load)
    ultimately have "read_map k (h @ [mk k [?g]]) (Some (length h)) = Some (t, [length h])"
      using g(3) by (simp add: read_map_def go_wf_copied_map)
    with g(1) Some show ?thesis by (auto simp: copy_map_def Let_def)
  qed (use r in \<open>simp add: read_map_def copy_map_def\<close>)
qed

end
