(* ===== verification/Api_Types.thy ===== *)
theory Api_Types
  imports Go_Heap
begin

text \<open>
  The API types of \<open>pkg/apis/lvscontroller/v1alpha1/types.go\<close> and the metadata types of
  \<open>k8s.io/apimachinery/pkg/apis/meta/v1\<close> they embed, as structs in the memory of \<open>Go_Heap\<close>: a
  field of a slice, map or pointer type is a reference. \<open>obj\<close> is the sum of the arrays they
  live in. The location of a time is a pointer to a table that never changes.
\<close>

section \<open>Metadata\<close>

record Time =
  t_wall :: "64 word"
  t_ext :: "64 word"
  t_loc :: "nat option"

record TypeMeta =
  tm_Kind :: string
  tm_APIVersion :: string

record ListMeta =
  ls_SelfLink :: string
  ls_ResourceVersion :: string
  ls_Continue :: string

record OwnerReference =
  or_APIVersion :: string
  or_Kind :: string
  or_Name :: string
  or_UID :: string
  or_Controller :: ptr
  or_BlockOwnerDeletion :: ptr

record Initializer =
  iz_Name :: string

record StatusCause =
  sc_Type :: string
  sc_Message :: string
  sc_Field :: string

record StatusDetails =
  sd_Name :: string
  sd_Group :: string
  sd_Kind :: string
  sd_UID :: string
  sd_Causes :: slice
  sd_RetryAfterSeconds :: "32 word"

record Status =
  st_TypeMeta :: TypeMeta
  st_ListMeta :: ListMeta
  st_Status :: string
  st_Message :: string
  st_Reason :: string
  st_Details :: ptr
  st_Code :: "32 word"

record Initializers =
  is_Pending :: slice
  is_Result :: ptr

record ObjectMeta =
  om_Name :: string
  om_GenerateName :: string
  om_Namespace :: string
  om_SelfLink :: string
  om_UID :: string
  om_ResourceVersion :: string
  om_Generation :: "64 word"
  om_CreationTimestamp :: Time
  om_DeletionTimestamp :: ptr
  om_DeletionGracePeriodSeconds :: ptr
  om_Labels :: mapref
  om_Annotations :: mapref
  om_OwnerReferences :: slice
  om_Initializers :: ptr
  om_Finalizers :: slice
  om_ClusterName :: string

section \<open>Configurations\<close>

record IptablesMangle =
  im_TypeMeta :: TypeMeta
  im_ObjectMeta :: ObjectMeta
  im_Port :: slice

record TCPService =
  ts_TypeMeta :: TypeMeta
  ts_ObjectMeta :: ObjectMeta
  ts_Name :: string
  ts_Namespace :: string
  ts_Port :: string
  ts_Protocol :: string
  ts_PersistConns :: u32
  ts_FWMark :: u32
  ts_Iptables :: slice

record UDPService =
  us_TypeMeta :: TypeMeta
  us_ObjectMeta :: ObjectMeta
  us_Name :: string
  us_Namespace :: string
  us_Port :: u32
  us_Protocol :: string

record Configuration =
  cf_TypeMeta :: TypeMeta
  cf_ObjectMeta :: ObjectMeta
  cf_TCPEndpoints :: slice
  cf_UDPEndpoints :: slice

record ConfigurationList =
  cl_TypeMeta :: TypeMeta
  cl_ListMeta :: ListMeta
  cl_Items :: slice

section \<open>Arrays\<close>

datatype obj =
    Times "Time list"
  | Int64s "64 word list"
  | Bools "bool list"
  | Strings "string list"
  | StrMap "(string, string) gomap list"
  | OwnerReferences "OwnerReference list"
  | InitializerArr "Initializer list"
  | StatusCauses "StatusCause list"
  | StatusDetailss "StatusDetails list"
  | Statuses "Status list"
  | Initializerss "Initializers list"
  | Uint32s "u32 list"
  | IptablesMangles "IptablesMangle list"
  | TCPServices "TCPService list"
  | UDPServices "UDPService list"
  | Configurations "Configuration list"
  | ConfigurationLists "ConfigurationList list"

section \<open>Zero values\<close>

definition zero_Time :: Time where
  "zero_Time = \<lparr>t_wall = 0, t_ext = 0, t_loc = None\<rparr>"

definition zero_TypeMeta :: TypeMeta where
  "zero_TypeMeta = \<lparr>tm_Kind = [], tm_APIVersion = []\<rparr>"

definition zero_ListMeta :: ListMeta where
  "zero_ListMeta = \<lparr>ls_SelfLink = [], ls_ResourceVersion = [], ls_Continue = []\<rparr>"

definition zero_OwnerReference :: OwnerReference where
  "zero_OwnerReference = \<lparr>or_APIVersion = [], or_Kind = [], or_Name = [], or_UID = [],
     or_Controller = None, or_BlockOwnerDeletion = None\<rparr>"

definition zero_Initializer :: Initializer where
  "zero_Initializer = \<lparr>iz_Name = []\<rparr>"

definition zero_StatusCause :: StatusCause where
  "zero_StatusCause = \<lparr>sc_Type = [], sc_Message = [], sc_Field = []\<rparr>"

definition zero_StatusDetails :: StatusDetails where
  "zero_StatusDetails = \<lparr>sd_Name = [], sd_Group = [], sd_Kind = [], sd_UID = [], sd_Causes = None,
     sd_RetryAfterSeconds = 0\<rparr>"

definition zero_Status :: Status where
  "zero_Status = \<lparr>st_TypeMeta = zero_TypeMeta, st_ListMeta = zero_ListMeta, st_Status = [], st_Message = [],
     st_Reason = [], st_Details = None, st_Code = 0\<rparr>"

definition zero_Initializers :: Initializers where
  "zero_Initializers = \<lparr>is_Pending = None, is_Result = None\<rparr>"

definition zero_ObjectMeta :: ObjectMeta where
  "zero_ObjectMeta = \<lparr>om_Name = [], om_GenerateName = [], om_Namespace = [], om_SelfLink = [], om_UID = [],
     om_ResourceVersion = [], om_Generation = 0, om_CreationTimestamp = zero_Time, om_DeletionTimestamp = None,
     om_DeletionGracePeriodSeconds = None, om_Labels = None, om_Annotations = None, om_OwnerReferences = None,
     om_Initializers = None, om_Finalizers = None, om_ClusterName = []\<rparr>"

definition zero_IptablesMangle :: IptablesMangle where
  "zero_IptablesMangle = \<lparr>im_TypeMeta = zero_TypeMeta, im_ObjectMeta = zero_ObjectMeta, im_Port = None\<rparr>"

definition zero_TCPService :: TCPService where
  "zero_TCPService = \<lparr>ts_TypeMeta = zero_TypeMeta, ts_ObjectMeta = zero_ObjectMeta, ts_Name = [], ts_Namespace = [],
     ts_Port = [], ts_Protocol = [], ts_PersistConns = 0, ts_FWMark = 0, ts_Iptables = None\<rparr>"

definition zero_UDPService :: UDPService where
  "zero_UDPService = \<lparr>us_TypeMeta = zero_TypeMeta, us_ObjectMeta = zero_ObjectMeta, us_Name = [], us_Namespace = [],
     us_Port = 0, us_Protocol = []\<rparr>"

definition zero_Configuration :: Configuration where
  "zero_Configuration = \<lparr>cf_TypeMeta = zero_TypeMeta, cf_ObjectMeta = zero_ObjectMeta, cf_TCPEndpoints = None,
     cf_UDPEndpoints = None\<rparr>"

definition zero_ConfigurationList :: ConfigurationList where
  "zero_ConfigurationList = \<lparr>cl_TypeMeta = zero_TypeMeta, cl_ListMeta = zero_ListMeta, cl_Items = None\<rparr>"

section \<open>Kinds\<close>

named_theorems kinds

definition kTime :: "(Time, obj) kind" where
  [kinds]: "kTime = \<lparr>mk = Times, un = (\<lambda>ob. case ob of Times xs \<Rightarrow> Some xs | _ \<Rightarrow> None), zero = zero_Time\<rparr>"

definition kInt64 :: "(64 word, obj) kind" where
  [kinds]: "kInt64 = \<lparr>mk = Int64s, un = (\<lambda>ob. case ob of Int64s xs \<Rightarrow> Some xs | _ \<Rightarrow> None), zero = 0\<rparr>"

definition kBool :: "(bool, obj) kind" where
  [kinds]: "kBool = \<lparr>mk = Bools, un = (\<lambda>ob. case ob of Bools xs \<Rightarrow> Some xs | _ \<Rightarrow> None), zero = False\<rparr>"

definition kString :: "(string, obj) kind" where
  [kinds]: "kString = \<lparr>mk = Strings, un = (\<lambda>ob. case ob of Strings xs \<Rightarrow> Some xs | _ \<Rightarrow> None), zero = []\<rparr>"

definition kStrMap :: "((string, string) gomap, obj) kind" where
  [kinds]: "kStrMap = \<lparr>mk = StrMap, un = (\<lambda>ob. case ob of StrMap xs \<Rightarrow> Some xs | _ \<Rightarrow> None), zero = []\<rparr>"

definition kOwnerReference :: "(OwnerReference, obj) kind" where
  [kinds]: "kOwnerReference = \<lparr>mk = OwnerReferences,
     un = (\<lambda>ob. case ob of OwnerReferences xs \<Rightarrow> Some xs | _ \<Rightarrow> None), zero = zero_OwnerReference\<rparr>"

definition kInitializer :: "(Initializer, obj) kind" where
  [kinds]: "kInitializer = \<lparr>mk = InitializerArr,
     un = (\<lambda>ob. case ob of InitializerArr xs \<Rightarrow> Some xs | _ \<Rightarrow> None), zero = zero_Initializer\<rparr>"

definition kStatusCause :: "(StatusCause, obj) kind" where
  [kinds]: "kStatusCause = \<lparr>mk = StatusCauses,
     un = (\<lambda>ob. case ob of StatusCauses xs \<Rightarrow> Some xs | _ \<Rightarrow> None), zero = zero_StatusCause\<rparr>"

definition kStatusDetails :: "(StatusDetails, obj) kind" where
  [kinds]: "kStatusDetails = \<lparr>mk = StatusDetailss,
     un = (\<lambda>ob. case ob of StatusDetailss xs \<Rightarrow> Some xs | _ \<Rightarrow> None), zero = zero_StatusDetails\<rparr>"

definition kStatus :: "(Status, obj) kind" where
  [kinds]: "kStatus = \<lparr>mk = Statuses,
     un = (\<lambda>ob. case ob of Statuses xs \<Rightarrow> Some xs | _ \<Rightarrow> None), zero = zero_Status\<rparr>"

definition kInitializers :: "(Initializers, obj) kind" where
  [kinds]: "kInitializers = \<lparr>mk = Initializerss,
     un = (\<lambda>ob. case ob of Initializerss xs \<Rightarrow> Some xs | _ \<Rightarrow> None), zero = zero_Initializers\<rparr>"

definition kUint32 :: "(u32, obj) kind" where
  [kinds]: "kUint32 = \<lparr>mk = Uint32s, un = (\<lambda>ob. case ob of Uint32s xs \<Rightarrow> Some xs | _ \<Rightarrow> None), zero = 0\<rparr>"

definition kIptablesMangle :: "(IptablesMangle, obj) kind" where
  [kinds]: "kIptablesMangle = \<lparr>mk = IptablesMangles,
     un = (\<lambda>ob. case ob of IptablesMangles xs \<Rightarrow> Some xs | _ \<Rightarrow> None), zero = zero_IptablesMangle\<rparr>"

definition kTCPService :: "(TCPService, obj) kind" where
  [kinds]: "kTCPService = \<lparr>mk = TCPServices,
     un = (\<lambda>ob. case ob of TCPServices xs \<Rightarrow> Some xs | _ \<Rightarrow> None), zero = zero_TCPService\<rparr>"

definition kUDPService :: "(UDPService, obj) kind" where
  [kinds]: "kUDPService = \<lparr>mk = UDPServices,
     un = (\<lambda>ob. case ob of UDPServices xs \<Rightarrow> Some xs | _ \<Rightarrow> None), zero = zero_UDPService\<rparr>"

definition kConfiguration :: "(Configuration, obj) kind" where
  [kinds]: "kConfiguration = \<lparr>mk = Configurations,
     un = (\<lambda>ob. case ob of Configurations xs \<Rightarrow> Some xs | _ \<Rightarrow> None), zero = zero_Configuration\<rparr>"

definition kConfigurationList :: "(ConfigurationList, obj) kind" where
  [kinds]: "kConfigurationList = \<lparr>mk = ConfigurationLists,
     un = (\<lambda>ob. case ob of ConfigurationLists xs \<Rightarrow> Some xs | _ \<Rightarrow> None), zero = zero_ConfigurationList\<rparr>"

lemma kinds_ok [simp]:
  "kind_ok kTime" "kind_ok kInt64" "kind_ok kBool" "kind_ok kString" "kind_ok kStrMap" "kind_ok kOwnerReference"
  "kind_ok kInitializer" "kind_ok kStatusCause" "kind_ok kStatusDetails" "kind_ok kStatus" "kind_ok kInitializers"
  "kind_ok kUint32" "kind_ok kIptablesMangle" "kind_ok kTCPService" "kind_ok kUDPService" "kind_ok kConfiguration"
  "kind_ok kConfigurationList"
  by (simp_all add: kind_ok_def kinds)

end
