(* ===== verification/Deep_Copy.thy ===== *)
theory Deep_Copy
  imports Api_Types
begin

text \<open>
  The deep-copy functions of \<open>zz_generated.deepcopy.go\<close>, and those of the metadata types they
  call. \<open>DeepCopyInto\<close> is a function from the value of \<open>*in\<close> to the value it leaves in \<open>*out\<close>
  and the memory after its allocations; a method on a pointer takes and gives a pointer. \<open>read_\<close>
  functions follow all references of a value. Each type is an interpretation of \<open>deep_copier\<close>.
\<close>

section \<open>Metadata\<close>

definition OwnerReference_DeepCopyInto :: "(OwnerReference, obj) copier" where
  "OwnerReference_DeepCopyInto src h = do {
     (c, h1) \<leftarrow> copy_ptr kBool assign (or_Controller src) h;
     (b, h2) \<leftarrow> copy_ptr kBool assign (or_BlockOwnerDeletion src) h1;
     Some (src\<lparr>or_Controller := c, or_BlockOwnerDeletion := b\<rparr>, h2)
   }"

definition StatusDetails_DeepCopyInto :: "(StatusDetails, obj) copier" where
  "StatusDetails_DeepCopyInto src h = do {
     (c, h1) \<leftarrow> copy_slice kStatusCause assign (sd_Causes src) h;
     Some (src\<lparr>sd_Causes := c\<rparr>, h1)
   }"

definition Status_DeepCopyInto :: "(Status, obj) copier" where
  "Status_DeepCopyInto src h = do {
     (d, h1) \<leftarrow> copy_ptr kStatusDetails StatusDetails_DeepCopyInto (st_Details src) h;
     Some (src\<lparr>st_Details := d\<rparr>, h1)
   }"

definition Initializers_DeepCopyInto :: "(Initializers, obj) copier" where
  "Initializers_DeepCopyInto src h = do {
     (p, h1) \<leftarrow> copy_slice kInitializer assign (is_Pending src) h;
     (r, h2) \<leftarrow> copy_ptr kStatus Status_DeepCopyInto (is_Result src) h1;
     Some (src\<lparr>is_Pending := p, is_Result := r\<rparr>, h2)
   }"

definition ObjectMeta_DeepCopyInto :: "orders \<Rightarrow> (ObjectMeta, obj) copier" where
  "ObjectMeta_DeepCopyInto ord src h = do {
     (dt, h1) \<leftarrow> copy_ptr kTime assign (om_DeletionTimestamp src) h;
     (dg, h2) \<leftarrow> copy_ptr kInt64 assign (om_DeletionGracePeriodSeconds src) h1;
     (la, h3) \<leftarrow> copy_map kStrMap ord (om_Labels src) h2;
     (an, h4) \<leftarrow> copy_map kStrMap ord (om_Annotations src) h3;
     (ow, h5) \<leftarrow> copy_slice kOwnerReference OwnerReference_DeepCopyInto (om_OwnerReferences src) h4;
     (ini, h6) \<leftarrow> copy_ptr kInitializers Initializers_DeepCopyInto (om_Initializers src) h5;
     (fi, h7) \<leftarrow> copy_slice kString assign (om_Finalizers src) h6;
     Some (src\<lparr>om_DeletionTimestamp := dt, om_DeletionGracePeriodSeconds := dg, om_Labels := la,
       om_Annotations := an, om_OwnerReferences := ow, om_Initializers := ini, om_Finalizers := fi\<rparr>, h7)
   }"

section \<open>Configurations\<close>

definition IptablesMangle_DeepCopyInto :: "orders \<Rightarrow> (IptablesMangle, obj) copier" where
  "IptablesMangle_DeepCopyInto ord src h = do {
     let out = src\<lparr>im_TypeMeta := im_TypeMeta src\<rparr>;
     (m, h1) \<leftarrow> ObjectMeta_DeepCopyInto ord (im_ObjectMeta src) h;
     (p, h2) \<leftarrow> copy_slice kUint32 assign (im_Port src) h1;
     Some (out\<lparr>im_ObjectMeta := m, im_Port := p\<rparr>, h2)
   }"

definition TCPService_DeepCopyInto :: "orders \<Rightarrow> (TCPService, obj) copier" where
  "TCPService_DeepCopyInto ord src h = do {
     let out = src\<lparr>ts_TypeMeta := ts_TypeMeta src\<rparr>;
     (m, h1) \<leftarrow> ObjectMeta_DeepCopyInto ord (ts_ObjectMeta src) h;
     (i, h2) \<leftarrow> copy_slice kIptablesMangle (IptablesMangle_DeepCopyInto ord) (ts_Iptables src) h1;
     Some (out\<lparr>ts_ObjectMeta := m, ts_Iptables := i\<rparr>, h2)
   }"

definition UDPService_DeepCopyInto :: "orders \<Rightarrow> (UDPService, obj) copier" where
  "UDPService_DeepCopyInto ord src h = do {
     let out = src\<lparr>us_TypeMeta := us_TypeMeta src\<rparr>;
     (m, h1) \<leftarrow> ObjectMeta_DeepCopyInto ord (us_ObjectMeta src) h;
     Some (out\<lparr>us_ObjectMeta := m\<rparr>, h1)
   }"

definition Configuration_DeepCopyInto :: "orders \<Rightarrow> (Configuration, obj) copier" where
  "Configuration_DeepCopyInto ord src h = do {
     let out = src\<lparr>cf_TypeMeta := cf_TypeMeta src\<rparr>;
     (m, h1) \<leftarrow> ObjectMeta_DeepCopyInto ord (cf_ObjectMeta src) h;
     (t, h2) \<leftarrow> copy_slice kTCPService (TCPService_DeepCopyInto ord) (cf_TCPEndpoints src) h1;
     (u, h3) \<leftarrow> copy_slice kUDPService (UDPService_DeepCopyInto ord) (cf_UDPEndpoints src) h2;
     Some (out\<lparr>cf_ObjectMeta := m, cf_TCPEndpoints := t, cf_UDPEndpoints := u\<rparr>, h3)
   }"

definition ConfigurationList_DeepCopyInto :: "orders \<Rightarrow> (ConfigurationList, obj) copier" where
  "ConfigurationList_DeepCopyInto ord src h = do {
     let out = src\<lparr>cl_TypeMeta := cl_TypeMeta src, cl_ListMeta := cl_ListMeta src\<rparr>;
     (i, h1) \<leftarrow> copy_slice kConfiguration (Configuration_DeepCopyInto ord) (cl_Items src) h;
     Some (out\<lparr>cl_Items := i\<rparr>, h1)
   }"

text \<open>The methods \<open>DeepCopy\<close>: nil for a nil receiver, else a new struct.\<close>

definition IptablesMangle_DeepCopy :: "orders \<Rightarrow> (ptr, obj) copier" where
  "IptablesMangle_DeepCopy ord = copy_ptr kIptablesMangle (IptablesMangle_DeepCopyInto ord)"

definition TCPService_DeepCopy :: "orders \<Rightarrow> (ptr, obj) copier" where
  "TCPService_DeepCopy ord = copy_ptr kTCPService (TCPService_DeepCopyInto ord)"

definition UDPService_DeepCopy :: "orders \<Rightarrow> (ptr, obj) copier" where
  "UDPService_DeepCopy ord = copy_ptr kUDPService (UDPService_DeepCopyInto ord)"

definition Configuration_DeepCopy :: "orders \<Rightarrow> (ptr, obj) copier" where
  "Configuration_DeepCopy ord = copy_ptr kConfiguration (Configuration_DeepCopyInto ord)"

definition ConfigurationList_DeepCopy :: "orders \<Rightarrow> (ptr, obj) copier" where
  "ConfigurationList_DeepCopy ord = copy_ptr kConfigurationList (ConfigurationList_DeepCopyInto ord)"

text \<open>
  A value of the interface \<open>runtime.Object\<close> is nil (\<open>None\<close>) or a pointer of one of the two
  registered types; a nil pointer in it would not be the nil interface.
\<close>

datatype Object = ObjConfiguration ptr | ObjConfigurationList ptr

definition Configuration_DeepCopyObject :: "orders \<Rightarrow> ptr \<Rightarrow> obj heap \<Rightarrow> (Object option \<times> obj heap) option" where
  "Configuration_DeepCopyObject ord p h = do {
     (c, h1) \<leftarrow> Configuration_DeepCopy ord p h;
     Some (if c \<noteq> None then Some (ObjConfiguration c) else None, h1)
   }"

definition ConfigurationList_DeepCopyObject :: "orders \<Rightarrow> ptr \<Rightarrow> obj heap \<Rightarrow> (Object option \<times> obj heap) option" where
  "ConfigurationList_DeepCopyObject ord p h = do {
     (c, h1) \<leftarrow> ConfigurationList_DeepCopy ord p h;
     Some (if c \<noteq> None then Some (ObjConfigurationList c) else None, h1)
   }"

section \<open>Reading\<close>

definition bool_tree :: "bool \<Rightarrow> tree" where "bool_tree b = TNums [if b then 1 else 0]"
definition string_tree :: "string \<Rightarrow> tree" where "string_tree s = TStrs [s]"
definition word_tree :: "'l::len word \<Rightarrow> tree" where "word_tree x = TNums [uint x]"

definition time_tree :: "Time \<Rightarrow> tree" where
  "time_tree t = TNums [uint (t_wall t), uint (t_ext t), case t_loc t of None \<Rightarrow> - 1 | Some n \<Rightarrow> int n]"

definition type_meta_tree :: "TypeMeta \<Rightarrow> tree" where
  "type_meta_tree t = TStrs [tm_Kind t, tm_APIVersion t]"

definition list_meta_tree :: "ListMeta \<Rightarrow> tree" where
  "list_meta_tree l = TStrs [ls_SelfLink l, ls_ResourceVersion l, ls_Continue l]"

definition read_OwnerReference :: "(OwnerReference, obj) reader" where
  "read_OwnerReference h s = map_option
     (\<lambda>(t, A). (TPair (TStrs [or_APIVersion s, or_Kind s, or_Name s, or_UID s]) t, A))
     (read_pair (read_ptr kBool (read_leaf bool_tree)) (read_ptr kBool (read_leaf bool_tree)) h
        (or_Controller s, or_BlockOwnerDeletion s))"

definition cause_tree :: "StatusCause \<Rightarrow> tree" where
  "cause_tree c = TStrs [sc_Type c, sc_Message c, sc_Field c]"

definition read_StatusDetails :: "(StatusDetails, obj) reader" where
  "read_StatusDetails h s = map_option
     (\<lambda>(t, A). (TList [TStrs [sd_Name s, sd_Group s, sd_Kind s, sd_UID s], word_tree (sd_RetryAfterSeconds s), t], A))
     (read_slice kStatusCause (read_leaf cause_tree) h (sd_Causes s))"

definition read_Status :: "(Status, obj) reader" where
  "read_Status h s = map_option
     (\<lambda>(t, A). (TList [type_meta_tree (st_TypeMeta s), list_meta_tree (st_ListMeta s),
        TStrs [st_Status s, st_Message s, st_Reason s], word_tree (st_Code s), t], A))
     (read_ptr kStatusDetails read_StatusDetails h (st_Details s))"

definition read_Initializers :: "(Initializers, obj) reader" where
  "read_Initializers h s =
     read_pair (read_slice kInitializer (read_leaf (\<lambda>i. string_tree (iz_Name i)))) (read_ptr kStatus read_Status) h
       (is_Pending s, is_Result s)"

definition object_meta_refs :: "ObjectMeta \<Rightarrow> ptr \<times> ptr \<times> mapref \<times> mapref \<times> slice \<times> ptr \<times> slice" where
  "object_meta_refs s = (om_DeletionTimestamp s, om_DeletionGracePeriodSeconds s, om_Labels s, om_Annotations s,
     om_OwnerReferences s, om_Initializers s, om_Finalizers s)"

definition object_meta_tree :: "ObjectMeta \<Rightarrow> tree" where
  "object_meta_tree s = TList [TStrs [om_Name s, om_GenerateName s, om_Namespace s, om_SelfLink s, om_UID s,
     om_ResourceVersion s, om_ClusterName s], word_tree (om_Generation s), time_tree (om_CreationTimestamp s)]"

definition read_ObjectMeta :: "(ObjectMeta, obj) reader" where
  "read_ObjectMeta h s = map_option (\<lambda>(t, A). (TPair (object_meta_tree s) t, A))
     (read_pair (read_ptr kTime (read_leaf time_tree))
       (read_pair (read_ptr kInt64 (read_leaf word_tree))
         (read_pair (read_map kStrMap)
           (read_pair (read_map kStrMap)
             (read_pair (read_slice kOwnerReference read_OwnerReference)
               (read_pair (read_ptr kInitializers read_Initializers)
                 (read_slice kString (read_leaf string_tree))))))) h (object_meta_refs s))"

definition read_IptablesMangle :: "(IptablesMangle, obj) reader" where
  "read_IptablesMangle h s = map_option (\<lambda>(t, A). (TPair (type_meta_tree (im_TypeMeta s)) t, A))
     (read_pair read_ObjectMeta (read_slice kUint32 (read_leaf word_tree)) h (im_ObjectMeta s, im_Port s))"

definition read_TCPService :: "(TCPService, obj) reader" where
  "read_TCPService h s = map_option
     (\<lambda>(t, A). (TList [type_meta_tree (ts_TypeMeta s), TStrs [ts_Name s, ts_Namespace s, ts_Port s, ts_Protocol s],
        word_tree (ts_PersistConns s), word_tree (ts_FWMark s), t], A))
     (read_pair read_ObjectMeta (read_slice kIptablesMangle read_IptablesMangle) h (ts_ObjectMeta s, ts_Iptables s))"

definition read_UDPService :: "(UDPService, obj) reader" where
  "read_UDPService h s = map_option
     (\<lambda>(t, A). (TList [type_meta_tree (us_TypeMeta s), TStrs [us_Name s, us_Namespace s, us_Protocol s],
        word_tree (us_Port s), t], A))
     (read_ObjectMeta h (us_ObjectMeta s))"

definition read_Configuration :: "(Configuration, obj) reader" where
  "read_Configuration h s = map_option (\<lambda>(t, A). (TPair (type_meta_tree (cf_TypeMeta s)) t, A))
     (read_pair read_ObjectMeta
       (read_pair (read_slice kTCPService read_TCPService) (read_slice kUDPService read_UDPService)) h
       (cf_ObjectMeta s, cf_TCPEndpoints s, cf_UDPEndpoints s))"

definition read_ConfigurationList :: "(ConfigurationList, obj) reader" where
  "read_ConfigurationList h s = map_option
     (\<lambda>(t, A). (TList [type_meta_tree (cl_TypeMeta s), list_meta_tree (cl_ListMeta s), t], A))
     (read_slice kConfiguration read_Configuration h (cl_Items s))"

section \<open>Every type is copied deeply\<close>

lemma map_option_do: "map_option f (do {x \<leftarrow> m; g x}) = do {x \<leftarrow> m; map_option f (g x)}"
  by (cases m) simp_all

lemma do_Some: "do {x \<leftarrow> m; Some (f x)} = map_option f m"
  by (cases m) simp_all

lemmas copy_simps = copy_pair_def map_option_do do_Some Option.bind_assoc case_prod_unfold option.map_comp comp_def

lemma deep_OwnerReference: "deep_copier read_OwnerReference OwnerReference_DeepCopyInto"
  by (rule deep_refs [OF deep_pair [OF deep_ptr [OF deep_leaf kinds_ok(3)] deep_ptr [OF deep_leaf kinds_ok(3)]]
        read_OwnerReference_def, where with_refs = "\<lambda>s (c, b). s\<lparr>or_Controller := c, or_BlockOwnerDeletion := b\<rparr>"])
     (simp_all add: OwnerReference_DeepCopyInto_def copy_simps)

lemma deep_StatusDetails: "deep_copier read_StatusDetails StatusDetails_DeepCopyInto"
  by (rule deep_refs [OF deep_slice [OF deep_leaf kinds_ok(8)] read_StatusDetails_def,
        where with_refs = "\<lambda>s c. s\<lparr>sd_Causes := c\<rparr>"])
     (simp_all add: StatusDetails_DeepCopyInto_def copy_simps)

lemma deep_Status: "deep_copier read_Status Status_DeepCopyInto"
  by (rule deep_refs [OF deep_ptr [OF deep_StatusDetails kinds_ok(9)] read_Status_def,
        where with_refs = "\<lambda>s d. s\<lparr>st_Details := d\<rparr>"])
     (simp_all add: Status_DeepCopyInto_def copy_simps)

lemma read_Initializers_refs:
  "read_Initializers h s = map_option (\<lambda>(t, A). (t, A))
     (read_pair (read_slice kInitializer (read_leaf (\<lambda>i. string_tree (iz_Name i)))) (read_ptr kStatus read_Status) h
       (is_Pending s, is_Result s))"
  by (simp add: read_Initializers_def option.map_id)

lemma deep_Initializers: "deep_copier read_Initializers Initializers_DeepCopyInto"
  by (rule deep_refs [OF deep_pair [OF deep_slice [OF deep_leaf kinds_ok(7)] deep_ptr [OF deep_Status kinds_ok(10)]]
        read_Initializers_refs, where with_refs = "\<lambda>s (p, r). s\<lparr>is_Pending := p, is_Result := r\<rparr>"])
     (simp_all add: Initializers_DeepCopyInto_def copy_simps)

lemma deep_ObjectMeta:
  assumes "fair_orders ord"
  shows "deep_copier read_ObjectMeta (ObjectMeta_DeepCopyInto ord)"
proof -
  note refs = deep_pair [OF deep_ptr [OF deep_leaf kinds_ok(1)] deep_pair [OF deep_ptr [OF deep_leaf kinds_ok(2)]
      deep_pair [OF deep_map [OF kinds_ok(5) assms] deep_pair [OF deep_map [OF kinds_ok(5) assms]
      deep_pair [OF deep_slice [OF deep_OwnerReference kinds_ok(6)]
      deep_pair [OF deep_ptr [OF deep_Initializers kinds_ok(11)] deep_slice [OF deep_leaf kinds_ok(4)]]]]]]]
  show ?thesis
    by (rule deep_refs [OF refs read_ObjectMeta_def,
          where with_refs = "\<lambda>s (dt, dg, la, an, ow, ini, fi). s\<lparr>om_DeletionTimestamp := dt,
            om_DeletionGracePeriodSeconds := dg, om_Labels := la, om_Annotations := an, om_OwnerReferences := ow,
            om_Initializers := ini, om_Finalizers := fi\<rparr>"])
       (simp_all add: ObjectMeta_DeepCopyInto_def object_meta_refs_def object_meta_tree_def copy_simps)
qed

lemma deep_IptablesMangle:
  assumes "fair_orders ord"
  shows "deep_copier read_IptablesMangle (IptablesMangle_DeepCopyInto ord)"
  by (rule deep_refs [OF deep_pair [OF deep_ObjectMeta [OF assms] deep_slice [OF deep_leaf kinds_ok(12)]]
        read_IptablesMangle_def, where with_refs = "\<lambda>s (m, p). s\<lparr>im_ObjectMeta := m, im_Port := p\<rparr>"])
     (simp_all add: IptablesMangle_DeepCopyInto_def copy_simps)

lemma deep_TCPService:
  assumes "fair_orders ord"
  shows "deep_copier read_TCPService (TCPService_DeepCopyInto ord)"
  by (rule deep_refs [OF deep_pair [OF deep_ObjectMeta [OF assms] deep_slice [OF deep_IptablesMangle [OF assms] kinds_ok(13)]]
        read_TCPService_def, where with_refs = "\<lambda>s (m, i). s\<lparr>ts_ObjectMeta := m, ts_Iptables := i\<rparr>"])
     (simp_all add: TCPService_DeepCopyInto_def copy_simps)

lemma deep_UDPService:
  assumes "fair_orders ord"
  shows "deep_copier read_UDPService (UDPService_DeepCopyInto ord)"
  by (rule deep_refs [OF deep_ObjectMeta [OF assms] read_UDPService_def,
        where with_refs = "\<lambda>s m. s\<lparr>us_ObjectMeta := m\<rparr>"])
     (simp_all add: UDPService_DeepCopyInto_def copy_simps)

lemma deep_Configuration:
  assumes "fair_orders ord"
  shows "deep_copier read_Configuration (Configuration_DeepCopyInto ord)"
proof -
  note refs = deep_pair [OF deep_ObjectMeta [OF assms] deep_pair [OF deep_slice [OF deep_TCPService [OF assms] kinds_ok(14)]
      deep_slice [OF deep_UDPService [OF assms] kinds_ok(15)]]]
  show ?thesis
    by (rule deep_refs [OF refs read_Configuration_def,
          where with_refs = "\<lambda>s (m, t, u). s\<lparr>cf_ObjectMeta := m, cf_TCPEndpoints := t, cf_UDPEndpoints := u\<rparr>"])
       (simp_all add: Configuration_DeepCopyInto_def copy_simps)
qed

lemma deep_ConfigurationList:
  assumes "fair_orders ord"
  shows "deep_copier read_ConfigurationList (ConfigurationList_DeepCopyInto ord)"
  by (rule deep_refs [OF deep_slice [OF deep_Configuration [OF assms] kinds_ok(16)] read_ConfigurationList_def,
        where with_refs = "\<lambda>s i. s\<lparr>cl_Items := i\<rparr>"])
     (simp_all add: ConfigurationList_DeepCopyInto_def copy_simps)

interpretation config: deep_copier read_Configuration "Configuration_DeepCopyInto id_orders"
  by (rule deep_Configuration [OF fair_id_orders])

interpretation config_list: deep_copier read_ConfigurationList "ConfigurationList_DeepCopyInto id_orders"
  by (rule deep_ConfigurationList [OF fair_id_orders])

end
