(* ===== verification/Lister.thy ===== *)
theory Lister
  imports Indexer
begin

text \<open>
  The listers of \<open>listers/lvscontroller/v1alpha1/configuration.go\<close> over the cache, with the
  functions \<open>ListAll\<close> and \<open>ListAllByNamespace\<close> of \<open>client-go/tools/cache/listers.go\<close> and the
  generic lister. A selector is its \<open>Matches\<close> on the labels of an object. What the listers
  need of the cache is the locale \<open>object_store\<close>; the store of \<open>Indexer\<close> provides it.
\<close>

section \<open>Listing\<close>

type_synonym selector = "(string, string) gomap \<Rightarrow> bool"

text \<open>The loop that calls \<open>appendFn\<close> on the matching objects, which appends them to \<open>ret\<close>.\<close>

fun append_matching :: "('v object \<Rightarrow> bool) \<Rightarrow> 'v object list \<Rightarrow> 'v object list \<Rightarrow> 'v object list" where
  "append_matching p [] ret = ret"
| "append_matching p (m # ms) ret = append_matching p ms (if p m then ret @ [m] else ret)"

text \<open>The same loop over the items of an index; \<open>meta.Accessor\<close> refuses the nil object of a missing key.\<close>

fun append_indexed :: "('v object \<Rightarrow> bool) \<Rightarrow> 'v object option list \<Rightarrow> 'v object list \<Rightarrow> api_error option \<times> 'v object list" where
  "append_indexed p [] ret = (None, ret)"
| "append_indexed p (None # ms) ret = (Some (OtherError (Errorp ''object does not implement the Object interfaces'')), ret)"
| "append_indexed p (Some m # ms) ret = append_indexed p ms (if p m then ret @ [m] else ret)"

definition ListAll :: "'v object list \<Rightarrow> selector \<Rightarrow> api_error option \<times> 'v object list" where
  "ListAll ms selector = (None, append_matching (\<lambda>m. selector (ob_Labels m)) ms [])"

definition ListAllByNamespace :: "'v object list \<Rightarrow> 'v object option list option \<Rightarrow> string \<Rightarrow> selector
    \<Rightarrow> api_error option \<times> 'v object list" where
  "ListAllByNamespace ms index namespace selector =
     (if namespace = [] then (None, append_matching (\<lambda>m. selector (ob_Labels m)) ms [])
      else case index of
        None \<Rightarrow> (None, append_matching (\<lambda>m. ob_Namespace m = namespace \<and> selector (ob_Labels m)) ms [])
      | Some found \<Rightarrow> append_indexed (\<lambda>m. selector (ob_Labels m)) found [])"

lemma append_matching_filter: "append_matching p ms ret = ret @ filter p ms"
  by (induction ms arbitrary: ret) auto

lemma append_indexed_filter: "append_indexed p (map Some ms) ret = (None, ret @ filter p ms)"
  by (induction ms arbitrary: ret) auto

section \<open>The listers\<close>

record 'v configurationLister =
  cl_indexer :: "'v store"

record 'v configurationNamespaceLister =
  nl_indexer :: "'v store"
  nl_namespace :: string

definition NewConfigurationLister :: "'v store \<Rightarrow> 'v configurationLister" where
  "NewConfigurationLister st = \<lparr>cl_indexer = st\<rparr>"

definition configurationLister_List :: "orders \<Rightarrow> 'v configurationLister \<Rightarrow> selector \<Rightarrow> api_error option \<times> 'v object list" where
  "configurationLister_List ord s selector = ListAll (store_List ord (cl_indexer s)) selector"

definition configurationLister_Configurations :: "'v configurationLister \<Rightarrow> string \<Rightarrow> 'v configurationNamespaceLister" where
  "configurationLister_Configurations s namespace = \<lparr>nl_indexer = cl_indexer s, nl_namespace = namespace\<rparr>"

text \<open>The metadata \<open>Index\<close> is asked with have only a namespace.\<close>

definition namespace_only :: "string \<Rightarrow> Meta" where
  "namespace_only namespace = \<lparr>ob_Namespace = namespace, ob_Name = [], ob_Labels = []\<rparr>"

definition configurationNamespaceLister_List :: "orders \<Rightarrow> 'v configurationNamespaceLister \<Rightarrow> selector
    \<Rightarrow> api_error option \<times> 'v object list" where
  "configurationNamespaceLister_List ord s selector =
     ListAllByNamespace (store_List ord (nl_indexer s))
       (store_Index ord NamespaceIndex (namespace_only (nl_namespace s)) (nl_indexer s))
       (nl_namespace s) selector"

definition configurationNamespaceLister_Get :: "'v configurationNamespaceLister \<Rightarrow> string \<Rightarrow> api_error + 'v object" where
  "configurationNamespaceLister_Get s name =
     (case map_of (items (nl_indexer s)) (nl_namespace s @ ''/'' @ name) of
        None \<Rightarrow> Inl (NotFound ''configuration'' name)
      | Some obj \<Rightarrow> Inr obj)"

text \<open>The generic lister takes a whole key; its error names the resource it was made for.\<close>

definition genericLister_Get :: "string \<Rightarrow> 'v store \<Rightarrow> string \<Rightarrow> api_error + 'v object" where
  "genericLister_Get resource st name =
     (case map_of (items st) name of None \<Rightarrow> Inl (NotFound resource name) | Some obj \<Rightarrow> Inr obj)"

section \<open>What they need of the cache\<close>

text \<open>
  \<open>objs\<close> are the objects in the store, \<open>lst\<close>, \<open>idx\<close> and \<open>get\<close> are \<open>List\<close>, \<open>Index\<close> by namespace and
  \<open>GetByKey\<close>. The namespace index may be missing.
\<close>

locale object_store =
  fixes ok :: "'s \<Rightarrow> bool" and objs :: "'s \<Rightarrow> 'v object multiset"
    and lst :: "'s \<Rightarrow> 'v object list" and idx :: "'s \<Rightarrow> string \<Rightarrow> 'v object option list option"
    and get :: "'s \<Rightarrow> string \<Rightarrow> 'v object option"
  assumes lst_objs: "ok s \<Longrightarrow> mset (lst s) = objs s"
    and idx_objs: "ok s \<Longrightarrow> idx s ns = None \<or> (\<exists>obs. idx s ns = Some (map Some obs) \<and>
      mset obs = filter_mset (\<lambda>ob. ob_Namespace ob = ns) (objs s))"
    and get_objs: "ok s \<Longrightarrow> get s key = Some ob \<longleftrightarrow> ob \<in># objs s \<and> MetaNamespaceKeyFunc ob = key"
begin

lemma ListAll_objs:
  "ok s \<Longrightarrow> \<exists>ret. ListAll (lst s) sel = (None, ret) \<and> mset ret = filter_mset (\<lambda>ob. sel (ob_Labels ob)) (objs s)"
  by (simp add: ListAll_def append_matching_filter lst_objs)

lemma ListAllByNamespace_objs:
  assumes "ok s"
  shows "\<exists>ret. ListAllByNamespace (lst s) (idx s ns) ns sel = (None, ret) \<and>
    mset ret = filter_mset (\<lambda>ob. (ns = [] \<or> ob_Namespace ob = ns) \<and> sel (ob_Labels ob)) (objs s)"
proof (cases "ns = []")
  case True
  then show ?thesis using lst_objs [OF assms] by (simp add: ListAllByNamespace_def append_matching_filter)
next
  case False
  have *: "filter_mset (\<lambda>ob. sel (ob_Labels ob)) (filter_mset (\<lambda>ob. ob_Namespace ob = ns) M) =
      filter_mset (\<lambda>ob. ob_Namespace ob = ns \<and> sel (ob_Labels ob)) M" for M :: "'v object multiset"
    by (induction M) auto
  from idx_objs [OF assms, of ns] False show ?thesis
    by (auto simp: ListAllByNamespace_def append_matching_filter append_indexed_filter lst_objs [OF assms] * )
qed

end

text \<open>A store with the namespace index, or without it, whose keys are those of its objects.\<close>

definition cache_ok :: "'v store \<Rightarrow> bool" where
  "cache_ok st \<longleftrightarrow> index_ok st \<and> keyed (items st) \<and> indexers st NamespaceIndex \<in> {None, Some MetaNamespaceIndexFunc}"

definition stored :: "'v store \<Rightarrow> 'v object multiset" where
  "stored st = mset (map snd (items st))"

lemma in_stored: "index_ok st \<Longrightarrow> ob \<in># stored st \<longleftrightarrow> (\<exists>key. map_of (items st) key = Some ob)"
  by (auto simp: stored_def index_ok_def go_wf_def)
     (metis image_iff map_of_SomeD snd_conv)

lemma store_provides:
  assumes "fair_orders ord"
  shows "object_store cache_ok stored (store_List ord)
    (\<lambda>st ns. store_Index ord NamespaceIndex (namespace_only ns) st) (\<lambda>st key. map_of (items st) key)"
proof
  fix st :: "'a store"
  assume ok: "cache_ok st"
  then have i: "index_ok st" and k: "keyed (items st)" by (simp_all add: cache_ok_def)
  show "mset (store_List ord st) = stored st"
    using mset_store_List [OF assms, of st] i by (simp add: index_ok_def stored_def)
  show "(map_of (items st) key = Some ob) = (ob \<in># stored st \<and> MetaNamespaceKeyFunc ob = key)" for key ob
    using in_stored [OF i] k by (auto simp: keyed_def)
  show "store_Index ord NamespaceIndex (namespace_only ns) st = None \<or>
      (\<exists>obs. store_Index ord NamespaceIndex (namespace_only ns) st = Some (map Some obs) \<and>
        mset obs = filter_mset (\<lambda>ob. ob_Namespace ob = ns) (stored st))" for ns
  proof (cases "indexers st NamespaceIndex")
    case (Some f)
    with ok have f: "f = MetaNamespaceIndexFunc" by (auto simp: cache_ok_def)
    have "(\<lambda>ob :: 'a object. set (f (namespace_only ns)) \<inter> set (f (metadata ob)) \<noteq> {}) = (\<lambda>ob. ob_Namespace ob = ns)"
      by (auto simp: f MetaNamespaceIndexFunc_def namespace_only_def Meta.truncate_def)
    with store_Index_Some [OF assms i Some, of "namespace_only ns"] show ?thesis
      by (simp add: stored_def)
  qed (simp add: store_Index_def)
qed

interpretation cache: object_store cache_ok stored "store_List id_orders"
    "\<lambda>st ns. store_Index id_orders NamespaceIndex (namespace_only ns) st" "\<lambda>st key. map_of (items st) key"
  by (rule store_provides [OF fair_id_orders])

section \<open>Keys\<close>

lemma slash_split:
  "c \<notin> set a \<Longrightarrow> c \<notin> set a' \<Longrightarrow> a @ c # b = a' @ c # b' \<longleftrightarrow> a = a' \<and> b = b'"
proof (induction a arbitrary: a')
  case Nil
  then show ?case by (cases a') auto
next
  case (Cons x a)
  then show ?case by (cases a') auto
qed

definition plain_names :: "'v store \<Rightarrow> bool" where
  "plain_names st \<longleftrightarrow> (\<forall>ob \<in># stored st. CHR ''/'' \<notin> set (ob_Namespace ob) \<and> CHR ''/'' \<notin> set (ob_Name ob))"

lemma key_eq:
  assumes "CHR ''/'' \<notin> set (ob_Namespace ob)" and "CHR ''/'' \<notin> set (ob_Name ob)" and "CHR ''/'' \<notin> set ns"
  shows "MetaNamespaceKeyFunc ob = ns @ ''/'' @ name \<longleftrightarrow> ns \<noteq> [] \<and> ob_Namespace ob = ns \<and> ob_Name ob = name"
proof (cases "ob_Namespace ob = []")
  case True
  have "ob_Name ob \<noteq> ns @ ''/'' @ name" using assms(2) by auto
  with True show ?thesis by (auto simp: MetaNamespaceKeyFunc_def)
next
  case False
  then show ?thesis using slash_split [OF assms(1,3)] by (auto simp: MetaNamespaceKeyFunc_def)
qed

text \<open>The cache keeps its invariant under every operation on objects.\<close>

lemma cache_ok_Add: "cache_ok st \<Longrightarrow> cache_ok (cache_Add obj st)"
  using index_ok_Add [of st "MetaNamespaceKeyFunc obj" obj] keyed_put [of "items st" obj]
  by (simp add: cache_ok_def cache_Add_def store_Add_def Let_def)

lemma cache_ok_Delete: "cache_ok st \<Longrightarrow> cache_ok (cache_Delete obj st)"
  using index_ok_Delete [of st "MetaNamespaceKeyFunc obj"]
  by (auto simp: cache_ok_def cache_Delete_def keyed_def store_Delete_def split: option.splits if_splits)

lemma cache_ok_Replace:
  assumes "cache_ok st"
  shows "cache_ok (cache_Replace objs st)"
proof -
  let ?its = "fold (\<lambda>item. go_put (MetaNamespaceKeyFunc item) item) objs []"
  have k: "keyed ?its" and w: "go_wf ?its" using keyed_fold [of "[]" objs] by simp_all
  have "index_ok (store_Replace ?its st)" by (rule index_ok_Replace [OF w])
  moreover have "items (store_Replace ?its st) = ?its" "indexers (store_Replace ?its st) = indexers st"
    by (simp_all add: store_Replace_def fold_updateIndices)
  ultimately show ?thesis using assms k by (simp add: cache_ok_def cache_Replace_def)
qed

end
