(* ===== verification/Cache_History.thy ===== *)
theory Cache_History
  imports Lister
begin

text \<open>
  The cache over time: the events an informer applies to its store, in any order and number,
  against the abstract map from keys to objects. The listers then answer from that map.
\<close>

text \<open>\<open>Update\<close> of the store is \<open>Add\<close>.\<close>

datatype 'v cache_op = OpAdd "'v object" | OpDelete "'v object" | OpReplace "'v object list"

fun run_op :: "'v cache_op \<Rightarrow> 'v store \<Rightarrow> 'v store" where
  "run_op (OpAdd ob) st = cache_Add ob st"
| "run_op (OpDelete ob) st = cache_Delete ob st"
| "run_op (OpReplace obs) st = cache_Replace obs st"

fun spec_op :: "'v cache_op \<Rightarrow> (string \<Rightarrow> 'v object option) \<Rightarrow> string \<Rightarrow> 'v object option" where
  "spec_op (OpAdd ob) m = m(MetaNamespaceKeyFunc ob \<mapsto> ob)"
| "spec_op (OpDelete ob) m = m(MetaNamespaceKeyFunc ob := None)"
| "spec_op (OpReplace obs) m = fold (\<lambda>ob m. m(MetaNamespaceKeyFunc ob \<mapsto> ob)) obs Map.empty"

definition namespace_indexers :: "string \<Rightarrow> index_func option" where
  "namespace_indexers = [NamespaceIndex \<mapsto> MetaNamespaceIndexFunc]"

definition run_ops :: "'v cache_op list \<Rightarrow> 'v store" where
  "run_ops ops = fold run_op ops (NewThreadSafeStore namespace_indexers)"

definition spec_ops :: "'v cache_op list \<Rightarrow> string \<Rightarrow> 'v object option" where
  "spec_ops ops = fold spec_op ops Map.empty"

lemma items_Replace:
  "items (cache_Replace obs st) = fold (\<lambda>item. go_put (MetaNamespaceKeyFunc item) item) obs []"
  by (simp add: cache_Replace_def store_Replace_def fold_updateIndices)

lemma map_of_fold_objects:
  "map_of (fold (\<lambda>item. go_put (MetaNamespaceKeyFunc item) item) obs m) =
    fold (\<lambda>ob m. m(MetaNamespaceKeyFunc ob \<mapsto> ob)) obs (map_of m)"
  by (induction obs arbitrary: m) auto

lemma run_op_refines:
  assumes "cache_ok st"
  shows "cache_ok (run_op op st) \<and> map_of (items (run_op op st)) = spec_op op (map_of (items st))"
proof (cases op)
  case (OpAdd ob)
  with cache_ok_Add [OF assms] show ?thesis by (simp add: cache_Add_def store_Add_def Let_def)
next
  case (OpDelete ob)
  have w: "go_wf (items st)" using assms by (simp add: cache_ok_def index_ok_def)
  from OpDelete cache_ok_Delete [OF assms] w show ?thesis
    by (auto simp: cache_Delete_def store_Delete_def fun_eq_iff split: option.split)
next
  case (OpReplace obs)
  with cache_ok_Replace [OF assms] show ?thesis by (simp add: items_Replace map_of_fold_objects)
qed

lemma run_ops_refines: "cache_ok (run_ops ops) \<and> map_of (items (run_ops ops)) = spec_ops ops"
proof -
  have "cache_ok (fold run_op ops st) \<and> map_of (items (fold run_op ops st)) = fold spec_op ops (map_of (items st))"
    if "cache_ok st" for st :: "'a store"
    using that
  proof (induction ops arbitrary: st)
    case (Cons op ops)
    note s = run_op_refines [OF Cons.prems, of op]
    from Cons.IH [of "run_op op st"] s show ?case by simp
  qed simp
  moreover have "cache_ok (NewThreadSafeStore namespace_indexers :: 'a store)"
    using index_ok_new [of namespace_indexers]
    by (simp add: cache_ok_def namespace_indexers_def NewThreadSafeStore_def)
  moreover have "map_of (items (NewThreadSafeStore namespace_indexers :: 'a store)) = Map.empty"
    by (simp add: NewThreadSafeStore_def)
  ultimately show ?thesis by (metis run_ops_def spec_ops_def)
qed

text \<open>No object is stored twice, as its key tells it apart.\<close>

lemma distinct_stored:
  assumes "cache_ok st"
  shows "distinct (map snd (items st))"
proof -
  have w: "distinct (map fst (items st))" and k: "keyed (items st)"
    using assms by (auto simp: cache_ok_def index_ok_def go_wf_def)
  have "map fst (items st) = map (\<lambda>e. MetaNamespaceKeyFunc (snd e)) (items st)"
    using w k by (auto simp: keyed_def)
  then have "map fst (items st) = map MetaNamespaceKeyFunc (map snd (items st))" by (simp add: comp_def)
  with w show ?thesis by (metis distinct_map)
qed

lemma mset_stored_set:
  assumes "cache_ok st" and "mset ret = filter_mset P (stored st)"
  shows "distinct ret \<and> set ret = {ob. (\<exists>key. map_of (items st) key = Some ob) \<and> P ob}"
proof
  have m: "mset ret = mset (filter P (map snd (items st)))" using assms(2) by (simp add: stored_def)
  then show "distinct ret" using distinct_stored [OF assms(1)]
    by (metis distinct_filter mset_eq_imp_distinct_iff)
  have "set ret = set_mset (filter_mset P (stored st))" by (metis assms(2) set_mset_mset)
  then show "set ret = {ob. (\<exists>key. map_of (items st) key = Some ob) \<and> P ob}"
    using in_stored [of st] assms(1) by (auto simp: cache_ok_def)
qed

lemma distinct_singleton_list: "distinct xs \<Longrightarrow> set xs = {x} \<Longrightarrow> xs = [x]"
  by (cases xs; cases "tl xs") auto

text \<open>A namespace lister over the cache.\<close>

lemma namespace_lister_List:
  assumes "fair_orders ord"
  shows "\<exists>ret. configurationNamespaceLister_List ord
      (configurationLister_Configurations (NewConfigurationLister (run_ops ops)) ns) sel = (None, ret) \<and> distinct ret \<and>
    set ret = {ob. (\<exists>key. spec_ops ops key = Some ob) \<and> (ns = [] \<or> ob_Namespace ob = ns) \<and> sel (ob_Labels ob)}"
proof -
  have ok: "cache_ok (run_ops ops)" and m: "map_of (items (run_ops ops)) = spec_ops ops"
    using run_ops_refines by blast+
  from object_store.ListAllByNamespace_objs [OF store_provides [OF assms] ok, of ns sel] obtain ret where
    r: "ListAllByNamespace (store_List ord (run_ops ops))
        (store_Index ord NamespaceIndex (namespace_only ns) (run_ops ops)) ns sel = (None, ret)"
      "mset ret = filter_mset (\<lambda>ob. (ns = [] \<or> ob_Namespace ob = ns) \<and> sel (ob_Labels ob)) (stored (run_ops ops))" by blast
  from mset_stored_set [OF ok r(2)] r(1) m show ?thesis
    by (simp add: configurationNamespaceLister_List_def configurationLister_Configurations_def NewConfigurationLister_def)
qed

lemma lister_List:
  assumes "fair_orders ord"
  shows "\<exists>ret. configurationLister_List ord (NewConfigurationLister (run_ops ops)) sel = (None, ret) \<and> distinct ret \<and>
    set ret = {ob. (\<exists>key. spec_ops ops key = Some ob) \<and> sel (ob_Labels ob)}"
proof -
  have ok: "cache_ok (run_ops ops)" and m: "map_of (items (run_ops ops)) = spec_ops ops"
    using run_ops_refines by blast+
  from object_store.ListAll_objs [OF store_provides [OF assms] ok, of sel] obtain ret where
    r: "ListAll (store_List ord (run_ops ops)) sel = (None, ret)"
      "mset ret = filter_mset (\<lambda>ob. sel (ob_Labels ob)) (stored (run_ops ops))" by blast
  from mset_stored_set [OF ok r(2)] r(1) m show ?thesis
    by (simp add: configurationLister_List_def NewConfigurationLister_def)
qed

lemma namespace_lister_Get:
  assumes plain: "\<forall>key ob. spec_ops ops key = Some ob \<longrightarrow> CHR ''/'' \<notin> set (ob_Namespace ob) \<and> CHR ''/'' \<notin> set (ob_Name ob)"
    and "CHR ''/'' \<notin> set ns"
  shows "configurationNamespaceLister_Get (configurationLister_Configurations (NewConfigurationLister (run_ops ops)) ns) name =
      Inr ob \<longleftrightarrow> ns \<noteq> [] \<and> (\<exists>key. spec_ops ops key = Some ob) \<and> ob_Namespace ob = ns \<and> ob_Name ob = name"
proof -
  have ok: "cache_ok (run_ops ops)" and m: "map_of (items (run_ops ops)) = spec_ops ops"
    using run_ops_refines by blast+
  let ?key = "ns @ ''/'' @ name"
  have g: "configurationNamespaceLister_Get (configurationLister_Configurations (NewConfigurationLister (run_ops ops)) ns) name =
      Inr ob \<longleftrightarrow> spec_ops ops ?key = Some ob"
    by (simp add: configurationNamespaceLister_Get_def configurationLister_Configurations_def NewConfigurationLister_def m
        split: option.split)
  have k: "spec_ops ops key = Some ob \<Longrightarrow> key = MetaNamespaceKeyFunc ob" for key
    using ok m by (auto simp: cache_ok_def keyed_def)
  have e: "MetaNamespaceKeyFunc ob = ?key \<longleftrightarrow> ns \<noteq> [] \<and> ob_Namespace ob = ns \<and> ob_Name ob = name"
    if "spec_ops ops key = Some ob" for key
    by (rule key_eq) (use plain that assms(2) in auto)
  show ?thesis
  proof
    assume "configurationNamespaceLister_Get (configurationLister_Configurations (NewConfigurationLister (run_ops ops)) ns) name = Inr ob"
    then have s: "spec_ops ops ?key = Some ob" using g by simp
    then show "ns \<noteq> [] \<and> (\<exists>key. spec_ops ops key = Some ob) \<and> ob_Namespace ob = ns \<and> ob_Name ob = name"
      using e [OF s] k [OF s] by auto
  next
    assume r: "ns \<noteq> [] \<and> (\<exists>key. spec_ops ops key = Some ob) \<and> ob_Namespace ob = ns \<and> ob_Name ob = name"
    then obtain key where s: "spec_ops ops key = Some ob" by blast
    with e [OF s] k [OF s] r g show
      "configurationNamespaceLister_Get (configurationLister_Configurations (NewConfigurationLister (run_ops ops)) ns) name = Inr ob"
      by simp
  qed
qed

end
