(* ===== verification/Client_Contract.thy ===== *)
theory Client_Contract
  imports Indexer
begin

text \<open>
  What a client of configurations may rely on, whichever implementation of
  \<open>ConfigurationInterface\<close> it has: \<open>view\<close> is what the server (or the tracker of the fake) stores,
  by namespace and name; \<open>None\<close> as the result of a method is a panic. A created or updated object is the one that is stored; the server may
  change everything in it but its namespace and name. The results are those of the Go methods:
  the object, or nil, and the error.
\<close>

type_synonym key = "string \<times> string"

abbreviation key_of :: "'v object \<Rightarrow> key" where
  "key_of ob \<equiv> (ob_Namespace ob, ob_Name ob)"

text \<open>What a segment of a request path must be: \<open>IsValidPathSegmentName\<close> has no message for it.\<close>

definition IsValidPathSegmentName :: "string \<Rightarrow> bool" where
  "IsValidPathSegmentName name \<longleftrightarrow> name \<noteq> ''.'' \<and> name \<noteq> ''..'' \<and> \<not> Contains name ''/'' \<and> \<not> Contains name ''%''"

definition proper :: "string \<Rightarrow> bool" where
  "proper name \<longleftrightarrow> name \<noteq> [] \<and> IsValidPathSegmentName name"

locale configurations_client =
  fixes view :: "'w \<Rightarrow> key \<Rightarrow> 'v object option" and ok :: "'w \<Rightarrow> bool"
    and create :: "string \<Rightarrow> 'v object \<Rightarrow> 'w \<Rightarrow> (('v object option \<times> api_error option) \<times> 'w) option"
    and update :: "string \<Rightarrow> 'v object \<Rightarrow> 'w \<Rightarrow> (('v object option \<times> api_error option) \<times> 'w) option"
    and get :: "string \<Rightarrow> string \<Rightarrow> 'w \<Rightarrow> (('v object option \<times> api_error option) \<times> 'w) option"
    and del :: "string \<Rightarrow> string \<Rightarrow> 'w \<Rightarrow> (api_error option \<times> 'w) option"
  assumes get_some: "ok w \<Longrightarrow> proper ns \<Longrightarrow> proper n \<Longrightarrow> view w (ns, n) = Some ob \<Longrightarrow>
      \<exists>w'. get ns n w = Some ((Some ob, None), w') \<and> ok w' \<and> view w' = view w"
    and get_none: "ok w \<Longrightarrow> proper ns \<Longrightarrow> proper n \<Longrightarrow> view w (ns, n) = None \<Longrightarrow>
      \<exists>r e w'. get ns n w = Some ((r, Some e), w') \<and> ok w' \<and> view w' = view w"
    and create_new: "ok w \<Longrightarrow> proper ns \<Longrightarrow> proper (ob_Name ob) \<Longrightarrow> ob_Namespace ob \<in> {[], ns} \<Longrightarrow>
      view w (ns, ob_Name ob) = None \<Longrightarrow>
      \<exists>ob' w'. create ns ob w = Some ((Some ob', None), w') \<and> ok w' \<and> key_of ob' = (ns, ob_Name ob) \<and>
        view w' = (view w)((ns, ob_Name ob) \<mapsto> ob')"
    and create_old: "ok w \<Longrightarrow> proper ns \<Longrightarrow> proper (ob_Name ob) \<Longrightarrow> ob_Namespace ob \<in> {[], ns} \<Longrightarrow>
      view w (ns, ob_Name ob) \<noteq> None \<Longrightarrow>
      \<exists>r e w'. create ns ob w = Some ((r, Some e), w') \<and> ok w' \<and> view w' = view w"
    and update_old: "ok w \<Longrightarrow> proper ns \<Longrightarrow> proper (ob_Name ob) \<Longrightarrow> ob_Namespace ob \<in> {[], ns} \<Longrightarrow>
      view w (ns, ob_Name ob) \<noteq> None \<Longrightarrow>
      \<exists>ob' w'. update ns ob w = Some ((Some ob', None), w') \<and> ok w' \<and> key_of ob' = (ns, ob_Name ob) \<and>
        view w' = (view w)((ns, ob_Name ob) \<mapsto> ob')"
    and update_new: "ok w \<Longrightarrow> proper ns \<Longrightarrow> proper (ob_Name ob) \<Longrightarrow> ob_Namespace ob \<in> {[], ns} \<Longrightarrow>
      view w (ns, ob_Name ob) = None \<Longrightarrow>
      \<exists>r e w'. update ns ob w = Some ((r, Some e), w') \<and> ok w' \<and> view w' = view w"
    and del_old: "ok w \<Longrightarrow> proper ns \<Longrightarrow> proper n \<Longrightarrow> view w (ns, n) \<noteq> None \<Longrightarrow>
      \<exists>w'. del ns n w = Some (None, w') \<and> ok w' \<and> view w' = (view w)((ns, n) := None)"
    and del_new: "ok w \<Longrightarrow> proper ns \<Longrightarrow> proper n \<Longrightarrow> view w (ns, n) = None \<Longrightarrow>
      \<exists>e w'. del ns n w = Some (Some e, w') \<and> ok w' \<and> view w' = view w"
begin

text \<open>What was created is read back, is not created twice, and is gone after a deletion.\<close>

lemma life_cycle:
  assumes "ok w" and "proper ns" and "proper (ob_Name ob)" and "ob_Namespace ob \<in> {[], ns}"
    and "view w (ns, ob_Name ob) = None"
  shows "\<exists>ob' w1 w2 w3 w4 w5 r r' e e'. create ns ob w = Some ((Some ob', None), w1) \<and>
    get ns (ob_Name ob) w1 = Some ((Some ob', None), w2) \<and>
    create ns ob w2 = Some ((r, Some e), w3) \<and>
    del ns (ob_Name ob) w3 = Some (None, w4) \<and> view w4 = view w \<and>
    get ns (ob_Name ob) w4 = Some ((r', Some e'), w5)"
proof -
  obtain ob' w1 where 1: "create ns ob w = Some ((Some ob', None), w1)" "ok w1"
    "view w1 = (view w)((ns, ob_Name ob) \<mapsto> ob')"
    using create_new [OF assms] by blast
  then have "view w1 (ns, ob_Name ob) = Some ob'" by simp
  from get_some [OF 1(2) assms(2,3) this] obtain w2 where
    2: "get ns (ob_Name ob) w1 = Some ((Some ob', None), w2)" "ok w2" "view w2 = view w1" by blast
  have v2: "view w2 (ns, ob_Name ob) \<noteq> None" using 1(3) 2(3) by simp
  from create_old [OF 2(2) assms(2-4) v2] obtain r e w3 where
    3: "create ns ob w2 = Some ((r, Some e), w3)" "ok w3" "view w3 = view w2" by blast
  have "view w3 (ns, ob_Name ob) \<noteq> None" using 3(3) v2 by simp
  from del_old [OF 3(2) assms(2,3) this] obtain w4 where
    4: "del ns (ob_Name ob) w3 = Some (None, w4)" "ok w4" "view w4 = (view w3)((ns, ob_Name ob) := None)" by blast
  have v4: "view w4 = view w" using 1(3) 2(3) 3(3) 4(3) assms(5) by auto
  then have "view w4 (ns, ob_Name ob) = None" using assms(5) by simp
  from get_none [OF 4(2) assms(2,3) this] obtain r' e' w5 where
    "get ns (ob_Name ob) w4 = Some ((r', Some e'), w5)" by blast
  with 1(1) 2(1) 3(1) 4(1) v4 show ?thesis by blast
qed

end

end
