(* ===== verification/Informers.thy ===== *)
theory Informers
  imports Lister
begin

text \<open>
  The shared informers of \<open>pkg/client/informers/externalversions\<close>: the factory (\<open>factory.go\<close>),
  the informer of configurations, the group and version accessors and the generic informer. An
  informer is an allocated struct, so that sharing one is having its address; \<open>fw_informers\<close> are
  the informers allocated so far and \<open>fw_runs\<close> the informers \<open>go informer.Run\<close> was called on, in
  order. A \<open>reflect.Type\<close> is its name. The methods hold the factory's mutex from the first to
  the last line, so each is one step. The client set is the type \<open>'c\<close>.
\<close>

section \<open>Informers\<close>

record ListOptions =
  lo_LabelSelector :: string
  lo_FieldSelector :: string
  lo_IncludeUninitialized :: bool
  lo_Watch :: bool
  lo_ResourceVersion :: string
  lo_TimeoutSeconds :: "int option"
  lo_Limit :: int
  lo_Continue :: string

type_synonym tweak = "(ListOptions \<Rightarrow> ListOptions) option"

text \<open>What \<open>cache.NewSharedIndexInformer\<close> is given: the list-watch, the object type, the period and the indexers.\<close>

record 'c informer =
  in_client :: 'c
  in_namespace :: string
  in_tweak :: tweak
  in_type :: string
  in_resync :: int
  in_indexers :: "string \<Rightarrow> index_func option"

record 'c fworld =
  fw_informers :: "'c informer list"
  fw_runs :: "nat list"

definition alloc :: "'c informer \<Rightarrow> 'c fworld \<Rightarrow> nat \<times> 'c fworld" where
  "alloc i w = (length (fw_informers w), w\<lparr>fw_informers := fw_informers w @ [i]\<rparr>)"

definition TypeConfiguration :: string where
  "TypeConfiguration = ''*v1alpha1.Configuration''"

definition NewFilteredConfigurationInformer :: "'c \<Rightarrow> string \<Rightarrow> int \<Rightarrow> (string \<Rightarrow> index_func option) \<Rightarrow> tweak
    \<Rightarrow> 'c fworld \<Rightarrow> nat \<times> 'c fworld" where
  "NewFilteredConfigurationInformer client namespace resyncPeriod ixs tweakListOptions w =
     alloc \<lparr>in_client = client, in_namespace = namespace, in_tweak = tweakListOptions, in_type = TypeConfiguration,
       in_resync = resyncPeriod, in_indexers = ixs\<rparr> w"

definition NewConfigurationInformer :: "'c \<Rightarrow> string \<Rightarrow> int \<Rightarrow> (string \<Rightarrow> index_func option)
    \<Rightarrow> 'c fworld \<Rightarrow> nat \<times> 'c fworld" where
  "NewConfigurationInformer client namespace resyncPeriod ixs =
     NewFilteredConfigurationInformer client namespace resyncPeriod ixs None"

text \<open>
  The two functions of its list-watch, over the methods \<open>List\<close> and \<open>Watch\<close> of the client's
  configurations in a namespace.
\<close>

definition tweaked :: "tweak \<Rightarrow> ListOptions \<Rightarrow> ListOptions" where
  "tweaked t options = (case t of None \<Rightarrow> options | Some f \<Rightarrow> f options)"

definition ListFunc :: "('c \<Rightarrow> string \<Rightarrow> ListOptions \<Rightarrow> 'w \<Rightarrow> 'r) \<Rightarrow> 'c informer \<Rightarrow> ListOptions \<Rightarrow> 'w \<Rightarrow> 'r" where
  "ListFunc List i options w = List (in_client i) (in_namespace i) (tweaked (in_tweak i) options) w"

definition WatchFunc :: "('c \<Rightarrow> string \<Rightarrow> ListOptions \<Rightarrow> 'w \<Rightarrow> 'r) \<Rightarrow> 'c informer \<Rightarrow> ListOptions \<Rightarrow> 'w \<Rightarrow> 'r" where
  "WatchFunc Watch i options w = Watch (in_client i) (in_namespace i) (tweaked (in_tweak i) options) w"

section \<open>The factory\<close>

record 'c sharedInformerFactory =
  fa_client :: 'c
  fa_namespace :: string
  fa_tweakListOptions :: tweak
  fa_defaultResync :: int
  fa_customResync :: "(string, int) gomap"
  fa_informers :: "(string, nat) gomap"
  fa_started :: "(string, bool) gomap"

type_synonym 'c SharedInformerOption = "'c sharedInformerFactory \<Rightarrow> 'c sharedInformerFactory"

text \<open>The entries of \<open>resyncConfig\<close>, by the type of their key, in the order of the range loop.\<close>

definition WithCustomResyncConfig :: "(string \<times> int) list \<Rightarrow> 'c SharedInformerOption" where
  "WithCustomResyncConfig resyncConfig f =
     f\<lparr>fa_customResync := fold (\<lambda>(k, v). go_put k v) resyncConfig (fa_customResync f)\<rparr>"

definition WithTweakListOptions :: "tweak \<Rightarrow> 'c SharedInformerOption" where
  "WithTweakListOptions t f = f\<lparr>fa_tweakListOptions := t\<rparr>"

definition WithNamespace :: "string \<Rightarrow> 'c SharedInformerOption" where
  "WithNamespace ns f = f\<lparr>fa_namespace := ns\<rparr>"

definition NewSharedInformerFactoryWithOptions :: "'c \<Rightarrow> int \<Rightarrow> 'c SharedInformerOption list \<Rightarrow> 'c sharedInformerFactory" where
  "NewSharedInformerFactoryWithOptions client defaultResync options =
     fold (\<lambda>opt factory. opt factory) options
       \<lparr>fa_client = client, fa_namespace = [], fa_tweakListOptions = None, fa_defaultResync = defaultResync,
        fa_customResync = [], fa_informers = [], fa_started = []\<rparr>"

definition NewSharedInformerFactory :: "'c \<Rightarrow> int \<Rightarrow> 'c sharedInformerFactory" where
  "NewSharedInformerFactory client defaultResync = NewSharedInformerFactoryWithOptions client defaultResync []"

definition NewFilteredSharedInformerFactory :: "'c \<Rightarrow> int \<Rightarrow> string \<Rightarrow> tweak \<Rightarrow> 'c sharedInformerFactory" where
  "NewFilteredSharedInformerFactory client defaultResync namespace tweakListOptions =
     NewSharedInformerFactoryWithOptions client defaultResync [WithNamespace namespace, WithTweakListOptions tweakListOptions]"

text \<open>A missing entry of a map of bools reads as false.\<close>

definition is_started :: "'c sharedInformerFactory \<Rightarrow> string \<Rightarrow> bool" where
  "is_started f t \<longleftrightarrow> map_of (fa_started f) t = Some True"

fun start_loop :: "string list \<Rightarrow> 'c sharedInformerFactory \<Rightarrow> 'c fworld \<Rightarrow> 'c sharedInformerFactory \<times> 'c fworld" where
  "start_loop [] f w = (f, w)"
| "start_loop (informerType # ts) f w =
     (case map_of (fa_informers f) informerType of
        None \<Rightarrow> start_loop ts f w
      | Some informer \<Rightarrow>
          if \<not> is_started f informerType
          then start_loop ts (f\<lparr>fa_started := go_put informerType True (fa_started f)\<rparr>)
                 (w\<lparr>fw_runs := fw_runs w @ [informer]\<rparr>)
          else start_loop ts f w)"

definition Start :: "orders \<Rightarrow> 'c sharedInformerFactory \<Rightarrow> 'c fworld \<Rightarrow> 'c sharedInformerFactory \<times> 'c fworld" where
  "Start ord f w = start_loop (name_order ord 0 (go_keys (fa_informers f))) f w"

text \<open>
  \<open>synced\<close> is what \<open>cache.WaitForCacheSync\<close> returns for an informer: whether its cache was filled
  before the stop channel was closed.
\<close>

definition WaitForCacheSync :: "orders \<Rightarrow> (nat \<Rightarrow> bool) \<Rightarrow> 'c sharedInformerFactory \<Rightarrow> (string, bool) gomap" where
  "WaitForCacheSync ord synced f =
     (let informers = fold (\<lambda>t m. case map_of (fa_informers f) t of
            Some i \<Rightarrow> if is_started f t then go_put t i m else m | None \<Rightarrow> m)
          (name_order ord 0 (go_keys (fa_informers f))) []
      in fold (\<lambda>t res. case map_of informers t of Some i \<Rightarrow> go_put t (synced i) res | None \<Rightarrow> res)
           (name_order ord 1 (go_keys informers)) [])"

definition InformerFor :: "string \<Rightarrow> ('c \<Rightarrow> int \<Rightarrow> 'c fworld \<Rightarrow> nat \<times> 'c fworld) \<Rightarrow> 'c sharedInformerFactory \<Rightarrow> 'c fworld
    \<Rightarrow> nat \<times> 'c sharedInformerFactory \<times> 'c fworld" where
  "InformerFor informerType newFunc f w =
     (case map_of (fa_informers f) informerType of
        Some informer \<Rightarrow> (informer, f, w)
      | None \<Rightarrow>
          (let resyncPeriod = (case map_of (fa_customResync f) informerType of
                 Some p \<Rightarrow> p | None \<Rightarrow> fa_defaultResync f);
               (informer, w1) = newFunc (fa_client f) resyncPeriod w
           in (informer, f\<lparr>fa_informers := go_put informerType informer (fa_informers f)\<rparr>, w1)))"

section \<open>Groups, versions and the informer of configurations\<close>

text \<open>
  \<open>group\<close>, \<open>version\<close> and \<open>configurationInformer\<close> are structs with the same three fields: the
  factory (a pointer, so it is the current factory where it is used), the tweak and the namespace.
\<close>

record scope =
  sc_namespace :: string
  sc_tweak :: tweak

type_synonym group = scope
type_synonym version = scope

definition group_New :: "string \<Rightarrow> tweak \<Rightarrow> group" where
  "group_New namespace t = \<lparr>sc_namespace = namespace, sc_tweak = t\<rparr>"

definition version_New :: "string \<Rightarrow> tweak \<Rightarrow> version" where
  "version_New namespace t = \<lparr>sc_namespace = namespace, sc_tweak = t\<rparr>"

definition group_V1alpha1 :: "group \<Rightarrow> version" where
  "group_V1alpha1 g = version_New (sc_namespace g) (sc_tweak g)"

definition version_Configurations :: "version \<Rightarrow> scope" where
  "version_Configurations v = \<lparr>sc_namespace = sc_namespace v, sc_tweak = sc_tweak v\<rparr>"

definition Lvscontroller :: "'c sharedInformerFactory \<Rightarrow> group" where
  "Lvscontroller f = group_New (fa_namespace f) (fa_tweakListOptions f)"

definition defaultInformer :: "scope \<Rightarrow> 'c \<Rightarrow> int \<Rightarrow> 'c fworld \<Rightarrow> nat \<times> 'c fworld" where
  "defaultInformer s client resyncPeriod =
     NewFilteredConfigurationInformer client (sc_namespace s) resyncPeriod [NamespaceIndex \<mapsto> MetaNamespaceIndexFunc] (sc_tweak s)"

definition Informer :: "scope \<Rightarrow> 'c sharedInformerFactory \<Rightarrow> 'c fworld \<Rightarrow> nat \<times> 'c sharedInformerFactory \<times> 'c fworld" where
  "Informer s f w = InformerFor TypeConfiguration (defaultInformer s) f w"

text \<open>\<open>GetIndexer\<close> gives the store of an informer; \<open>stores\<close> are the stores of the informers.\<close>

definition configurationInformer_Lister :: "(nat \<Rightarrow> 'v store) \<Rightarrow> scope \<Rightarrow> 'c sharedInformerFactory \<Rightarrow> 'c fworld
    \<Rightarrow> 'v configurationLister \<times> 'c sharedInformerFactory \<times> 'c fworld" where
  "configurationInformer_Lister stores s f w =
     (let (i, f1, w1) = Informer s f w in (NewConfigurationLister (stores i), f1, w1))"

record GroupVersionResource =
  gvr_Group :: string
  gvr_Version :: string
  gvr_Resource :: string

definition GroupName :: string where "GroupName = ''lvscontroller.k8s.io''"

record GroupVersion =
  gv_Group :: string
  gv_Version :: string

definition SchemeGroupVersion :: GroupVersion where
  "SchemeGroupVersion = \<lparr>gv_Group = GroupName, gv_Version = ''v1alpha1''\<rparr>"

definition WithResource :: "GroupVersion \<Rightarrow> string \<Rightarrow> GroupVersionResource" where
  "WithResource gv resource = \<lparr>gvr_Group = gv_Group gv, gvr_Version = gv_Version gv, gvr_Resource = resource\<rparr>"

record genericInformer =
  gi_informer :: nat
  gi_resource :: "string \<times> string"

definition ForResource :: "GroupVersionResource \<Rightarrow> 'c sharedInformerFactory \<Rightarrow> 'c fworld
    \<Rightarrow> (error + genericInformer) \<times> 'c sharedInformerFactory \<times> 'c fworld" where
  "ForResource resource f w =
     (if resource = WithResource SchemeGroupVersion ''configurations'' then
        (let (i, f1, w1) = Informer (version_Configurations (group_V1alpha1 (Lvscontroller f))) f w
         in (Inr \<lparr>gi_informer = i, gi_resource = (gvr_Group resource, gvr_Resource resource)\<rparr>, f1, w1))
      else (Inl (Errorp ''no informer found''), f, w))"

definition genericInformer_Informer :: "genericInformer \<Rightarrow> nat" where
  "genericInformer_Informer g = gi_informer g"

text \<open>\<open>Get\<close> of the generic lister that \<open>Lister\<close> gives for the informer's store.\<close>

definition genericInformer_Get :: "(nat \<Rightarrow> 'v store) \<Rightarrow> genericInformer \<Rightarrow> string \<Rightarrow> api_error + 'v object" where
  "genericInformer_Get stores g name = genericLister_Get (snd (gi_resource g)) (stores (gi_informer g)) name"

section \<open>Sharing\<close>

text \<open>
  What every factory keeps: its informers are allocated and different from each other; the
  started ones are among them, and they are exactly those that run, each once.
\<close>

definition factory_ok :: "'c sharedInformerFactory \<Rightarrow> 'c fworld \<Rightarrow> bool" where
  "factory_ok f w \<longleftrightarrow>
     (\<forall>t u i. map_of (fa_informers f) t = Some i \<and> map_of (fa_informers f) u = Some i \<longrightarrow> t = u) \<and>
     (\<forall>t i. map_of (fa_informers f) t = Some i \<longrightarrow> i < length (fw_informers w)) \<and>
     distinct (fw_runs w) \<and>
     set (fw_runs w) = {i. \<exists>t. map_of (fa_informers f) t = Some i \<and> is_started f t} \<and>
     (\<forall>t. is_started f t \<longrightarrow> t \<in> dom (map_of (fa_informers f)))"

text \<open>A constructor of informers allocates one, built from the client and the period it gets.\<close>

definition allocates :: "('c \<Rightarrow> int \<Rightarrow> 'c fworld \<Rightarrow> nat \<times> 'c fworld) \<Rightarrow> bool" where
  "allocates newFunc \<longleftrightarrow> (\<exists>build. newFunc = (\<lambda>client resync. alloc (build client resync)))"

lemma allocates_default: "allocates (defaultInformer s)"
  by (auto simp: allocates_def defaultInformer_def NewFilteredConfigurationInformer_def fun_eq_iff)

lemma fold_options:
  assumes "\<And>opt f. opt \<in> set opts \<Longrightarrow> fa_informers (opt f) = fa_informers f \<and> fa_started (opt f) = fa_started f"
  shows "fa_informers (fold (\<lambda>opt f. opt f) opts f) = fa_informers f \<and> fa_started (fold (\<lambda>opt f. opt f) opts f) = fa_started f"
  using assms by (induction opts arbitrary: f) auto

lemma factory_ok_InformerFor:
  assumes ok: "factory_ok f w" and "allocates newFunc" and r: "InformerFor t newFunc f w = (i, f', w')"
  shows "factory_ok f' w' \<and> map_of (fa_informers f') t = Some i"
proof (cases "map_of (fa_informers f) t")
  case None
  obtain build where b: "newFunc = (\<lambda>client resync. alloc (build client resync))" using assms(2) by (auto simp: allocates_def)
  let ?i = "length (fw_informers w)"
  let ?f = "f\<lparr>fa_informers := go_put t ?i (fa_informers f)\<rparr>"
  from r None b obtain p where e: "i = ?i" "f' = ?f" "w' = w\<lparr>fw_informers := fw_informers w @ [p]\<rparr>"
    by (auto simp: InformerFor_def alloc_def Let_def)
  have old: "j \<noteq> ?i" if "map_of (fa_informers f) u = Some j" for u j
    using ok that by (auto simp: factory_ok_def)
  have ns: "\<not> is_started f t" using ok None by (auto simp: factory_ok_def)
  have st: "is_started ?f u = is_started f u" for u by (simp add: is_started_def)
  have runs: "{j. \<exists>u. map_of (fa_informers ?f) u = Some j \<and> is_started ?f u} =
      {j. \<exists>u. map_of (fa_informers f) u = Some j \<and> is_started f u}"
    unfolding st using ns by auto
  have "factory_ok ?f w'"
    using ok old ns unfolding factory_ok_def runs unfolding st e(3)
    by (auto simp: less_Suc_eq split: if_splits)
  then show ?thesis by (simp add: e)
qed (use ok r in \<open>auto simp: InformerFor_def\<close>)

lemma start_loop_ok:
  assumes "factory_ok f w" and "start_loop ts f w = (f', w')"
  shows "factory_ok f' w' \<and> fa_informers f' = fa_informers f \<and> fw_informers w' = fw_informers w \<and>
    (\<forall>u. is_started f' u = (is_started f u \<or> u \<in> set ts \<and> u \<in> dom (map_of (fa_informers f))))"
  using assms
proof (induction ts arbitrary: f w)
  case (Cons t ts)
  show ?case
  proof (cases "map_of (fa_informers f) t")
    case None
    with Cons show ?thesis by auto
  next
    case (Some i)
    show ?thesis
    proof (cases "is_started f t")
      case True
      with Cons Some show ?thesis by auto
    next
      case False
      let ?f = "f\<lparr>fa_started := go_put t True (fa_started f)\<rparr>" and ?w = "w\<lparr>fw_runs := fw_runs w @ [i]\<rparr>"
      have st: "is_started ?f u = (is_started f u \<or> u = t)" for u by (simp add: is_started_def)
      have new: "i \<notin> set (fw_runs w)"
        using Cons.prems(1) Some False by (auto simp: factory_ok_def)
      have "{j. \<exists>u. map_of (fa_informers f) u = Some j \<and> (is_started f u \<or> u = t)} =
          insert i {j. \<exists>u. map_of (fa_informers f) u = Some j \<and> is_started f u}"
        using Some by auto
      then have "factory_ok ?f ?w" using Cons.prems(1) Some new by (simp add: factory_ok_def st domIff)
      from Cons.IH [OF this] Cons.prems(2) Some False show ?thesis by (auto simp: st)
    qed
  qed
qed simp

text \<open>The calls of a client of the factory, in any order.\<close>

inductive factory_run :: "'c sharedInformerFactory \<Rightarrow> 'c fworld \<Rightarrow> bool" where
  new: "fa_informers f = [] \<Longrightarrow> fa_started f = [] \<Longrightarrow> fw_runs w = [] \<Longrightarrow> factory_run f w"
| start: "factory_run f w \<Longrightarrow> fair_orders ord \<Longrightarrow> Start ord f w = (f', w') \<Longrightarrow> factory_run f' w'"
| informer_for: "factory_run f w \<Longrightarrow> allocates newFunc \<Longrightarrow> InformerFor t newFunc f w = (i, f', w') \<Longrightarrow> factory_run f' w'"
| for_resource: "factory_run f w \<Longrightarrow> ForResource gvr f w = (r, f', w') \<Longrightarrow> factory_run f' w'"

lemma ForResource_cases:
  assumes "ForResource gvr f w = (r, f', w')"
  obtains e where "r = Inl e" "f' = f" "w' = w"
  | i s where "InformerFor TypeConfiguration (defaultInformer s) f w = (i, f', w')"
      "r = Inr \<lparr>gi_informer = i, gi_resource = (gvr_Group gvr, gvr_Resource gvr)\<rparr>"
  using assms by (auto simp: ForResource_def Informer_def split: if_splits prod.splits)

lemma factory_run_ok: "factory_run f w \<Longrightarrow> factory_ok f w"
proof (induction rule: factory_run.induct)
  case (new f w)
  then show ?case by (simp add: factory_ok_def is_started_def)
next
  case (start f w ord f' w')
  then show ?case using start_loop_ok [OF start.IH] by (auto simp: Start_def)
next
  case (informer_for f w newFunc t i f' w')
  then show ?case using factory_ok_InformerFor by blast
next
  case (for_resource f w gvr r f' w')
  then show ?case
    by (elim ForResource_cases) (use factory_ok_InformerFor [OF _ allocates_default] in blast)+
qed

section \<open>Starting, waiting, asking again\<close>

lemma map_of_fold_put:
  "map_of (fold (\<lambda>t m. case h t of Some v \<Rightarrow> go_put t v m | None \<Rightarrow> m) ts m) =
    (\<lambda>t. if t \<in> set ts \<and> h t \<noteq> None then h t else map_of m t)"
  by (induction ts arbitrary: m) (auto simp: fun_eq_iff split: option.split)

lemma case_mapped:
  "(case map_option g x of None \<Rightarrow> r | Some b \<Rightarrow> F b) = (case x of None \<Rightarrow> r | Some i \<Rightarrow> F (g i))"
  by (cases x) simp_all

lemma WaitForCacheSync_started:
  assumes "fair_orders ord"
  shows "map_of (WaitForCacheSync ord synced f) =
    (\<lambda>t. if is_started f t then map_option synced (map_of (fa_informers f) t) else None)"
proof -
  let ?h = "\<lambda>t. if is_started f t then map_of (fa_informers f) t else None"
  have "(\<lambda>t m. case map_of (fa_informers f) t of Some i \<Rightarrow> if is_started f t then go_put t i m else m | None \<Rightarrow> m) =
      (\<lambda>t m. case ?h t of Some i \<Rightarrow> go_put t i m | None \<Rightarrow> m)"
    by (auto simp: fun_eq_iff split: option.split)
  moreover define m where "m = fold (\<lambda>t m. case map_of (fa_informers f) t of
        Some i \<Rightarrow> if is_started f t then go_put t i m else m | None \<Rightarrow> m)
      (name_order ord 0 (go_keys (fa_informers f))) []"
  ultimately have inner: "map_of m = ?h"
    using assms by (auto simp: map_of_fold_put fun_eq_iff domIff)
  have "WaitForCacheSync ord synced f =
      fold (\<lambda>t res. case map_option synced (map_of m t) of Some b \<Rightarrow> go_put t b res | None \<Rightarrow> res)
        (name_order ord 1 (go_keys m)) []"
    by (simp add: WaitForCacheSync_def m_def Let_def case_mapped del: case_map_option)
  then have "map_of (WaitForCacheSync ord synced f) =
      (\<lambda>t. if t \<in> set (name_order ord 1 (go_keys m)) \<and> map_option synced (map_of m t) \<noteq> None
        then map_option synced (map_of m t) else map_of [] t)"
    by (simp only: map_of_fold_put)
  moreover have "set (name_order ord 1 (go_keys m)) = dom ?h" using assms by (simp add: inner)
  ultimately show ?thesis by (auto simp: inner fun_eq_iff domIff)
qed

lemma start_loop_none:
  assumes "\<forall>t \<in> set ts. is_started f t \<or> t \<notin> dom (map_of (fa_informers f))"
  shows "start_loop ts f w = (f, w)"
  using assms by (induction ts) (auto split: option.split)

lemma Start_all:
  assumes "factory_ok f w" and "fair_orders ord" and "Start ord f w = (f', w')"
  shows "fa_informers f' = fa_informers f \<and> (\<forall>t. is_started f' t \<longleftrightarrow> t \<in> dom (map_of (fa_informers f'))) \<and>
    distinct (fw_runs w') \<and> set (fw_runs w') = ran (map_of (fa_informers f')) \<and>
    (\<forall>ord'. fair_orders ord' \<longrightarrow> Start ord' f' w' = (f', w'))"
proof -
  note s = start_loop_ok [OF assms(1) assms(3) [unfolded Start_def]]
  have st: "is_started f' t \<longleftrightarrow> t \<in> dom (map_of (fa_informers f'))" for t
    using s assms(1,2) by (auto simp: factory_ok_def)
  have "set (fw_runs w') = ran (map_of (fa_informers f'))"
    using s st by (auto simp: factory_ok_def ran_def)
  moreover have "Start ord' f' w' = (f', w')" if "fair_orders ord'" for ord'
    unfolding Start_def by (rule start_loop_none) (use that st in auto)
  ultimately show ?thesis using s st by (simp add: factory_ok_def)
qed

text \<open>The first request for the informer of configurations, and the later ones.\<close>

lemma Informer_first:
  assumes "map_of (fa_informers f) TypeConfiguration = None"
  shows "\<exists>f' w'. Informer s f w = (length (fw_informers w), f', w') \<and>
    map_of (fa_informers f') TypeConfiguration = Some (length (fw_informers w)) \<and>
    fw_informers w' = fw_informers w @ [\<lparr>in_client = fa_client f, in_namespace = sc_namespace s, in_tweak = sc_tweak s,
      in_type = TypeConfiguration,
      in_resync = (case map_of (fa_customResync f) TypeConfiguration of Some p \<Rightarrow> p | None \<Rightarrow> fa_defaultResync f),
      in_indexers = [NamespaceIndex \<mapsto> MetaNamespaceIndexFunc]\<rparr>]"
  using assms by (simp add: Informer_def InformerFor_def defaultInformer_def NewFilteredConfigurationInformer_def alloc_def Let_def)

lemma Informer_again:
  "map_of (fa_informers f) TypeConfiguration = Some i \<Longrightarrow> Informer s f w = (i, f, w)"
  by (simp add: Informer_def InformerFor_def)

lemma scope_of_factory:
  "version_Configurations (group_V1alpha1 (Lvscontroller f)) =
    \<lparr>sc_namespace = fa_namespace f, sc_tweak = fa_tweakListOptions f\<rparr>"
  by (simp add: version_Configurations_def group_V1alpha1_def Lvscontroller_def group_New_def version_New_def)

end
