(* ===== verification/Typed_Client.thy ===== *)
theory Typed_Client
  imports Client_Contract Informers
begin

text \<open>
  The typed client \<open>configurations\<close> of \<open>typed/lvscontroller/v1alpha1/configuration.go\<close>: each method
  builds a request with the builder of \<open>client-go/rest/request.go\<close> and sends it. The server is a
  parameter, \<open>serve\<close>; what an API server documents of its answers is the locale \<open>api_server\<close>, and
  over every such server the client keeps the contract of \<open>Client_Contract\<close>. Encoding parameters
  and bodies is taken not to fail, so they are sent as they are.
\<close>

section \<open>Requests\<close>

record GetOptions =
  go_ResourceVersion :: string
  go_IncludeUninitialized :: bool

datatype params = PGet GetOptions | PList ListOptions

text \<open>Delete options are opaque here; \<open>BPatch\<close> is the data of a patch with its type, the content type of the request.\<close>

datatype 'v body = BObject "'v object" | BDeleteOptions nat | BPatch string bytes

record 'v request =
  rq_verb :: string
  rq_namespace :: string
  rq_namespaceSet :: bool
  rq_resource :: string
  rq_resourceName :: string
  rq_subresource :: "string list"
  rq_params :: "params list"
  rq_body :: "'v body option"
  rq_err :: "error option"

definition NewRequest :: "string \<Rightarrow> 'v request" where
  "NewRequest verb = \<lparr>rq_verb = verb, rq_namespace = [], rq_namespaceSet = False, rq_resource = [],
     rq_resourceName = [], rq_subresource = [], rq_params = [], rq_body = None, rq_err = None\<rparr>"

definition failing :: "string \<Rightarrow> 'v request \<Rightarrow> 'v request" where
  "failing msg r = r\<lparr>rq_err := Some (Errorp msg)\<rparr>"

definition req_Namespace :: "string \<Rightarrow> 'v request \<Rightarrow> 'v request" where
  "req_Namespace namespace r =
     (if rq_err r \<noteq> None then r
      else if rq_namespaceSet r then failing ''namespace already set'' r
      else if \<not> IsValidPathSegmentName namespace then failing ''invalid namespace'' r
      else r\<lparr>rq_namespaceSet := True, rq_namespace := namespace\<rparr>)"

definition req_Resource :: "string \<Rightarrow> 'v request \<Rightarrow> 'v request" where
  "req_Resource resource r =
     (if rq_err r \<noteq> None then r
      else if length (rq_resource r) \<noteq> 0 then failing ''resource already set'' r
      else if \<not> IsValidPathSegmentName resource then failing ''invalid resource'' r
      else r\<lparr>rq_resource := resource\<rparr>)"

definition req_Name :: "string \<Rightarrow> 'v request \<Rightarrow> 'v request" where
  "req_Name resourceName r =
     (if rq_err r \<noteq> None then r
      else if length resourceName = 0 then failing ''resource name may not be empty'' r
      else if length (rq_resourceName r) \<noteq> 0 then failing ''resource name already set'' r
      else if \<not> IsValidPathSegmentName resourceName then failing ''invalid resource name'' r
      else r\<lparr>rq_resourceName := resourceName\<rparr>)"

text \<open>\<open>path.Join\<close> of the subresources drops the empty ones; of valid segments it keeps the rest.\<close>

definition req_SubResource :: "string list \<Rightarrow> 'v request \<Rightarrow> 'v request" where
  "req_SubResource subresources r =
     (if rq_err r \<noteq> None then r
      else if rq_subresource r \<noteq> [] then failing ''subresource already set'' r
      else if list_ex (\<lambda>s. \<not> IsValidPathSegmentName s) subresources then failing ''invalid subresource'' r
      else r\<lparr>rq_subresource := filter (\<lambda>s. s \<noteq> []) subresources\<rparr>)"

definition req_VersionedParams :: "params \<Rightarrow> 'v request \<Rightarrow> 'v request" where
  "req_VersionedParams p r = (if rq_err r \<noteq> None then r else r\<lparr>rq_params := rq_params r @ [p]\<rparr>)"

text \<open>A nil pointer adds no body.\<close>

definition req_Body :: "'v body option \<Rightarrow> 'v request \<Rightarrow> 'v request" where
  "req_Body b r =
     (if rq_err r \<noteq> None then r else case b of None \<Rightarrow> r | Some b \<Rightarrow> r\<lparr>rq_body := Some b\<rparr>)"

section \<open>Sending\<close>

record 'v http =
  ht_verb :: string
  ht_path :: "string list"
  ht_params :: "params list"
  ht_body :: "'v body option"

text \<open>An answer: an error, an object, a list with its resource version, or a success status.\<close>

datatype 'v response = RespErr api_error | RespObj "'v object" | RespList string "'v object list" | RespStatus

definition ToLower :: "string \<Rightarrow> string" where
  "ToLower s = map (\<lambda>c. if 65 \<le> char_code c \<and> char_code c \<le> 90 then char_of (char_code c + 32) else c) s"

text \<open>The path prefix is the one of the client's \<open>APIPath\<close> and group version, \<open>api_prefix\<close>.\<close>

definition api_prefix :: "string list" where
  "api_prefix = [''apis'', ''lvscontroller.k8s.io'', ''v1alpha1'']"

definition req_URL :: "'v request \<Rightarrow> string list" where
  "req_URL r = api_prefix @
     (if rq_namespaceSet r \<and> length (rq_namespace r) > 0 then [''namespaces'', rq_namespace r] else []) @
     (if length (rq_resource r) \<noteq> 0 then [ToLower (rq_resource r)] else []) @
     (if length (rq_resourceName r) \<noteq> 0 then [rq_resourceName r] else []) @ rq_subresource r"

definition sent :: "'v request \<Rightarrow> 'v http" where
  "sent r = \<lparr>ht_verb = rq_verb r, ht_path = req_URL r, ht_params = rq_params r, ht_body = rq_body r\<rparr>"

definition req_Do :: "('v http \<Rightarrow> 'w \<Rightarrow> 'v response \<times> 'w) \<Rightarrow> 'v request \<Rightarrow> 'w \<Rightarrow> 'v response \<times> 'w" where
  "req_Do serve r w =
     (case rq_err r of
        Some e \<Rightarrow> (RespErr (OtherError e), w)
      | None \<Rightarrow>
          if (rq_verb r = ''GET'' \<or> rq_verb r = ''PUT'' \<or> rq_verb r = ''DELETE'') \<and> rq_namespaceSet r \<and>
             length (rq_resourceName r) > 0 \<and> length (rq_namespace r) = 0
          then (RespErr (OtherError (Errorp ''an empty namespace may not be set when a resource name is provided'')), w)
          else if rq_verb r = ''POST'' \<and> rq_namespaceSet r \<and> length (rq_namespace r) = 0
          then (RespErr (OtherError (Errorp ''an empty namespace may not be set during creation'')), w)
          else serve (sent r) w)"

text \<open>\<open>Into\<close> leaves the object as it was (blank) on an error, and where the answer is a success status.\<close>

definition Into :: "'v object \<Rightarrow> 'v response \<Rightarrow> 'v object \<times> api_error option" where
  "Into blank resp =
     (case resp of
        RespErr e \<Rightarrow> (blank, Some e)
      | RespObj ob \<Rightarrow> (ob, None)
      | RespList _ _ \<Rightarrow> (blank, Some (OtherError (Errorp ''unable to decode'')))
      | RespStatus \<Rightarrow> (blank, None))"

definition IntoList :: "'v response \<Rightarrow> (string option \<times> 'v object list) \<times> api_error option" where
  "IntoList resp =
     (case resp of
        RespErr e \<Rightarrow> ((None, []), Some e)
      | RespObj ob \<Rightarrow> ((None, []), Some (OtherError (Errorp ''unable to decode'')))
      | RespList m obs \<Rightarrow> ((Some m, obs), None)
      | RespStatus \<Rightarrow> ((None, []), None))"

definition resp_Error :: "'v response \<Rightarrow> api_error option" where
  "resp_Error resp = (case resp of RespErr e \<Rightarrow> Some e | _ \<Rightarrow> None)"

section \<open>The methods\<close>

definition base_request :: "string \<Rightarrow> string \<Rightarrow> 'v request" where
  "base_request verb ns = req_Resource ''configurations'' (req_Namespace ns (NewRequest verb))"

definition configurations_Get :: "('v http \<Rightarrow> 'w \<Rightarrow> 'v response \<times> 'w) \<Rightarrow> 'v object \<Rightarrow> string \<Rightarrow> string \<Rightarrow> GetOptions \<Rightarrow> 'w
    \<Rightarrow> ('v object \<times> api_error option) \<times> 'w" where
  "configurations_Get serve blank ns name options w =
     (let (resp, w1) = req_Do serve (req_VersionedParams (PGet options) (req_Name name (base_request ''GET'' ns))) w
      in (Into blank resp, w1))"

definition configurations_List :: "('v http \<Rightarrow> 'w \<Rightarrow> 'v response \<times> 'w) \<Rightarrow> string \<Rightarrow> ListOptions \<Rightarrow> 'w
    \<Rightarrow> ((string option \<times> 'v object list) \<times> api_error option) \<times> 'w" where
  "configurations_List serve ns opts w =
     (let (resp, w1) = req_Do serve (req_VersionedParams (PList opts) (base_request ''GET'' ns)) w
      in (IntoList resp, w1))"

text \<open>A watch does not check for an empty namespace; \<open>watch\<close> opens the stream.\<close>

definition configurations_Watch :: "('v http \<Rightarrow> 'w \<Rightarrow> (api_error + 'i) \<times> 'w) \<Rightarrow> string \<Rightarrow> ListOptions \<Rightarrow> 'w
    \<Rightarrow> (api_error + 'i) \<times> 'w" where
  "configurations_Watch watch ns opts w =
     (let opts = opts\<lparr>lo_Watch := True\<rparr>; r = req_VersionedParams (PList opts) (base_request ''GET'' ns) in
      case rq_err r of Some e \<Rightarrow> (Inl (OtherError e), w) | None \<Rightarrow> watch (sent r) w)"

definition configurations_Create :: "('v http \<Rightarrow> 'w \<Rightarrow> 'v response \<times> 'w) \<Rightarrow> 'v object \<Rightarrow> string \<Rightarrow> 'v object \<Rightarrow> 'w
    \<Rightarrow> ('v object \<times> api_error option) \<times> 'w" where
  "configurations_Create serve blank ns configuration w =
     (let (resp, w1) = req_Do serve (req_Body (Some (BObject configuration)) (base_request ''POST'' ns)) w
      in (Into blank resp, w1))"

definition configurations_Update :: "('v http \<Rightarrow> 'w \<Rightarrow> 'v response \<times> 'w) \<Rightarrow> 'v object \<Rightarrow> string \<Rightarrow> 'v object \<Rightarrow> 'w
    \<Rightarrow> ('v object \<times> api_error option) \<times> 'w" where
  "configurations_Update serve blank ns configuration w =
     (let (resp, w1) = req_Do serve (req_Body (Some (BObject configuration))
            (req_Name (ob_Name configuration) (base_request ''PUT'' ns))) w
      in (Into blank resp, w1))"

definition configurations_Delete :: "('v http \<Rightarrow> 'w \<Rightarrow> 'v response \<times> 'w) \<Rightarrow> string \<Rightarrow> string \<Rightarrow> nat option \<Rightarrow> 'w
    \<Rightarrow> api_error option \<times> 'w" where
  "configurations_Delete serve ns name options w =
     (let (resp, w1) = req_Do serve (req_Body (map_option BDeleteOptions options)
            (req_Name name (base_request ''DELETE'' ns))) w
      in (resp_Error resp, w1))"

definition configurations_DeleteCollection :: "('v http \<Rightarrow> 'w \<Rightarrow> 'v response \<times> 'w) \<Rightarrow> string \<Rightarrow> nat option \<Rightarrow> ListOptions \<Rightarrow> 'w
    \<Rightarrow> api_error option \<times> 'w" where
  "configurations_DeleteCollection serve ns options listOptions w =
     (let (resp, w1) = req_Do serve (req_Body (map_option BDeleteOptions options)
            (req_VersionedParams (PList listOptions) (base_request ''DELETE'' ns))) w
      in (resp_Error resp, w1))"

definition configurations_Patch :: "('v http \<Rightarrow> 'w \<Rightarrow> 'v response \<times> 'w) \<Rightarrow> 'v object \<Rightarrow> string \<Rightarrow> string \<Rightarrow> string \<Rightarrow> bytes
    \<Rightarrow> string list \<Rightarrow> 'w \<Rightarrow> ('v object \<times> api_error option) \<times> 'w" where
  "configurations_Patch serve blank ns name pt data subresources w =
     (let (resp, w1) = req_Do serve (req_Body (Some (BPatch pt data))
            (req_Name name (req_SubResource subresources (base_request ''PATCH'' ns)))) w
      in (Into blank resp, w1))"

section \<open>What is sent\<close>

definition collection_path :: "string \<Rightarrow> string list" where
  "collection_path ns = api_prefix @ [''namespaces'', ns, ''configurations'']"

definition object_path :: "string \<Rightarrow> string \<Rightarrow> string list" where
  "object_path ns n = collection_path ns @ [n]"

lemma valid_configurations [simp]: "IsValidPathSegmentName ''configurations''" "ToLower ''configurations'' = ''configurations''"
  by code_simp+

lemmas builder_defs = base_request_def NewRequest_def req_Namespace_def req_Resource_def req_Name_def
  req_VersionedParams_def req_Body_def req_SubResource_def failing_def

lemma sent_object:
  assumes "proper ns" and "proper n"
  shows "req_Do serve (req_VersionedParams p (req_Name n (base_request ''GET'' ns))) w =
      serve \<lparr>ht_verb = ''GET'', ht_path = object_path ns n, ht_params = [p], ht_body = None\<rparr> w"
    and "req_Do serve (req_Body (Some b) (req_Name n (base_request ''PUT'' ns))) w =
      serve \<lparr>ht_verb = ''PUT'', ht_path = object_path ns n, ht_params = [], ht_body = Some b\<rparr> w"
    and "req_Do serve (req_Body ob (req_Name n (base_request ''DELETE'' ns))) w =
      serve \<lparr>ht_verb = ''DELETE'', ht_path = object_path ns n, ht_params = [], ht_body = ob\<rparr> w"
    and "req_Do serve (req_Body (Some b) (base_request ''POST'' ns)) w =
      serve \<lparr>ht_verb = ''POST'', ht_path = collection_path ns, ht_params = [], ht_body = Some b\<rparr> w"
  using assms
  by (simp_all add: builder_defs proper_def req_Do_def sent_def req_URL_def object_path_def collection_path_def
      split: option.split)

text \<open>The builder keeps the first error, and a request with an error is not sent.\<close>

lemma failed_request:
  assumes "rq_err r = Some e"
  shows "req_Name n r = r" "req_VersionedParams p r = r" "req_Body b r = r" "req_SubResource ss r = r"
    "req_Resource n r = r" "req_Do serve r w = (RespErr (OtherError e), w)"
  using assms by (simp_all add: builder_defs req_Do_def)

lemma base_request_valid:
  "IsValidPathSegmentName ns \<Longrightarrow> base_request verb ns = \<lparr>rq_verb = verb, rq_namespace = ns, rq_namespaceSet = True,
     rq_resource = ''configurations'', rq_resourceName = [], rq_subresource = [], rq_params = [], rq_body = None, rq_err = None\<rparr>"
  by (simp add: builder_defs)

lemma base_request_invalid:
  "\<not> IsValidPathSegmentName ns \<Longrightarrow> \<exists>e. rq_err (base_request verb ns) = Some e"
  by (simp add: builder_defs)

lemma named_request_invalid:
  assumes "\<not> proper n \<or> \<not> IsValidPathSegmentName ns"
  shows "\<exists>e. rq_err (req_Name n (base_request verb ns) :: 'v request) = Some e"
proof (cases "IsValidPathSegmentName ns")
  case True
  with assms show ?thesis by (auto simp: base_request_valid req_Name_def failing_def proper_def)
next
  case False
  then obtain e where e: "rq_err (base_request verb ns :: 'v request) = Some e" using base_request_invalid by blast
  then show ?thesis by (simp add: failed_request(1) [OF e])
qed

lemma named_request_valid:
  assumes "proper n" and "IsValidPathSegmentName ns"
  shows "req_Name n (base_request verb ns) = \<lparr>rq_verb = verb, rq_namespace = ns, rq_namespaceSet = True,
     rq_resource = ''configurations'', rq_resourceName = n, rq_subresource = [], rq_params = [], rq_body = None, rq_err = None\<rparr>"
  using assms by (simp add: base_request_valid req_Name_def proper_def)

text \<open>A name or namespace that is no path segment is an error, and nothing is sent.\<close>

lemma not_sent:
  fixes serve :: "'v http \<Rightarrow> 'w \<Rightarrow> 'v response \<times> 'w"
  assumes "\<not> proper n \<or> \<not> proper ns"
  shows "\<exists>e. req_Do serve (req_VersionedParams p (req_Name n (base_request ''GET'' ns))) w = (RespErr e, w)"
    and "\<exists>e. req_Do serve (req_Body b (req_Name n (base_request ''PUT'' ns))) w = (RespErr e, w)"
    and "\<exists>e. req_Do serve (req_Body b (req_Name n (base_request ''DELETE'' ns))) w = (RespErr e, w)"
proof -
  have *: "\<exists>e. req_Do serve (req_VersionedParams p (req_Name n (base_request verb ns))) w = (RespErr e, w) \<and>
      (\<exists>e. req_Do serve (req_Body b (req_Name n (base_request verb ns))) w = (RespErr e, w))"
    if v: "verb \<in> {''GET'', ''PUT'', ''DELETE''}" for verb
  proof (cases "\<not> proper n \<or> \<not> IsValidPathSegmentName ns")
    case True
    then obtain e where e: "rq_err (req_Name n (base_request verb ns) :: 'v request) = Some e"
      using named_request_invalid by blast
    then show ?thesis by (simp add: failed_request [OF e])
  next
    case False
    then have "ns = []" "n \<noteq> []" using assms by (auto simp: proper_def)
    with False v show ?thesis
      by (cases b) (auto simp: named_request_valid req_VersionedParams_def req_Body_def req_Do_def)
  qed
  from * show "\<exists>e. req_Do serve (req_VersionedParams p (req_Name n (base_request ''GET'' ns))) w = (RespErr e, w)"
    "\<exists>e. req_Do serve (req_Body b (req_Name n (base_request ''PUT'' ns))) w = (RespErr e, w)"
    "\<exists>e. req_Do serve (req_Body b (req_Name n (base_request ''DELETE'' ns))) w = (RespErr e, w)"
    by blast+
qed

section \<open>Over a server\<close>

text \<open>
  What the API server documents of a resource: an object is read at its path; creating stores it
  unless its name is taken, updating stores it if it is there, deleting removes it.
\<close>

locale api_server =
  fixes serve :: "'v http \<Rightarrow> 'w \<Rightarrow> 'v response \<times> 'w" and view :: "'w \<Rightarrow> key \<Rightarrow> 'v object option" and ok :: "'w \<Rightarrow> bool"
  assumes get_law: "ok w \<Longrightarrow> proper ns \<Longrightarrow> proper n \<Longrightarrow>
      \<exists>e w'. serve \<lparr>ht_verb = ''GET'', ht_path = object_path ns n, ht_params = ps, ht_body = None\<rparr> w =
        ((case view w (ns, n) of Some ob \<Rightarrow> RespObj ob | None \<Rightarrow> RespErr e), w') \<and> ok w' \<and> view w' = view w"
    and post_law: "ok w \<Longrightarrow> proper ns \<Longrightarrow> proper (ob_Name ob) \<Longrightarrow> ob_Namespace ob \<in> {[], ns} \<Longrightarrow>
      \<exists>ob' e w'. serve \<lparr>ht_verb = ''POST'', ht_path = collection_path ns, ht_params = [], ht_body = Some (BObject ob)\<rparr> w =
          ((if view w (ns, ob_Name ob) = None then RespObj ob' else RespErr e), w') \<and> ok w' \<and> key_of ob' = (ns, ob_Name ob) \<and>
        view w' = (if view w (ns, ob_Name ob) = None then (view w)((ns, ob_Name ob) \<mapsto> ob') else view w)"
    and put_law: "ok w \<Longrightarrow> proper ns \<Longrightarrow> proper (ob_Name ob) \<Longrightarrow> ob_Namespace ob \<in> {[], ns} \<Longrightarrow>
      \<exists>ob' e w'. serve \<lparr>ht_verb = ''PUT'', ht_path = object_path ns (ob_Name ob), ht_params = [], ht_body = Some (BObject ob)\<rparr> w =
          ((if view w (ns, ob_Name ob) \<noteq> None then RespObj ob' else RespErr e), w') \<and> ok w' \<and> key_of ob' = (ns, ob_Name ob) \<and>
        view w' = (if view w (ns, ob_Name ob) \<noteq> None then (view w)((ns, ob_Name ob) \<mapsto> ob') else view w)"
    and delete_law: "ok w \<Longrightarrow> proper ns \<Longrightarrow> proper n \<Longrightarrow>
      \<exists>e w'. serve \<lparr>ht_verb = ''DELETE'', ht_path = object_path ns n, ht_params = [], ht_body = b\<rparr> w =
        ((if view w (ns, n) \<noteq> None then RespStatus else RespErr e), w') \<and> ok w' \<and> view w' = (view w)((ns, n) := None)"

text \<open>The typed client in the shape of the contract: its pointers are never nil, and it does not panic.\<close>

definition typed_get :: "('v http \<Rightarrow> 'w \<Rightarrow> 'v response \<times> 'w) \<Rightarrow> 'v object \<Rightarrow> GetOptions \<Rightarrow> string \<Rightarrow> string \<Rightarrow> 'w
    \<Rightarrow> (('v object option \<times> api_error option) \<times> 'w) option" where
  "typed_get serve blank options ns n w =
     (let ((ob, e), w') = configurations_Get serve blank ns n options w in Some ((Some ob, e), w'))"

definition typed_create :: "('v http \<Rightarrow> 'w \<Rightarrow> 'v response \<times> 'w) \<Rightarrow> 'v object \<Rightarrow> string \<Rightarrow> 'v object \<Rightarrow> 'w
    \<Rightarrow> (('v object option \<times> api_error option) \<times> 'w) option" where
  "typed_create serve blank ns ob w =
     (let ((ob', e), w') = configurations_Create serve blank ns ob w in Some ((Some ob', e), w'))"

definition typed_update :: "('v http \<Rightarrow> 'w \<Rightarrow> 'v response \<times> 'w) \<Rightarrow> 'v object \<Rightarrow> string \<Rightarrow> 'v object \<Rightarrow> 'w
    \<Rightarrow> (('v object option \<times> api_error option) \<times> 'w) option" where
  "typed_update serve blank ns ob w =
     (let ((ob', e), w') = configurations_Update serve blank ns ob w in Some ((Some ob', e), w'))"

sublocale api_server \<subseteq> client: configurations_client view ok "typed_create serve blank" "typed_update serve blank"
    "typed_get serve blank options" "\<lambda>ns n w. Some (configurations_Delete serve ns n dopts w)"
  for blank options dopts
proof
  fix w ns n and ob :: "'v object"
  assume w: "ok w" and p: "proper ns" "proper n"
  obtain e w' where g: "serve \<lparr>ht_verb = ''GET'', ht_path = object_path ns n, ht_params = [PGet options], ht_body = None\<rparr> w =
      ((case view w (ns, n) of Some ob \<Rightarrow> RespObj ob | None \<Rightarrow> RespErr e), w')" "ok w'" "view w' = view w"
    using get_law [OF w p] by blast
  note G = typed_get_def configurations_Get_def sent_object(1) [OF p] g(1) Into_def
  show "\<exists>w'. typed_get serve blank options ns n w = Some ((Some ob, None), w') \<and> ok w' \<and> view w' = view w"
    if "view w (ns, n) = Some ob"
    using that g(2,3) by (simp add: G)
  show "\<exists>r e w'. typed_get serve blank options ns n w = Some ((r, Some e), w') \<and> ok w' \<and> view w' = view w"
    if "view w (ns, n) = None"
    using that g(2,3) by (simp add: G)
  obtain e w' where d: "serve \<lparr>ht_verb = ''DELETE'', ht_path = object_path ns n, ht_params = [],
      ht_body = map_option BDeleteOptions dopts\<rparr> w =
      ((if view w (ns, n) \<noteq> None then RespStatus else RespErr e), w')" "ok w'" "view w' = (view w)((ns, n) := None)"
    using delete_law [OF w p] by blast
  note D = configurations_Delete_def sent_object(3) [OF p] d(1) resp_Error_def
  show "\<exists>w'. Some (configurations_Delete serve ns n dopts w) = Some (None, w') \<and> ok w' \<and> view w' = (view w)((ns, n) := None)"
    if "view w (ns, n) \<noteq> None"
    using that d(2,3) by (simp add: D)
  show "\<exists>e w'. Some (configurations_Delete serve ns n dopts w) = Some (Some e, w') \<and> ok w' \<and> view w' = view w"
    if "view w (ns, n) = None"
    using that d(2,3) by (simp add: D fun_upd_idem)
next
  fix w ns and ob :: "'v object"
  assume w: "ok w" and p: "proper ns" "proper (ob_Name ob)" and o: "ob_Namespace ob \<in> {[], ns}"
  obtain ob' e w' where c: "serve \<lparr>ht_verb = ''POST'', ht_path = collection_path ns, ht_params = [], ht_body = Some (BObject ob)\<rparr> w =
        ((if view w (ns, ob_Name ob) = None then RespObj ob' else RespErr e), w')" "ok w'" "key_of ob' = (ns, ob_Name ob)"
      "view w' = (if view w (ns, ob_Name ob) = None then (view w)((ns, ob_Name ob) \<mapsto> ob') else view w)"
    using post_law [OF w p o] by blast
  note C = typed_create_def configurations_Create_def sent_object(4) [OF p] c(1) Into_def
  show "\<exists>ob' w'. typed_create serve blank ns ob w = Some ((Some ob', None), w') \<and> ok w' \<and> key_of ob' = (ns, ob_Name ob) \<and>
      view w' = (view w)((ns, ob_Name ob) \<mapsto> ob')" if "view w (ns, ob_Name ob) = None"
    using that c(2-4) by (auto simp: C)
  show "\<exists>r e w'. typed_create serve blank ns ob w = Some ((r, Some e), w') \<and> ok w' \<and> view w' = view w"
    if "view w (ns, ob_Name ob) \<noteq> None"
    using that c(2-4) by (auto simp: C)
  obtain ob' e w' where u: "serve \<lparr>ht_verb = ''PUT'', ht_path = object_path ns (ob_Name ob), ht_params = [], ht_body = Some (BObject ob)\<rparr> w =
        ((if view w (ns, ob_Name ob) \<noteq> None then RespObj ob' else RespErr e), w')" "ok w'" "key_of ob' = (ns, ob_Name ob)"
      "view w' = (if view w (ns, ob_Name ob) \<noteq> None then (view w)((ns, ob_Name ob) \<mapsto> ob') else view w)"
    using put_law [OF w p o] by blast
  note U = typed_update_def configurations_Update_def sent_object(2) [OF p] u(1) Into_def
  show "\<exists>ob' w'. typed_update serve blank ns ob w = Some ((Some ob', None), w') \<and> ok w' \<and> key_of ob' = (ns, ob_Name ob) \<and>
      view w' = (view w)((ns, ob_Name ob) \<mapsto> ob')" if "view w (ns, ob_Name ob) \<noteq> None"
    using that u(2-4) by (auto simp: U)
  show "\<exists>r e w'. typed_update serve blank ns ob w = Some ((r, Some e), w') \<and> ok w' \<and> view w' = view w"
    if "view w (ns, ob_Name ob) = None"
    using that u(2-4) by (auto simp: U)
qed

context api_server
begin

lemma typed_contract:
  "configurations_client view ok (typed_create serve blank) (typed_update serve blank)
    (typed_get serve blank options) (\<lambda>ns n w. Some (configurations_Delete serve ns n dopts w))"
  by unfold_locales

end

end
