(* ===== verification/Fake_Client.thy ===== *)
theory Fake_Client
  imports Client_Contract Informers Api_Types
begin

text \<open>
  The fake client set: \<open>clientset_generated.go\<close>, \<open>fake_lvscontroller_client.go\<close> and
  \<open>fake_configuration.go\<close>, over the object tracker and the reaction chain of
  \<open>client-go/testing\<close> (\<open>fixture.go\<close>, \<open>fake.go\<close>, \<open>actions.go\<close>). The tracker copies objects deeply
  when they go in and out, so they are values here. The only objects are configurations.
  A panic is \<open>None\<close>. Parsing selectors and merging patches are parameters.
\<close>

section \<open>The tracker\<close>

datatype 'v watch_event = Added "'v object" | Modified "'v object" | Deleted "'v object"

text \<open>\<open>tk_events\<close> are the events sent to each watcher, by its number.\<close>

record 'v tracker =
  tk_objects :: "GroupVersionResource \<Rightarrow> 'v object list"
  tk_watchers :: "GroupVersionResource \<Rightarrow> string \<Rightarrow> nat list"
  tk_events :: "'v watch_event list list"

definition NewObjectTracker :: "'v tracker" where
  "NewObjectTracker = \<lparr>tk_objects = (\<lambda>_. []), tk_watchers = (\<lambda>_ _. []), tk_events = []\<rparr>"

definition filterByNamespaceAndName :: "'v object list \<Rightarrow> string \<Rightarrow> string \<Rightarrow> 'v object list" where
  "filterByNamespaceAndName objs ns name =
     filter (\<lambda>ob. \<not> (ns \<noteq> [] \<and> ob_Namespace ob \<noteq> ns) \<and> \<not> (name \<noteq> [] \<and> ob_Name ob \<noteq> name)) objs"

definition tracker_List :: "GroupVersionResource \<Rightarrow> string \<Rightarrow> 'v tracker \<Rightarrow> ListMeta \<times> 'v object list" where
  "tracker_List gvr ns t = (zero_ListMeta, filterByNamespaceAndName (tk_objects t gvr) ns [])"

definition tracker_Get :: "GroupVersionResource \<Rightarrow> string \<Rightarrow> string \<Rightarrow> 'v tracker \<Rightarrow> api_error + 'v object" where
  "tracker_Get gvr ns name t =
     (case filterByNamespaceAndName (tk_objects t gvr) ns name of
        [] \<Rightarrow> Inl (NotFound (gvr_Resource gvr) name)
      | [ob] \<Rightarrow> Inr ob
      | _ \<Rightarrow> Inl (OtherError (Errorp ''more than one object matched'')))"

definition getWatches :: "GroupVersionResource \<Rightarrow> string \<Rightarrow> 'v tracker \<Rightarrow> nat list" where
  "getWatches gvr ns t = tk_watchers t gvr ns @ tk_watchers t gvr []"

definition notify :: "nat list \<Rightarrow> 'v watch_event \<Rightarrow> 'v tracker \<Rightarrow> 'v tracker" where
  "notify ws ev t = t\<lparr>tk_events := fold (\<lambda>i evs. evs[i := evs ! i @ [ev]]) ws (tk_events t)\<rparr>"

text \<open>The index of the first object with a namespace and name.\<close>

fun find_object :: "key \<Rightarrow> 'v object list \<Rightarrow> nat option" where
  "find_object k [] = None"
| "find_object k (ob # obs) = (if key_of ob = k then Some 0 else map_option Suc (find_object k obs))"

definition tracker_add :: "GroupVersionResource \<Rightarrow> 'v object \<Rightarrow> string \<Rightarrow> bool \<Rightarrow> 'v tracker \<Rightarrow> api_error option \<times> 'v tracker" where
  "tracker_add gvr obj ns replaceExisting t =
     (let obj = (if ob_Namespace obj = [] then obj\<lparr>ob_Namespace := ns\<rparr> else obj) in
      if ns \<noteq> ob_Namespace obj
      then (Some (BadRequest ''request namespace does not match object namespace''), t)
      else case find_object (key_of obj) (tk_objects t gvr) of
        Some i \<Rightarrow>
          if replaceExisting
          then (None, (notify (getWatches gvr ns t) (Modified obj) t)
                 \<lparr>tk_objects := (tk_objects t)(gvr := (tk_objects t gvr)[i := obj])\<rparr>)
          else (Some (AlreadyExists (gvr_Resource gvr) (ob_Name obj)), t)
      | None \<Rightarrow>
          if replaceExisting then (Some (NotFound (gvr_Resource gvr) (ob_Name obj)), t)
          else (None, (notify (getWatches gvr ns t) (Added obj) t)
                 \<lparr>tk_objects := (tk_objects t)(gvr := tk_objects t gvr @ [obj])\<rparr>))"

definition tracker_Delete :: "GroupVersionResource \<Rightarrow> string \<Rightarrow> string \<Rightarrow> 'v tracker \<Rightarrow> api_error option \<times> 'v tracker" where
  "tracker_Delete gvr ns name t =
     (case find_object (ns, name) (tk_objects t gvr) of
        Some i \<Rightarrow> (None, notify (getWatches gvr ns t) (Deleted (tk_objects t gvr ! i))
          (t\<lparr>tk_objects := (tk_objects t)(gvr := take i (tk_objects t gvr) @ drop (Suc i) (tk_objects t gvr))\<rparr>))
      | None \<Rightarrow> (Some (NotFound (gvr_Resource gvr) name), t))"

definition tracker_Watch :: "GroupVersionResource \<Rightarrow> string \<Rightarrow> 'v tracker \<Rightarrow> nat \<times> 'v tracker" where
  "tracker_Watch gvr ns t =
     (let i = length (tk_events t)
      in (i, t\<lparr>tk_watchers := (tk_watchers t)(gvr := (tk_watchers t gvr)(ns := tk_watchers t gvr ns @ [i])),
               tk_events := tk_events t @ [[]]\<rparr>))"

section \<open>Actions and reactions\<close>

datatype 'v action_kind = AGet string | AList selector | ACreate string "'v object" | AUpdate "'v object"
  | ADelete string | ADeleteCollection selector | APatch string string bytes | AWatch selector

record 'v action =
  ac_Resource :: GroupVersionResource
  ac_Namespace :: string
  ac_Kind :: "'v action_kind"

fun kind_verb :: "'v action_kind \<Rightarrow> string" where
  "kind_verb (AGet _) = ''get''"
| "kind_verb (AList _) = ''list''"
| "kind_verb (ACreate _ _) = ''create''"
| "kind_verb (AUpdate _) = ''update''"
| "kind_verb (ADelete _) = ''delete''"
| "kind_verb (ADeleteCollection _) = ''delete-collection''"
| "kind_verb (APatch _ _ _) = ''patch''"
| "kind_verb (AWatch _) = ''watch''"

text \<open>A \<open>runtime.Object\<close> of the group; nil is \<open>None\<close>.\<close>

datatype 'v robject = RConfiguration "'v object" | RConfigurationList ListMeta "'v object list"

type_synonym 'v reaction = "bool \<times> 'v robject option \<times> api_error option"

definition of_get :: "api_error + 'v object \<Rightarrow> 'v robject option \<times> api_error option" where
  "of_get r = (case r of Inl e \<Rightarrow> (None, Some e) | Inr ob \<Rightarrow> (Some (RConfiguration ob), None))"

text \<open>\<open>merge\<close> is marshalling, the strategic merge and unmarshalling of a patch.\<close>

definition ObjectReaction :: "(bytes \<Rightarrow> 'v object \<Rightarrow> api_error + 'v object) \<Rightarrow> 'v action \<Rightarrow> 'v tracker
    \<Rightarrow> 'v reaction \<times> 'v tracker" where
  "ObjectReaction merge action t =
     (let ns = ac_Namespace action; gvr = ac_Resource action in
      case ac_Kind action of
        AList _ \<Rightarrow> (let (lm, obs) = tracker_List gvr ns t in ((True, Some (RConfigurationList lm obs), None), t))
      | AGet name \<Rightarrow> ((True, of_get (tracker_Get gvr ns name t)), t)
      | ACreate sub obj \<Rightarrow>
          (let (err, t1) = tracker_add gvr obj ns (sub \<noteq> []) t in
           if err \<noteq> None then ((True, None, err), t1)
           else ((True, of_get (tracker_Get gvr ns (ob_Name obj) t1)), t1))
      | AUpdate obj \<Rightarrow>
          (let (err, t1) = tracker_add gvr obj ns True t in
           if err \<noteq> None then ((True, None, err), t1)
           else ((True, of_get (tracker_Get gvr ns (ob_Name obj) t1)), t1))
      | ADelete name \<Rightarrow> (let (err, t1) = tracker_Delete gvr ns name t in ((True, None, err), t1))
      | APatch name sub patch \<Rightarrow>
          (case tracker_Get gvr ns name t of
             Inl err \<Rightarrow> ((False, None, Some err), t)
           | Inr obj \<Rightarrow>
               (case merge patch obj of
                  Inl err \<Rightarrow> ((True, None, Some err), t)
                | Inr obj' \<Rightarrow>
                    (let (err, t1) = tracker_add gvr obj' ns True t in
                     if err \<noteq> None then ((True, None, err), t1)
                     else ((True, Some (RConfiguration obj'), None), t1))))
      | _ \<Rightarrow> ((False, None, Some (OtherError (Errorp ''no reaction implemented''))), t))"

text \<open>A reactor covers a verb and a resource, \<open>*\<close> covers all.\<close>

record 'v reactor =
  rt_Verb :: string
  rt_Resource :: string
  rt_React :: "'v action \<Rightarrow> 'v tracker \<Rightarrow> 'v reaction \<times> 'v tracker"

definition Handles :: "'v reactor \<Rightarrow> 'v action \<Rightarrow> bool" where
  "Handles r a \<longleftrightarrow> (rt_Verb r = ''*'' \<or> rt_Verb r = kind_verb (ac_Kind a)) \<and>
     (rt_Resource r = ''*'' \<or> rt_Resource r = gvr_Resource (ac_Resource a))"

record 'v fake =
  fk_actions :: "'v action list"
  fk_chain :: "'v reactor list"
  fk_tracker :: "'v tracker"

fun react :: "'v reactor list \<Rightarrow> 'v action \<Rightarrow> 'v robject \<Rightarrow> 'v tracker \<Rightarrow> ('v robject option \<times> api_error option) \<times> 'v tracker" where
  "react [] a dflt t = ((Some dflt, None), t)"
| "react (r # rs) a dflt t =
     (if \<not> Handles r a then react rs a dflt t
      else case rt_React r a t of
        ((handled, ret, err), t1) \<Rightarrow> if \<not> handled then react rs a dflt t1 else ((ret, err), t1))"

definition Invokes :: "'v action \<Rightarrow> 'v robject \<Rightarrow> 'v fake \<Rightarrow> ('v robject option \<times> api_error option) \<times> 'v fake" where
  "Invokes a defaultReturnObj c =
     (let ((ret, err), t) = react (fk_chain c) a defaultReturnObj (fk_tracker c)
      in ((ret, err), c\<lparr>fk_actions := fk_actions c @ [a], fk_tracker := t\<rparr>))"

section \<open>The methods of the fake\<close>

definition configurationsResource :: GroupVersionResource where
  "configurationsResource = \<lparr>gvr_Group = ''lvscontroller.k8s.io'', gvr_Version = ''v1alpha1'', gvr_Resource = ''configurations''\<rparr>"

definition act :: "string \<Rightarrow> 'v action_kind \<Rightarrow> 'v action" where
  "act ns k = \<lparr>ac_Resource = configurationsResource, ac_Namespace = ns, ac_Kind = k\<rparr>"

text \<open>\<open>obj.(*v1alpha1.Configuration)\<close> panics on an object of another type.\<close>

definition as_configuration :: "'v robject option \<times> api_error option \<Rightarrow> ('v object option \<times> api_error option) option" where
  "as_configuration r =
     (case r of
        (None, err) \<Rightarrow> Some (None, err)
      | (Some (RConfiguration ob), err) \<Rightarrow> Some (Some ob, err)
      | (Some (RConfigurationList _ _), err) \<Rightarrow> None)"

text \<open>\<open>blank\<close> is \<open>&v1alpha1.Configuration{}\<close>.\<close>

definition FakeConfigurations_Get :: "'v object \<Rightarrow> string \<Rightarrow> string \<Rightarrow> 'v fake
    \<Rightarrow> (('v object option \<times> api_error option) \<times> 'v fake) option" where
  "FakeConfigurations_Get blank ns name c =
     (let (r, c1) = Invokes (act ns (AGet name)) (RConfiguration blank) c
      in map_option (\<lambda>r. (r, c1)) (as_configuration r))"

definition FakeConfigurations_List :: "(string \<Rightarrow> selector option) \<Rightarrow> string \<Rightarrow> ListOptions \<Rightarrow> 'v fake
    \<Rightarrow> (((ListMeta \<times> 'v object list) option \<times> api_error option) \<times> 'v fake) option" where
  "FakeConfigurations_List Parse ns opts c = do {
     label \<leftarrow> Parse (lo_LabelSelector opts);
     let ((obj, err), c1) = Invokes (act ns (AList label)) (RConfigurationList zero_ListMeta []) c;
     (case obj of
        None \<Rightarrow> Some ((None, err), c1)
      | Some (RConfiguration _) \<Rightarrow> None
      | Some (RConfigurationList lm obs) \<Rightarrow>
          Some ((Some (lm, append_matching (\<lambda>m. label (ob_Labels m)) obs []), err), c1))
   }"

definition FakeConfigurations_Create :: "'v object \<Rightarrow> string \<Rightarrow> 'v object \<Rightarrow> 'v fake
    \<Rightarrow> (('v object option \<times> api_error option) \<times> 'v fake) option" where
  "FakeConfigurations_Create blank ns configuration c =
     (let (r, c1) = Invokes (act ns (ACreate [] configuration)) (RConfiguration blank) c
      in map_option (\<lambda>r. (r, c1)) (as_configuration r))"

definition FakeConfigurations_Update :: "'v object \<Rightarrow> string \<Rightarrow> 'v object \<Rightarrow> 'v fake
    \<Rightarrow> (('v object option \<times> api_error option) \<times> 'v fake) option" where
  "FakeConfigurations_Update blank ns configuration c =
     (let (r, c1) = Invokes (act ns (AUpdate configuration)) (RConfiguration blank) c
      in map_option (\<lambda>r. (r, c1)) (as_configuration r))"

definition FakeConfigurations_Delete :: "'v object \<Rightarrow> string \<Rightarrow> string \<Rightarrow> 'v fake \<Rightarrow> api_error option \<times> 'v fake" where
  "FakeConfigurations_Delete blank ns name c =
     (let ((_, err), c1) = Invokes (act ns (ADelete name)) (RConfiguration blank) c in (err, c1))"

definition FakeConfigurations_DeleteCollection :: "(string \<Rightarrow> selector option) \<Rightarrow> string \<Rightarrow> ListOptions \<Rightarrow> 'v fake
    \<Rightarrow> (api_error option \<times> 'v fake) option" where
  "FakeConfigurations_DeleteCollection Parse ns listOptions c = do {
     label \<leftarrow> Parse (lo_LabelSelector listOptions);
     let ((_, err), c1) = Invokes (act ns (ADeleteCollection label)) (RConfigurationList zero_ListMeta []) c;
     Some (err, c1)
   }"

text \<open>\<open>path.Join\<close> of the subresources is a parameter of the patch's action.\<close>

definition FakeConfigurations_Patch :: "'v object \<Rightarrow> string \<Rightarrow> string \<Rightarrow> bytes \<Rightarrow> string \<Rightarrow> 'v fake
    \<Rightarrow> (('v object option \<times> api_error option) \<times> 'v fake) option" where
  "FakeConfigurations_Patch blank ns name data subresource c =
     (let (r, c1) = Invokes (act ns (APatch name subresource data)) (RConfiguration blank) c
      in map_option (\<lambda>r. (r, c1)) (as_configuration r))"

text \<open>The watch reactor of \<open>NewSimpleClientset\<close> is the only one of its chain.\<close>

definition FakeConfigurations_Watch :: "(string \<Rightarrow> selector option) \<Rightarrow> string \<Rightarrow> ListOptions \<Rightarrow> 'v fake
    \<Rightarrow> (nat \<times> 'v fake) option" where
  "FakeConfigurations_Watch Parse ns opts c = do {
     label \<leftarrow> Parse (lo_LabelSelector opts);
     let a = act ns (AWatch label);
     let (i, t) = tracker_Watch (ac_Resource a) (ac_Namespace a) (fk_tracker c);
     Some (i, c\<lparr>fk_actions := fk_actions c @ [a], fk_tracker := t\<rparr>)
   }"

text \<open>
  \<open>NewSimpleClientset\<close> adds its objects to the tracker under the resource guessed from their kind,
  which is \<open>configurations\<close>; it panics on an object that cannot be added.
\<close>

fun add_objects :: "'v object list \<Rightarrow> 'v tracker \<Rightarrow> 'v tracker option" where
  "add_objects [] t = Some t"
| "add_objects (obj # objs) t =
     (case tracker_add configurationsResource obj (ob_Namespace obj) False t of
        (None, t1) \<Rightarrow> add_objects objs t1
      | (Some err, t1) \<Rightarrow> None)"

definition NewSimpleClientset :: "(bytes \<Rightarrow> 'v object \<Rightarrow> api_error + 'v object) \<Rightarrow> 'v object list \<Rightarrow> 'v fake option" where
  "NewSimpleClientset merge objects = do {
     o1 \<leftarrow> add_objects objects NewObjectTracker;
     Some \<lparr>fk_actions = [], fk_chain = [\<lparr>rt_Verb = ''*'', rt_Resource = ''*'', rt_React = ObjectReaction merge\<rparr>],
       fk_tracker = o1\<rparr>
   }"

text \<open>
  The accessors of the fake client set hand on the address of the one \<open>Fake\<close> in it; the methods
  above act on the \<open>Fake\<close> at that address. \<open>RESTClient\<close> gives an interface that holds a nil
  pointer, which is not the nil interface.
\<close>

record fake_Clientset =
  fcs_Fake :: nat
  fcs_discovery :: nat

record FakeLvscontrollerV1alpha1 =
  fl_Fake :: nat

record FakeConfigurations =
  fcn_Fake :: FakeLvscontrollerV1alpha1
  fcn_ns :: string

definition fake_Discovery :: "fake_Clientset \<Rightarrow> nat" where
  "fake_Discovery c = fcs_discovery c"

definition fake_LvscontrollerV1alpha1 :: "fake_Clientset \<Rightarrow> FakeLvscontrollerV1alpha1" where
  "fake_LvscontrollerV1alpha1 c = \<lparr>fl_Fake = fcs_Fake c\<rparr>"

definition fake_Lvscontroller :: "fake_Clientset \<Rightarrow> FakeLvscontrollerV1alpha1" where
  "fake_Lvscontroller c = \<lparr>fl_Fake = fcs_Fake c\<rparr>"

definition fake_Configurations :: "FakeLvscontrollerV1alpha1 \<Rightarrow> string \<Rightarrow> FakeConfigurations" where
  "fake_Configurations c namespace = \<lparr>fcn_Fake = c, fcn_ns = namespace\<rparr>"

datatype rest_interface = NilInterface | RESTClientPointer "nat option"

definition fake_RESTClient :: "FakeLvscontrollerV1alpha1 \<Rightarrow> rest_interface" where
  "fake_RESTClient c = (let ret = None in RESTClientPointer ret)"

lemma same_Fake:
  "fl_Fake (fcn_Fake (fake_Configurations (fake_LvscontrollerV1alpha1 c) ns)) = fcs_Fake c"
  "fl_Fake (fcn_Fake (fake_Configurations (fake_Lvscontroller c) ns)) = fcs_Fake c"
  by (simp_all add: fake_Configurations_def fake_LvscontrollerV1alpha1_def fake_Lvscontroller_def)

end
