(* ===== verification/Fake_Correct.thy ===== *)
theory Fake_Correct
  imports Fake_Client
begin

text \<open>
  The fake client keeps the contract of \<open>Client_Contract\<close>: what the tracker holds for the
  resource, by namespace and name, with at most one object per key. And where it departs from a
  server.
\<close>

section \<open>Objects by key\<close>

definition by_key :: "'v object list \<Rightarrow> key \<Rightarrow> 'v object option" where
  "by_key obs = map_of (map (\<lambda>ob. (key_of ob, ob)) obs)"

definition keys_distinct :: "'v object list \<Rightarrow> bool" where
  "keys_distinct obs \<longleftrightarrow> distinct (map (\<lambda>ob. key_of ob) obs)"

lemma by_key_simps [simp]:
  "by_key [] k = None"
  "by_key (ob # obs) k = (if k = key_of ob then Some ob else by_key obs k)"
  by (simp_all add: by_key_def)

lemma by_key_None: "by_key obs k = None \<longleftrightarrow> (\<forall>ob \<in> set obs. key_of ob \<noteq> k)"
  by (induction obs) auto

lemma keys_distinct_Nil [simp]: "keys_distinct []"
  by (simp add: keys_distinct_def)

lemma keys_distinct_Cons [simp]:
  "keys_distinct (ob # obs) \<longleftrightarrow> by_key obs (key_of ob) = None \<and> keys_distinct obs"
proof -
  have "key_of ob \<notin> (\<lambda>ob. key_of ob) ` set obs \<longleftrightarrow> by_key obs (key_of ob) = None"
    unfolding by_key_None by (auto simp: image_iff simp del: prod.inject)
  then show ?thesis by (simp add: keys_distinct_def)
qed

lemma find_object_by_key:
  "find_object k obs = None \<longleftrightarrow> by_key obs k = None"
  "find_object k obs = Some i \<Longrightarrow> i < length obs \<and> by_key obs k = Some (obs ! i) \<and> key_of (obs ! i) = k"
  by (induction obs arbitrary: i) (auto split: if_splits)

lemma by_key_append: "by_key (obs @ [ob]) k = (case by_key obs k of Some x \<Rightarrow> Some x | None \<Rightarrow> by_key [ob] k)"
  by (induction obs) auto

lemma keys_distinct_snoc: "keys_distinct obs \<Longrightarrow> by_key obs (key_of ob) = None \<Longrightarrow> keys_distinct (obs @ [ob])"
  by (induction obs) (auto simp: by_key_append split: if_splits)

lemma by_key_put:
  assumes "keys_distinct obs" and "i < length obs" and "key_of (obs ! i) = key_of ob"
  shows "by_key (obs[i := ob]) = (by_key obs)(key_of ob \<mapsto> ob) \<and> keys_distinct (obs[i := ob])"
proof -
  have "map (\<lambda>ob. key_of ob) (obs[i := ob]) = map (\<lambda>ob. key_of ob) obs"
    using assms(2,3) by (simp add: map_update list_update_same_conv)
  then have d: "keys_distinct (obs[i := ob])" using assms(1) by (simp add: keys_distinct_def)
  moreover have "by_key (obs[i := ob]) k = ((by_key obs)(key_of ob \<mapsto> ob)) k" for k
    using assms
  proof (induction obs arbitrary: i)
    case (Cons x obs)
    show ?case
    proof (cases i)
      case (Suc j)
      with Cons.prems have j: "j < length obs" "key_of (obs ! j) = key_of ob" "keys_distinct obs"
        "key_of x \<noteq> key_of ob"
        by (auto simp: by_key_None)
      with Cons.IH [OF j(3,1,2)] Suc show ?thesis by auto
    qed (use Cons.prems in auto)
  qed simp
  ultimately show ?thesis by (simp add: fun_eq_iff)
qed

lemma by_key_del:
  assumes "keys_distinct obs" and "i < length obs" and "key_of (obs ! i) = k"
  shows "by_key (take i obs @ drop (Suc i) obs) = (by_key obs)(k := None) \<and>
    keys_distinct (take i obs @ drop (Suc i) obs)"
  using assms
proof (induction obs arbitrary: i)
  case (Cons x obs)
  show ?case
  proof (cases i)
    case 0
    with Cons.prems have "k = key_of x" "by_key obs k = None" by auto
    with 0 Cons.prems show ?thesis by (simp add: fun_eq_iff)
  next
    case (Suc j)
    with Cons.prems have j: "keys_distinct obs" "j < length obs" "key_of (obs ! j) = k" "k \<noteq> key_of x"
      "by_key obs (key_of x) = None"
      by (auto simp: by_key_None)
    from Cons.IH [OF j(1-3)] j(4,5) Suc show ?thesis by (auto simp: fun_eq_iff simp del: split_paired_All)
  qed
qed simp

lemma filter_key:
  assumes "keys_distinct obs" and "ns \<noteq> []" and "n \<noteq> []"
  shows "filterByNamespaceAndName obs ns n = (case by_key obs (ns, n) of None \<Rightarrow> [] | Some ob \<Rightarrow> [ob])"
  using assms(1)
proof (induction obs)
  case (Cons x obs)
  then have d: "keys_distinct obs" "by_key obs (key_of x) = None" by simp_all
  from Cons.IH [OF d(1)] d(2) assms(2,3) show ?case
    by (auto simp: filterByNamespaceAndName_def)
qed (simp add: filterByNamespaceAndName_def)

section \<open>The contract\<close>

definition fake_view :: "'v fake \<Rightarrow> key \<Rightarrow> 'v object option" where
  "fake_view c = by_key (tk_objects (fk_tracker c) configurationsResource)"

definition simple_chain :: "(bytes \<Rightarrow> 'v object \<Rightarrow> api_error + 'v object) \<Rightarrow> 'v reactor list" where
  "simple_chain merge = [\<lparr>rt_Verb = ''*'', rt_Resource = ''*'', rt_React = ObjectReaction merge\<rparr>]"

definition fake_ok :: "(bytes \<Rightarrow> 'v object \<Rightarrow> api_error + 'v object) \<Rightarrow> 'v fake \<Rightarrow> bool" where
  "fake_ok merge c \<longleftrightarrow> fk_chain c = simple_chain merge \<and>
     keys_distinct (tk_objects (fk_tracker c) configurationsResource)"

lemma notify_objects [simp]: "tk_objects (notify ws ev t) = tk_objects t"
  by (simp add: notify_def)

lemma Invokes_simple:
  assumes "fk_chain c = simple_chain merge"
  shows "Invokes a dflt c =
    (case ObjectReaction merge a (fk_tracker c) of ((handled, ret, err), t) \<Rightarrow>
       (if handled then (ret, err) else (Some dflt, None), c\<lparr>fk_actions := fk_actions c @ [a], fk_tracker := t\<rparr>))"
  using assms by (auto simp: Invokes_def simple_chain_def Handles_def Let_def split: prod.split)

lemma tracker_Get_key:
  assumes "keys_distinct (tk_objects t gvr)" and "ns \<noteq> []" and "n \<noteq> []"
  shows "tracker_Get gvr ns n t = (case by_key (tk_objects t gvr) (ns, n) of
    None \<Rightarrow> Inl (NotFound (gvr_Resource gvr) n) | Some ob \<Rightarrow> Inr ob)"
  by (simp add: tracker_Get_def filter_key [OF assms] split: option.split)

lemma tracker_add_key:
  assumes d: "keys_distinct (tk_objects t gvr)" and "ns \<noteq> []" and "ob_Namespace ob \<in> {[], ns}"
  defines "ob' \<equiv> ob\<lparr>ob_Namespace := ns\<rparr>"
  shows "(by_key (tk_objects t gvr) (ns, ob_Name ob) \<noteq> None) = repl \<Longrightarrow>
      \<exists>t'. tracker_add gvr ob ns repl t = (None, t') \<and> keys_distinct (tk_objects t' gvr) \<and>
        by_key (tk_objects t' gvr) = (by_key (tk_objects t gvr))((ns, ob_Name ob) \<mapsto> ob')"
    and "(by_key (tk_objects t gvr) (ns, ob_Name ob) \<noteq> None) \<noteq> repl \<Longrightarrow>
      \<exists>e. tracker_add gvr ob ns repl t = (Some e, t)"
proof -
  have o: "(if ob_Namespace ob = [] then ob\<lparr>ob_Namespace := ns\<rparr> else ob) = ob'"
    using assms(2,3) by (auto simp: ob'_def)
  have k: "ob_Namespace ob' = ns" "ob_Name ob' = ob_Name ob" "key_of ob' = (ns, ob_Name ob)" by (simp_all add: ob'_def)
  show "\<exists>e. tracker_add gvr ob ns repl t = (Some e, t)"
    if "(by_key (tk_objects t gvr) (ns, ob_Name ob) \<noteq> None) \<noteq> repl"
    using that k find_object_by_key(1) [of "key_of ob'" "tk_objects t gvr"]
    by (cases "find_object (key_of ob') (tk_objects t gvr)") (auto simp: tracker_add_def o)
  assume r: "(by_key (tk_objects t gvr) (ns, ob_Name ob) \<noteq> None) = repl"
  show "\<exists>t'. tracker_add gvr ob ns repl t = (None, t') \<and> keys_distinct (tk_objects t' gvr) \<and>
        by_key (tk_objects t' gvr) = (by_key (tk_objects t gvr))((ns, ob_Name ob) \<mapsto> ob')"
  proof (cases "find_object (key_of ob') (tk_objects t gvr)")
    case None
    then have n: "by_key (tk_objects t gvr) (key_of ob') = None" using find_object_by_key(1) by blast
    have "keys_distinct (tk_objects t gvr @ [ob'])" by (rule keys_distinct_snoc [OF d n])
    moreover have "by_key (tk_objects t gvr @ [ob']) = (by_key (tk_objects t gvr))(key_of ob' \<mapsto> ob')"
      using n by (auto simp: by_key_append fun_eq_iff split: option.split)
    ultimately show ?thesis using None r n k by (auto simp: tracker_add_def o)
  next
    case (Some i)
    note f = find_object_by_key(2) [OF Some]
    from by_key_put [OF d, of i ob'] f Some r k show ?thesis by (auto simp: tracker_add_def o)
  qed
qed

lemma proper_ne: "proper n \<Longrightarrow> n \<noteq> []"
  by (simp add: proper_def)

lemmas fake_method_defs = act_def ObjectReaction_def of_get_def as_configuration_def

lemma fake_contract:
  "configurations_client fake_view (fake_ok merge) (FakeConfigurations_Create blank) (FakeConfigurations_Update blank)
    (FakeConfigurations_Get blank) (\<lambda>ns n c. Some (FakeConfigurations_Delete blank ns n c))"
proof
  fix c :: "'a fake" and ns n and ob :: "'a object"
  assume c: "fake_ok merge c" and ns: "proper ns" and n: "proper n"
  then have ch: "fk_chain c = simple_chain merge" and d: "keys_distinct (tk_objects (fk_tracker c) configurationsResource)"
    by (simp_all add: fake_ok_def)
  note g = tracker_Get_key [OF d proper_ne [OF ns] proper_ne [OF n]]
  show "\<exists>c'. FakeConfigurations_Get blank ns n c = Some ((Some ob, None), c') \<and> fake_ok merge c' \<and> fake_view c' = fake_view c"
    if "fake_view c (ns, n) = Some ob"
    using that c by (simp add: FakeConfigurations_Get_def Invokes_simple [OF ch] fake_method_defs fake_view_def g fake_ok_def)
  show "\<exists>r e c'. FakeConfigurations_Get blank ns n c = Some ((r, Some e), c') \<and> fake_ok merge c' \<and> fake_view c' = fake_view c"
    if "fake_view c (ns, n) = None"
    using that c by (simp add: FakeConfigurations_Get_def Invokes_simple [OF ch] fake_method_defs fake_view_def g fake_ok_def)
  show "\<exists>c'. Some (FakeConfigurations_Delete blank ns n c) = Some (None, c') \<and> fake_ok merge c' \<and>
      fake_view c' = (fake_view c)((ns, n) := None)" if v: "fake_view c (ns, n) \<noteq> None"
  proof -
    obtain i where i: "find_object (ns, n) (tk_objects (fk_tracker c) configurationsResource) = Some i"
      using v find_object_by_key(1) [of "(ns, n)" "tk_objects (fk_tracker c) configurationsResource"]
      by (cases "find_object (ns, n) (tk_objects (fk_tracker c) configurationsResource)") (auto simp: fake_view_def)
    from find_object_by_key(2) [OF i] by_key_del [OF d, of i "(ns, n)"] i c show ?thesis
      by (simp add: FakeConfigurations_Delete_def Invokes_simple [OF ch] fake_method_defs tracker_Delete_def
        fake_view_def fake_ok_def)
  qed
  show "\<exists>e c'. Some (FakeConfigurations_Delete blank ns n c) = Some (Some e, c') \<and> fake_ok merge c' \<and>
      fake_view c' = fake_view c" if "fake_view c (ns, n) = None"
  proof -
    have "find_object (ns, n) (tk_objects (fk_tracker c) configurationsResource) = None"
      using that find_object_by_key(1) by (auto simp: fake_view_def)
    with c show ?thesis
      by (simp add: FakeConfigurations_Delete_def Invokes_simple [OF ch] fake_method_defs tracker_Delete_def
        fake_view_def fake_ok_def)
  qed
next
  fix c :: "'a fake" and ns and ob :: "'a object"
  assume c: "fake_ok merge c" and ns: "proper ns" and n: "proper (ob_Name ob)" and o: "ob_Namespace ob \<in> {[], ns}"
  then have ch: "fk_chain c = simple_chain merge" and d: "keys_distinct (tk_objects (fk_tracker c) configurationsResource)"
    by (simp_all add: fake_ok_def)
  note a = tracker_add_key [OF d proper_ne [OF ns] o]
  have stored: "\<exists>c'. f = Some ((Some (ob\<lparr>ob_Namespace := ns\<rparr>), None), c') \<and> fake_ok merge c' \<and>
      fake_view c' = (fake_view c)((ns, ob_Name ob) \<mapsto> ob\<lparr>ob_Namespace := ns\<rparr>)"
    if f: "f = map_option (\<lambda>r. (r, c\<lparr>fk_actions := fk_actions c @ [x], fk_tracker := t\<rparr>))
        (as_configuration (of_get (tracker_Get configurationsResource ns (ob_Name ob) t)))"
      and t: "keys_distinct (tk_objects t configurationsResource)"
      "by_key (tk_objects t configurationsResource) =
        (by_key (tk_objects (fk_tracker c) configurationsResource))((ns, ob_Name ob) \<mapsto> ob\<lparr>ob_Namespace := ns\<rparr>)" for f t x
    using f t c tracker_Get_key [OF t(1) proper_ne [OF ns] proper_ne [OF n]]
    by (simp add: of_get_def as_configuration_def fake_view_def fake_ok_def)
  show "\<exists>ob' c'. FakeConfigurations_Create blank ns ob c = Some ((Some ob', None), c') \<and> fake_ok merge c' \<and>
      key_of ob' = (ns, ob_Name ob) \<and> fake_view c' = (fake_view c)((ns, ob_Name ob) \<mapsto> ob')"
    if v: "fake_view c (ns, ob_Name ob) = None"
  proof -
    obtain t where t: "tracker_add configurationsResource ob ns False (fk_tracker c) = (None, t)"
      "keys_distinct (tk_objects t configurationsResource)"
      "by_key (tk_objects t configurationsResource) =
        (by_key (tk_objects (fk_tracker c) configurationsResource))((ns, ob_Name ob) \<mapsto> ob\<lparr>ob_Namespace := ns\<rparr>)"
      using a(1) [of False] v by (auto simp: fake_view_def)
    have "FakeConfigurations_Create blank ns ob c =
        map_option (\<lambda>r. (r, c\<lparr>fk_actions := fk_actions c @ [act ns (ACreate [] ob)], fk_tracker := t\<rparr>))
          (as_configuration (of_get (tracker_Get configurationsResource ns (ob_Name ob) t)))"
      using t(1) by (simp add: FakeConfigurations_Create_def Invokes_simple [OF ch] act_def ObjectReaction_def split: prod.split)
    from stored [OF this t(2,3)] show ?thesis by (intro exI [of _ "ob\<lparr>ob_Namespace := ns\<rparr>"]) auto
  qed
  show "\<exists>ob' c'. FakeConfigurations_Update blank ns ob c = Some ((Some ob', None), c') \<and> fake_ok merge c' \<and>
      key_of ob' = (ns, ob_Name ob) \<and> fake_view c' = (fake_view c)((ns, ob_Name ob) \<mapsto> ob')"
    if v: "fake_view c (ns, ob_Name ob) \<noteq> None"
  proof -
    obtain t where t: "tracker_add configurationsResource ob ns True (fk_tracker c) = (None, t)"
      "keys_distinct (tk_objects t configurationsResource)"
      "by_key (tk_objects t configurationsResource) =
        (by_key (tk_objects (fk_tracker c) configurationsResource))((ns, ob_Name ob) \<mapsto> ob\<lparr>ob_Namespace := ns\<rparr>)"
      using a(1) [of True] v by (auto simp: fake_view_def)
    have "FakeConfigurations_Update blank ns ob c =
        map_option (\<lambda>r. (r, c\<lparr>fk_actions := fk_actions c @ [act ns (AUpdate ob)], fk_tracker := t\<rparr>))
          (as_configuration (of_get (tracker_Get configurationsResource ns (ob_Name ob) t)))"
      using t(1) by (simp add: FakeConfigurations_Update_def Invokes_simple [OF ch] act_def ObjectReaction_def split: prod.split)
    from stored [OF this t(2,3)] show ?thesis by (intro exI [of _ "ob\<lparr>ob_Namespace := ns\<rparr>"]) auto
  qed
  show "\<exists>r e c'. FakeConfigurations_Create blank ns ob c = Some ((r, Some e), c') \<and> fake_ok merge c' \<and> fake_view c' = fake_view c"
    if v: "fake_view c (ns, ob_Name ob) \<noteq> None"
  proof -
    obtain e where "tracker_add configurationsResource ob ns False (fk_tracker c) = (Some e, fk_tracker c)"
      using a(2) [of False] v by (auto simp: fake_view_def)
    then show ?thesis using c
      by (simp add: FakeConfigurations_Create_def Invokes_simple [OF ch] fake_method_defs fake_view_def fake_ok_def)
  qed
  show "\<exists>r e c'. FakeConfigurations_Update blank ns ob c = Some ((r, Some e), c') \<and> fake_ok merge c' \<and> fake_view c' = fake_view c"
    if v: "fake_view c (ns, ob_Name ob) = None"
  proof -
    obtain e where "tracker_add configurationsResource ob ns True (fk_tracker c) = (Some e, fk_tracker c)"
      using a(2) [of True] v by (auto simp: fake_view_def)
    then show ?thesis using c
      by (simp add: FakeConfigurations_Update_def Invokes_simple [OF ch] fake_method_defs fake_view_def fake_ok_def)
  qed
qed

interpretation fake: configurations_client fake_view "fake_ok merge" "FakeConfigurations_Create blank"
    "FakeConfigurations_Update blank" "FakeConfigurations_Get blank" "\<lambda>ns n c. Some (FakeConfigurations_Delete blank ns n c)"
  for merge blank
  by (rule fake_contract)

section \<open>Construction, and where the fake departs from a server\<close>

lemma by_key_append_list: "by_key (xs @ ys) k = (case by_key xs k of Some x \<Rightarrow> Some x | None \<Rightarrow> by_key ys k)"
  by (induction xs) auto

lemma keys_distinct_append:
  "keys_distinct (xs @ y # ys) \<Longrightarrow> keys_distinct ((xs @ [y]) @ ys) \<and> by_key xs (key_of y) = None"
  by (induction xs) (auto simp: by_key_append_list split: option.splits if_splits)

lemma tracker_add_fresh:
  assumes "find_object (key_of ob) (tk_objects t gvr) = None"
  shows "\<exists>t1. tracker_add gvr ob (ob_Namespace ob) False t = (None, t1) \<and> tk_objects t1 gvr = tk_objects t gvr @ [ob]"
proof -
  have "ob\<lparr>ob_Namespace := ob_Namespace ob\<rparr> = ob" by simp
  then have o: "(if ob_Namespace ob = [] then ob\<lparr>ob_Namespace := ob_Namespace ob\<rparr> else ob) = ob" by presburger
  show ?thesis unfolding tracker_add_def o using assms by simp
qed

lemma add_objects_all:
  "keys_distinct (tk_objects t configurationsResource @ objs) \<Longrightarrow>
    \<exists>t'. add_objects objs t = Some t' \<and> tk_objects t' configurationsResource = tk_objects t configurationsResource @ objs"
proof (induction objs arbitrary: t)
  case (Cons ob objs)
  note d = keys_distinct_append [OF Cons.prems]
  then have "find_object (key_of ob) (tk_objects t configurationsResource) = None"
    by (simp add: find_object_by_key(1))
  then obtain t1 where t1: "tracker_add configurationsResource ob (ob_Namespace ob) False t = (None, t1)"
    "tk_objects t1 configurationsResource = tk_objects t configurationsResource @ [ob]"
    using tracker_add_fresh [of ob t configurationsResource] by auto
  from Cons.IH [of t1] d t1 show ?case by auto
qed simp

lemma NewSimpleClientset_ok:
  assumes "keys_distinct objs"
  shows "\<exists>c. NewSimpleClientset merge objs = Some c \<and> fake_ok merge c \<and> fake_view c = by_key objs"
proof -
  from add_objects_all [of NewObjectTracker objs] assms obtain t where
    "add_objects objs NewObjectTracker = Some t" "tk_objects t configurationsResource = objs"
    by (auto simp: NewObjectTracker_def)
  with assms show ?thesis
    by (simp add: NewSimpleClientset_def fake_ok_def fake_view_def simple_chain_def)
qed

text \<open>No reaction of the tracker handles these two, so they end with the default: a blank object and no error.\<close>

lemma DeleteCollection_deletes_nothing:
  assumes "fake_ok merge c" and "Parse (lo_LabelSelector opts) = Some label"
  shows "\<exists>c'. FakeConfigurations_DeleteCollection Parse ns opts c = Some (None, c') \<and> fake_ok merge c' \<and>
    fake_view c' = fake_view c"
  using assms Invokes_simple [of c merge]
  by (simp add: FakeConfigurations_DeleteCollection_def fake_ok_def fake_view_def act_def ObjectReaction_def)

lemma Patch_of_missing:
  assumes c: "fake_ok merge c" and ns: "proper ns" and n: "proper n" and v: "fake_view c (ns, n) = None"
  shows "\<exists>c'. FakeConfigurations_Patch blank ns n data sub c = Some ((Some blank, None), c') \<and> fake_ok merge c' \<and>
    fake_view c' = fake_view c"
proof -
  from c have ch: "fk_chain c = simple_chain merge" and d: "keys_distinct (tk_objects (fk_tracker c) configurationsResource)"
    by (simp_all add: fake_ok_def)
  from c v show ?thesis
    by (simp add: FakeConfigurations_Patch_def Invokes_simple [OF ch] fake_method_defs fake_view_def fake_ok_def
      tracker_Get_key [OF d proper_ne [OF ns] proper_ne [OF n]])
qed

end
