(* ===== verification/Tracker_Server.thy ===== *)
theory Tracker_Server
  imports Typed_Client Fake_Correct
begin

text \<open>
  A server behind which the object tracker of the fake client set stores the objects: requests are
  decoded from verb and path and answered with the tracker's reactions. It follows the laws of
  \<open>api_server\<close>, so over it the typed client keeps the same contract as the fake.
\<close>

definition answer :: "('v object option \<times> api_error option) \<times> 'w \<Rightarrow> 'v response \<times> 'w" where
  "answer r = (case r of
     ((_, Some e), w) \<Rightarrow> (RespErr e, w)
   | ((Some ob, None), w) \<Rightarrow> (RespObj ob, w)
   | ((None, None), w) \<Rightarrow> (RespStatus, w))"

definition bad_request :: api_error where
  "bad_request = BadRequest ''the server rejected our request''"

definition answer_or :: "'w \<Rightarrow> (('v object option \<times> api_error option) \<times> 'w) option \<Rightarrow> 'v response \<times> 'w" where
  "answer_or w r = (case r of None \<Rightarrow> (RespErr bad_request, w) | Some r \<Rightarrow> answer r)"

text \<open>The namespace and, for a single object, the name in a request's path.\<close>

definition path_of :: "string list \<Rightarrow> (string \<times> string option) option" where
  "path_of p = (case drop 3 p of
     [_, ns, _] \<Rightarrow> Some (ns, None)
   | [_, ns, _, n] \<Rightarrow> Some (ns, Some n)
   | _ \<Rightarrow> None)"

definition tracker_serve :: "'v object \<Rightarrow> 'v http \<Rightarrow> 'v fake \<Rightarrow> 'v response \<times> 'v fake" where
  "tracker_serve blank h c =
     (case path_of (ht_path h) of
        Some (ns, Some n) \<Rightarrow>
          (if ht_verb h = ''GET'' then answer_or c (FakeConfigurations_Get blank ns n c)
           else if ht_verb h = ''DELETE''
           then let (e, c1) = FakeConfigurations_Delete blank ns n c in answer ((None, e), c1)
           else case ht_body h of
             Some (BObject ob) \<Rightarrow>
               (if ht_verb h = ''PUT'' \<and> ob_Name ob = n then answer_or c (FakeConfigurations_Update blank ns ob c)
                else (RespErr bad_request, c))
           | _ \<Rightarrow> (RespErr bad_request, c))
      | Some (ns, None) \<Rightarrow>
          (case ht_body h of
             Some (BObject ob) \<Rightarrow>
               (if ht_verb h = ''POST'' then answer_or c (FakeConfigurations_Create blank ns ob c)
                else (RespErr bad_request, c))
           | _ \<Rightarrow> (RespErr bad_request, c))
      | None \<Rightarrow> (RespErr bad_request, c))"

lemma answer_simps [simp]:
  "answer ((r, Some e), w) = (RespErr e, w)"
  "answer ((Some ob, None), w) = (RespObj ob, w)"
  "answer ((None, None), w) = (RespStatus, w)"
  by (simp_all add: answer_def split: option.split)

lemma path_of_paths [simp]:
  "path_of (collection_path ns) = Some (ns, None)"
  "path_of (object_path ns n) = Some (ns, Some n)"
  by (simp_all add: path_of_def object_path_def collection_path_def api_prefix_def)

interpretation tracked: api_server "tracker_serve blank" fake_view "fake_ok merge" for blank merge
proof
  fix c :: "'a fake" and ns n ps and b :: "'a body option"
  assume c: "fake_ok merge c" and ns: "proper ns" and n: "proper n"
  show "\<exists>e c'. tracker_serve blank \<lparr>ht_verb = ''GET'', ht_path = object_path ns n, ht_params = ps, ht_body = None\<rparr> c =
      ((case fake_view c (ns, n) of Some ob \<Rightarrow> RespObj ob | None \<Rightarrow> RespErr e), c') \<and> fake_ok merge c' \<and>
      fake_view c' = fake_view c"
  proof (cases "fake_view c (ns, n)")
    case None
    from fake.get_none [OF c ns n None, of blank] None show ?thesis
      by (auto simp: tracker_serve_def answer_or_def)
  next
    case (Some ob)
    from fake.get_some [OF c ns n Some, of blank] Some show ?thesis
      by (auto simp: tracker_serve_def answer_or_def)
  qed
  show "\<exists>e c'. tracker_serve blank \<lparr>ht_verb = ''DELETE'', ht_path = object_path ns n, ht_params = [], ht_body = b\<rparr> c =
      ((if fake_view c (ns, n) \<noteq> None then RespStatus else RespErr e), c') \<and> fake_ok merge c' \<and>
      fake_view c' = (fake_view c)((ns, n) := None)"
  proof (cases "fake_view c (ns, n) = None")
    case True
    from fake.del_new [OF c ns n True, of blank] True show ?thesis
      by (auto simp: tracker_serve_def fun_upd_idem)
  next
    case False
    from fake.del_old [OF c ns n False, of blank] False show ?thesis
      by (auto simp: tracker_serve_def)
  qed
next
  fix c :: "'a fake" and ns and ob :: "'a object"
  assume c: "fake_ok merge c" and ns: "proper ns" and n: "proper (ob_Name ob)" and o: "ob_Namespace ob \<in> {[], ns}"
  note defs = tracker_serve_def answer_or_def
  show "\<exists>ob' e c'. tracker_serve blank
        \<lparr>ht_verb = ''POST'', ht_path = collection_path ns, ht_params = [], ht_body = Some (BObject ob)\<rparr> c =
        ((if fake_view c (ns, ob_Name ob) = None then RespObj ob' else RespErr e), c') \<and> fake_ok merge c' \<and>
      key_of ob' = (ns, ob_Name ob) \<and>
      fake_view c' = (if fake_view c (ns, ob_Name ob) = None then (fake_view c)((ns, ob_Name ob) \<mapsto> ob') else fake_view c)"
  proof (cases "fake_view c (ns, ob_Name ob) = None")
    case True
    from fake.create_new [OF c ns n o True, of blank] True show ?thesis
      by (auto simp: defs)
  next
    case False
    have "key_of (ob\<lparr>ob_Namespace := ns\<rparr>) = (ns, ob_Name ob)" by simp
    with fake.create_old [OF c ns n o False, of blank] False show ?thesis
      by (fastforce simp: defs)
  qed
  show "\<exists>ob' e c'. tracker_serve blank
        \<lparr>ht_verb = ''PUT'', ht_path = object_path ns (ob_Name ob), ht_params = [], ht_body = Some (BObject ob)\<rparr> c =
        ((if fake_view c (ns, ob_Name ob) \<noteq> None then RespObj ob' else RespErr e), c') \<and> fake_ok merge c' \<and>
      key_of ob' = (ns, ob_Name ob) \<and>
      fake_view c' = (if fake_view c (ns, ob_Name ob) \<noteq> None then (fake_view c)((ns, ob_Name ob) \<mapsto> ob') else fake_view c)"
  proof (cases "fake_view c (ns, ob_Name ob) = None")
    case True
    have "key_of (ob\<lparr>ob_Namespace := ns\<rparr>) = (ns, ob_Name ob)" by simp
    with fake.update_new [OF c ns n o True, of blank] True show ?thesis
      by (fastforce simp: defs)
  next
    case False
    from fake.update_old [OF c ns n o False, of blank] False show ?thesis
      by (auto simp: defs)
  qed
qed

end
