(* ===== verification/Api_Scheme.thy ===== *)
theory Api_Scheme
  imports Informers
begin

text \<open>
  Registration of the API types: \<open>registry.go\<close> of \<open>v1alpha1\<close> and the \<open>init\<close> functions of the two
  scheme packages, over \<open>runtime.Scheme\<close> (\<open>apimachinery/pkg/runtime/scheme.go\<close>) and
  \<open>AddToGroupVersion\<close> of \<open>meta/v1\<close>. The registered types are pointers to structs, so a type is its
  package and name. Conversion and defaulting functions are left out; they are not looked at
  when types are registered or found. \<open>None\<close> is a panic.
\<close>

section \<open>The scheme\<close>

record GroupVersionKind =
  gk_GroupVersion :: GroupVersion
  gk_Kind :: string

record GroupKind =
  gp_Group :: string
  gp_Kind :: string

record GroupResource =
  gr_Group :: string
  gr_Resource :: string

datatype gotype = GoType (type_pkg: string) (type_name: string)

record scheme =
  gvkToType :: "GroupVersionKind \<Rightarrow> gotype option"
  typeToGVK :: "gotype \<Rightarrow> GroupVersionKind list"
  unversionedTypes :: "gotype \<Rightarrow> GroupVersionKind option"
  unversionedKinds :: "string \<Rightarrow> gotype option"
  observedVersions :: "GroupVersion list"

definition NewScheme :: scheme where
  "NewScheme = \<lparr>gvkToType = (\<lambda>_. None), typeToGVK = (\<lambda>_. []), unversionedTypes = (\<lambda>_. None),
     unversionedKinds = (\<lambda>_. None), observedVersions = []\<rparr>"

definition APIVersionInternal :: string where "APIVersionInternal = ''__internal''"

definition WithKind :: "GroupVersion \<Rightarrow> string \<Rightarrow> GroupVersionKind" where
  "WithKind gv kind = \<lparr>gk_GroupVersion = gv, gk_Kind = kind\<rparr>"

definition addObservedVersion :: "GroupVersion \<Rightarrow> scheme \<Rightarrow> scheme" where
  "addObservedVersion version s =
     (if length (gv_Version version) = 0 \<or> gv_Version version = APIVersionInternal then s
      else if version \<in> set (observedVersions s) then s
      else s\<lparr>observedVersions := observedVersions s @ [version]\<rparr>)"

definition AddKnownTypeWithName :: "GroupVersionKind \<Rightarrow> gotype \<Rightarrow> scheme \<Rightarrow> scheme option" where
  "AddKnownTypeWithName gvk t s =
     (let s1 = addObservedVersion (gk_GroupVersion gvk) s in
      if length (gv_Version (gk_GroupVersion gvk)) = 0 then None
      else if gvkToType s1 gvk \<notin> {None, Some t} then None
      else let s2 = s1\<lparr>gvkToType := (gvkToType s1)(gvk \<mapsto> t)\<rparr> in
        if gvk \<in> set (typeToGVK s2 t) then Some s2
        else Some (s2\<lparr>typeToGVK := (typeToGVK s2)(t := typeToGVK s2 t @ [gvk])\<rparr>))"

fun known_loop :: "GroupVersion \<Rightarrow> gotype list \<Rightarrow> scheme \<Rightarrow> scheme option" where
  "known_loop gv [] s = Some s"
| "known_loop gv (t # ts) s = do {
     s1 \<leftarrow> AddKnownTypeWithName (WithKind gv (type_name t)) t s;
     known_loop gv ts s1
   }"

definition AddKnownTypes :: "GroupVersion \<Rightarrow> gotype list \<Rightarrow> scheme \<Rightarrow> scheme option" where
  "AddKnownTypes gv types s = known_loop gv types (addObservedVersion gv s)"

fun unversioned_loop :: "GroupVersion \<Rightarrow> gotype list \<Rightarrow> scheme \<Rightarrow> scheme option" where
  "unversioned_loop gv [] s = Some s"
| "unversioned_loop gv (t # ts) s =
     (let gvk = WithKind gv (type_name t);
          s1 = s\<lparr>unversionedTypes := (unversionedTypes s)(t \<mapsto> gvk)\<rparr>
      in if unversionedKinds s1 (gk_Kind gvk) \<notin> {None, Some t} then None
         else unversioned_loop gv ts (s1\<lparr>unversionedKinds := (unversionedKinds s1)(gk_Kind gvk \<mapsto> t)\<rparr>))"

definition AddUnversionedTypes :: "GroupVersion \<Rightarrow> gotype list \<Rightarrow> scheme \<Rightarrow> scheme option" where
  "AddUnversionedTypes gv types s = do {
     s1 \<leftarrow> AddKnownTypes gv types (addObservedVersion gv s);
     unversioned_loop gv types s1
   }"

text \<open>\<open>ObjectKinds\<close> of a structured object, and \<open>New\<close>.\<close>

definition ObjectKinds :: "scheme \<Rightarrow> gotype \<Rightarrow> error + GroupVersionKind list \<times> bool" where
  "ObjectKinds s t = (if typeToGVK s t = [] then Inl (Errorp ''no kind is registered'')
     else Inr (typeToGVK s t, unversionedTypes s t \<noteq> None))"

definition scheme_New :: "scheme \<Rightarrow> GroupVersionKind \<Rightarrow> error + gotype" where
  "scheme_New s kind =
     (case gvkToType s kind of
        Some t \<Rightarrow> Inr t
      | None \<Rightarrow> (case unversionedKinds s (gk_Kind kind) of Some t \<Rightarrow> Inr t
          | None \<Rightarrow> Inl (Errorp ''no kind is registered'')))"

section \<open>Registration\<close>

definition meta_v1 :: "string \<Rightarrow> gotype" where "meta_v1 n = GoType ''meta/v1'' n"

definition AddToGroupVersion :: "GroupVersion \<Rightarrow> scheme \<Rightarrow> scheme option" where
  "AddToGroupVersion gv s = do {
     s1 \<leftarrow> AddKnownTypeWithName (WithKind gv ''WatchEvent'') (meta_v1 ''WatchEvent'') s;
     s2 \<leftarrow> AddKnownTypeWithName (WithKind (gv\<lparr>gv_Version := APIVersionInternal\<rparr>) ''WatchEvent'') (meta_v1 ''InternalEvent'') s1;
     s3 \<leftarrow> AddKnownTypes gv (map meta_v1 [''ListOptions'', ''ExportOptions'', ''GetOptions'', ''DeleteOptions'']) s2;
     AddUnversionedTypes \<lparr>gv_Group = [], gv_Version = ''v1''\<rparr>
       (map meta_v1 [''Status'', ''APIVersions'', ''APIGroupList'', ''APIGroup'', ''APIResourceList'']) s3
   }"

definition Kind :: "string \<Rightarrow> GroupKind" where
  "Kind kind = \<lparr>gp_Group = gv_Group SchemeGroupVersion, gp_Kind = kind\<rparr>"

definition Resource :: "string \<Rightarrow> GroupResource" where
  "Resource resource = \<lparr>gr_Group = gv_Group SchemeGroupVersion, gr_Resource = resource\<rparr>"

definition v1alpha1 :: "string \<Rightarrow> gotype" where "v1alpha1 n = GoType ''v1alpha1'' n"

text \<open>A function of a \<open>SchemeBuilder\<close> gives an error; \<open>addKnownTypes\<close> gives nil.\<close>

type_synonym scheme_func = "scheme \<Rightarrow> (error option \<times> scheme) option"

definition addKnownTypes :: scheme_func where
  "addKnownTypes s = do {
     s1 \<leftarrow> AddKnownTypes SchemeGroupVersion [v1alpha1 ''Configuration'', v1alpha1 ''ConfigurationList''] s;
     s2 \<leftarrow> AddToGroupVersion SchemeGroupVersion s1;
     Some (None, s2)
   }"

fun builder_AddToScheme :: "scheme_func list \<Rightarrow> scheme_func" where
  "builder_AddToScheme [] s = Some (None, s)"
| "builder_AddToScheme (f # fs) s = do {
     (err, s1) \<leftarrow> f s;
     (if err \<noteq> None then Some (err, s1) else builder_AddToScheme fs s1)
   }"

definition v1alpha1_AddToScheme :: scheme_func where
  "v1alpha1_AddToScheme = builder_AddToScheme [addKnownTypes]"

definition localSchemeBuilder :: "scheme_func list" where
  "localSchemeBuilder = [v1alpha1_AddToScheme]"

definition AddToScheme :: scheme_func where
  "AddToScheme = builder_AddToScheme localSchemeBuilder"

text \<open>\<open>Must\<close> panics on an error.\<close>

definition scheme_init :: "scheme \<Rightarrow> scheme option" where
  "scheme_init s = do {
     s1 \<leftarrow> AddToGroupVersion \<lparr>gv_Group = [], gv_Version = ''v1''\<rparr> s;
     (err, s2) \<leftarrow> AddToScheme s1;
     (if err \<noteq> None then None else Some s2)
   }"

text \<open>The package of the fake client set has a scheme of its own, filled the same way.\<close>

definition fake_localSchemeBuilder :: "scheme_func list" where
  "fake_localSchemeBuilder = [v1alpha1_AddToScheme]"

definition fake_AddToScheme :: scheme_func where
  "fake_AddToScheme = builder_AddToScheme fake_localSchemeBuilder"

definition fake_scheme_init :: "scheme \<Rightarrow> scheme option" where
  "fake_scheme_init s = do {
     s1 \<leftarrow> AddToGroupVersion \<lparr>gv_Group = [], gv_Version = ''v1''\<rparr> s;
     (err, s2) \<leftarrow> fake_AddToScheme s1;
     (if err \<noteq> None then None else Some s2)
   }"

section \<open>The two maps agree\<close>

definition scheme_ok :: "scheme \<Rightarrow> bool" where
  "scheme_ok s \<longleftrightarrow> (\<forall>gvk t. gvkToType s gvk = Some t \<longleftrightarrow> gvk \<in> set (typeToGVK s t)) \<and> (\<forall>t. distinct (typeToGVK s t))"

text \<open>What only grows: kinds stay registered for their type.\<close>

definition scheme_le :: "scheme \<Rightarrow> scheme \<Rightarrow> bool" where
  "scheme_le s s' \<longleftrightarrow> gvkToType s \<subseteq>\<^sub>m gvkToType s'"

lemma scheme_ok_new: "scheme_ok NewScheme"
  by (simp add: scheme_ok_def NewScheme_def)

lemma observed_maps [simp]:
  "gvkToType (addObservedVersion v s) = gvkToType s" "typeToGVK (addObservedVersion v s) = typeToGVK s"
  by (simp_all add: addObservedVersion_def)

lemma scheme_ok_observed [simp]: "scheme_ok (addObservedVersion v s) = scheme_ok s"
  by (simp add: scheme_ok_def)

lemma scheme_le_trans: "scheme_le s s' \<Longrightarrow> scheme_le s' s'' \<Longrightarrow> scheme_le s s''"
  by (auto simp: scheme_le_def intro: map_le_trans)

lemma scheme_ok_AddKnownTypeWithName:
  assumes "scheme_ok s" and r: "AddKnownTypeWithName gvk t s = Some s'"
  shows "scheme_ok s' \<and> scheme_le s s' \<and> gvkToType s' gvk = Some t"
proof -
  have old: "gvkToType s gvk \<in> {None, Some t}" using r
    by (cases "gvkToType s gvk") (auto simp: AddKnownTypeWithName_def Let_def split: if_splits)
  have le: "gvkToType s \<subseteq>\<^sub>m (gvkToType s)(gvk \<mapsto> t)" using old by (auto simp: map_le_def)
  have new: "t = u" if "gvk \<in> set (typeToGVK s u)" for u
  proof -
    from assms(1) that have "gvkToType s gvk = Some u" by (simp add: scheme_ok_def)
    with old show ?thesis by simp
  qed
  have maps: "gvkToType s' = (gvkToType s)(gvk \<mapsto> t)"
    "typeToGVK s' = (typeToGVK s)(t := if gvk \<in> set (typeToGVK s t) then typeToGVK s t else typeToGVK s t @ [gvk])"
    using r by (auto simp: AddKnownTypeWithName_def Let_def split: if_splits)
  have eq: "(gvkToType s' g = Some u) = (g \<in> set (typeToGVK s' u))" for g u
  proof -
    have "(gvkToType s g = Some u) = (g \<in> set (typeToGVK s u))" using assms(1) by (simp add: scheme_ok_def)
    with new [of u] show ?thesis by (cases "g = gvk"; cases "t = u") (auto simp: maps)
  qed
  have "distinct (typeToGVK s' u)" for u using assms(1) by (simp add: maps scheme_ok_def)
  with eq have "scheme_ok s'" unfolding scheme_ok_def by blast
  with le show ?thesis by (simp add: maps scheme_le_def)
qed

lemma scheme_ok_known_loop:
  "scheme_ok s \<Longrightarrow> known_loop gv ts s = Some s' \<Longrightarrow>
    scheme_ok s' \<and> scheme_le s s' \<and> (\<forall>t \<in> set ts. gvkToType s' (WithKind gv (type_name t)) = Some t)"
proof (induction ts arbitrary: s)
  case (Cons t ts)
  then obtain s1 where s1: "AddKnownTypeWithName (WithKind gv (type_name t)) t s = Some s1" "known_loop gv ts s1 = Some s'"
    by (auto split: bind_splits)
  note a = scheme_ok_AddKnownTypeWithName [OF Cons.prems(1) s1(1)]
  from Cons.IH [OF _ s1(2)] a show ?case
    by (auto simp: scheme_le_def map_le_def dom_def intro: map_le_trans)
qed (simp add: scheme_le_def)

lemma scheme_ok_AddKnownTypes:
  assumes "scheme_ok s" and "AddKnownTypes gv ts s = Some s'"
  shows "scheme_ok s' \<and> scheme_le s s' \<and> (\<forall>t \<in> set ts. gvkToType s' (WithKind gv (type_name t)) = Some t)"
  using scheme_ok_known_loop [of "addObservedVersion gv s"] assms by (simp add: AddKnownTypes_def scheme_le_def)

lemma unversioned_loop_maps:
  "unversioned_loop gv ts s = Some s' \<Longrightarrow> gvkToType s' = gvkToType s \<and> typeToGVK s' = typeToGVK s"
  by (induction ts arbitrary: s) (auto simp: Let_def split: if_splits)

lemma scheme_ok_AddUnversionedTypes:
  assumes "scheme_ok s" and "AddUnversionedTypes gv ts s = Some s'"
  shows "scheme_ok s' \<and> scheme_le s s'"
proof -
  from assms(2) obtain s1 where s1: "AddKnownTypes gv ts (addObservedVersion gv s) = Some s1" "unversioned_loop gv ts s1 = Some s'"
    by (auto simp: AddUnversionedTypes_def split: bind_splits)
  with scheme_ok_AddKnownTypes [OF _ s1(1)] unversioned_loop_maps [OF s1(2)] assms(1) show ?thesis
    by (auto simp: scheme_ok_def scheme_le_def)
qed

lemma scheme_ok_AddToGroupVersion:
  assumes "scheme_ok s" and "AddToGroupVersion gv s = Some s'"
  shows "scheme_ok s' \<and> scheme_le s s'"
proof -
  from assms(2) obtain s1 s2 s3 where s:
    "AddKnownTypeWithName (WithKind gv ''WatchEvent'') (meta_v1 ''WatchEvent'') s = Some s1"
    "AddKnownTypeWithName (WithKind (gv\<lparr>gv_Version := APIVersionInternal\<rparr>) ''WatchEvent'') (meta_v1 ''InternalEvent'') s1 = Some s2"
    "AddKnownTypes gv (map meta_v1 [''ListOptions'', ''ExportOptions'', ''GetOptions'', ''DeleteOptions'']) s2 = Some s3"
    "AddUnversionedTypes \<lparr>gv_Group = [], gv_Version = ''v1''\<rparr>
       (map meta_v1 [''Status'', ''APIVersions'', ''APIGroupList'', ''APIGroup'', ''APIResourceList'']) s3 = Some s'"
    by (auto simp: AddToGroupVersion_def split: bind_splits)
  have 1: "scheme_ok s1" "scheme_le s s1" using scheme_ok_AddKnownTypeWithName [OF assms(1) s(1)] by blast+
  have 2: "scheme_ok s2" "scheme_le s1 s2" using scheme_ok_AddKnownTypeWithName [OF 1(1) s(2)] by blast+
  have 3: "scheme_ok s3" "scheme_le s2 s3" using scheme_ok_AddKnownTypes [OF 2(1) s(3)] by blast+
  have 4: "scheme_ok s'" "scheme_le s3 s'" using scheme_ok_AddUnversionedTypes [OF 3(1) s(4)] by blast+
  show ?thesis using 1(2) 2(2) 3(2) 4 scheme_le_trans by blast
qed

text \<open>
  Whatever else was registered before: where registration does not panic, the two kinds of the
  group are registered, for their types.
\<close>

lemma AddToScheme_registers:
  assumes "scheme_ok s" and "AddToScheme s = Some (err, s')"
  shows "err = None \<and> scheme_ok s' \<and> scheme_le s s' \<and>
    (\<forall>n \<in> {''Configuration'', ''ConfigurationList''}. gvkToType s' (WithKind SchemeGroupVersion n) = Some (v1alpha1 n))"
proof -
  from assms(2) obtain s1 where s: "err = None"
    "AddKnownTypes SchemeGroupVersion [v1alpha1 ''Configuration'', v1alpha1 ''ConfigurationList''] s = Some s1"
    "AddToGroupVersion SchemeGroupVersion s1 = Some s'"
    by (auto simp: AddToScheme_def localSchemeBuilder_def v1alpha1_AddToScheme_def addKnownTypes_def split: bind_splits)
  note 1 = scheme_ok_AddKnownTypes [OF assms(1) s(2)]
  then have ok1: "scheme_ok s1" by blast
  note 2 = scheme_ok_AddToGroupVersion [OF ok1 s(3)]
  have "scheme_le s s'" using 1 2 scheme_le_trans by blast
  moreover have "gvkToType s' (WithKind SchemeGroupVersion n) = Some (v1alpha1 n)"
    if "n \<in> {''Configuration'', ''ConfigurationList''}" for n
    using 1 2 that by (auto simp: scheme_le_def map_le_def dom_def v1alpha1_def)
  ultimately show ?thesis using s(1) 2 by blast
qed

lemma ObjectKinds_New:
  assumes "scheme_ok s" and "ObjectKinds s t = Inr (gvks, u)" and "gvk \<in> set gvks"
  shows "scheme_New s gvk = Inr t"
proof -
  have "gvk \<in> set (typeToGVK s t)" using assms(2,3) by (auto simp: ObjectKinds_def split: if_splits)
  with assms(1) have "gvkToType s gvk = Some t" by (simp add: scheme_ok_def)
  then show ?thesis by (simp add: scheme_New_def)
qed

text \<open>The \<open>init\<close> functions do not panic, and neither does adding the types to the scheme again.\<close>

definition Scheme :: scheme where
  "Scheme = the (scheme_init NewScheme)"

lemma scheme_init_Some: "scheme_init NewScheme = Some Scheme"
proof -
  have "scheme_init NewScheme \<noteq> None \<longleftrightarrow> \<not> Option.is_none (scheme_init NewScheme)" by (simp add: Option.is_none_def)
  moreover have "\<not> Option.is_none (scheme_init NewScheme)" by code_simp
  ultimately show ?thesis by (auto simp: Scheme_def)
qed

lemma fake_scheme_same: "fake_scheme_init s = scheme_init s"
  by (simp add: fake_scheme_init_def scheme_init_def fake_AddToScheme_def AddToScheme_def
      fake_localSchemeBuilder_def localSchemeBuilder_def)

end
