(* ===== verification/Clientset.thy ===== *)
theory Clientset
  imports Typed_Client Complex_Main
begin

text \<open>
  Construction of the client set: \<open>clientset.go\<close>, \<open>lvscontroller_client.go\<close> and
  \<open>newConfigurations\<close>, over \<open>RESTClientFor\<close>, \<open>UnversionedRESTClientFor\<close> and \<open>NewRESTClient\<close> of
  \<open>client-go/rest\<close> and the constructors of the discovery client. A config is passed by value, as
  each function copies it first. Rate limiters are allocated, so that two clients sharing one
  have its address. What sets up the connection (server URL, transport, serializers) can fail:
  that is the parameter \<open>connect\<close>. A rate is a finite \<open>float32\<close>, given as a rational.
\<close>

section \<open>REST clients\<close>

record 'h rest_config =
  rc_Transport :: 'h
  rc_APIPath :: string
  rc_GroupVersion :: "GroupVersion option"
  rc_NegotiatedSerializer :: "string option"
  rc_UserAgent :: string
  rc_QPS :: rat
  rc_Burst :: int
  rc_RateLimiter :: "nat option"
  rc_Timeout :: int

record 'h RESTClient =
  re_Transport :: 'h
  re_versionedAPIPath :: "string list"
  re_GroupVersion :: GroupVersion
  re_UserAgent :: string
  re_Throttle :: "nat option"

type_synonym limiters = "(rat \<times> int) list"

definition NewTokenBucketRateLimiter :: "rat \<Rightarrow> int \<Rightarrow> limiters \<Rightarrow> nat \<times> limiters" where
  "NewTokenBucketRateLimiter qps burst w = (length w, w @ [(qps, burst)])"

text \<open>
  \<open>Accept\<close> asks the limiter for one token. The reservation is refused where the burst is
  smaller, and then it sleeps for the longest duration there is.
\<close>

definition never_accepts :: "rat \<times> int \<Rightarrow> bool" where
  "never_accepts l \<longleftrightarrow> \<not> 1 \<le> snd l"

text \<open>The path is joined from its parts; empty segments vanish.\<close>

definition DefaultVersionedAPIPath :: "string \<Rightarrow> GroupVersion \<Rightarrow> string list" where
  "DefaultVersionedAPIPath apiPath gv = filter (\<lambda>s. s \<noteq> [])
     (Split apiPath (CHR ''/'') @ (if length (gv_Group gv) > 0 then [gv_Group gv, gv_Version gv] else [gv_Version gv]))"

definition NewRESTClient :: "'h rest_config \<Rightarrow> GroupVersion \<Rightarrow> rat \<Rightarrow> int \<Rightarrow> string list \<Rightarrow> limiters \<Rightarrow> 'h RESTClient \<times> limiters" where
  "NewRESTClient config gv maxQPS maxBurst versionedAPIPath w =
     (let (throttle, w1) = (if maxQPS > 0 \<and> rc_RateLimiter config = None
            then (let (l, w1) = NewTokenBucketRateLimiter maxQPS maxBurst w in (Some l, w1))
            else (rc_RateLimiter config, w))
      in (\<lparr>re_Transport = rc_Transport config, re_versionedAPIPath = versionedAPIPath, re_GroupVersion = gv,
           re_UserAgent = rc_UserAgent config, re_Throttle = throttle\<rparr>, w1))"

definition RESTClientFor :: "('h rest_config \<Rightarrow> error option) \<Rightarrow> 'h rest_config \<Rightarrow> limiters
    \<Rightarrow> (error + 'h RESTClient) \<times> limiters" where
  "RESTClientFor connect config w =
     (case rc_GroupVersion config of
        None \<Rightarrow> (Inl (Errorp ''GroupVersion is required when initializing a RESTClient''), w)
      | Some gv \<Rightarrow>
          if rc_NegotiatedSerializer config = None
          then (Inl (Errorp ''NegotiatedSerializer is required when initializing a RESTClient''), w)
          else let qps = (if rc_QPS config = 0 then 5 else rc_QPS config);
                   burst = (if rc_Burst config = 0 then 10 else rc_Burst config) in
            case connect config of
              Some err \<Rightarrow> (Inl err, w)
            | None \<Rightarrow> (let (c, w1) = NewRESTClient config gv qps burst (DefaultVersionedAPIPath (rc_APIPath config) gv) w
                in (Inr c, w1)))"

definition UnversionedRESTClientFor :: "('h rest_config \<Rightarrow> error option) \<Rightarrow> 'h rest_config \<Rightarrow> limiters
    \<Rightarrow> (error + 'h RESTClient) \<times> limiters" where
  "UnversionedRESTClientFor connect config w =
     (if rc_NegotiatedSerializer config = None
      then (Inl (Errorp ''NeogitatedSerializer is required when initializing a RESTClient''), w)
      else case connect config of
        Some err \<Rightarrow> (Inl err, w)
      | None \<Rightarrow>
          (let path = DefaultVersionedAPIPath (rc_APIPath config)
                 (case rc_GroupVersion config of Some gv \<Rightarrow> gv | None \<Rightarrow> \<lparr>gv_Group = [], gv_Version = []\<rparr>);
               gv = (case rc_GroupVersion config of Some gv \<Rightarrow> gv | None \<Rightarrow> \<lparr>gv_Group = ''meta.k8s.io'', gv_Version = ''v1''\<rparr>);
               (c, w1) = NewRESTClient config gv (rc_QPS config) (rc_Burst config) path w
           in (Inr c, w1)))"

text \<open>\<open>ua\<close> is \<open>DefaultKubernetesUserAgent\<close>, made from the program's name and version.\<close>

definition setDiscoveryDefaults :: "string \<Rightarrow> 'h rest_config \<Rightarrow> 'h rest_config" where
  "setDiscoveryDefaults ua config =
     (let config = config\<lparr>rc_APIPath := [], rc_GroupVersion := None\<rparr>;
          config = (if rc_Timeout config = 0 then config\<lparr>rc_Timeout := 32000000000\<rparr> else config);
          config = config\<lparr>rc_NegotiatedSerializer := Some ''NoopEncoder''\<rparr>
      in if length (rc_UserAgent config) = 0 then config\<lparr>rc_UserAgent := ua\<rparr> else config)"

definition NewDiscoveryClientForConfig :: "string \<Rightarrow> ('h rest_config \<Rightarrow> error option) \<Rightarrow> 'h rest_config \<Rightarrow> limiters
    \<Rightarrow> (error + 'h RESTClient) \<times> limiters" where
  "NewDiscoveryClientForConfig ua connect c w = UnversionedRESTClientFor connect (setDiscoveryDefaults ua c) w"

section \<open>The client of the group\<close>

definition setConfigDefaults :: "string \<Rightarrow> 'h rest_config \<Rightarrow> error option \<times> 'h rest_config" where
  "setConfigDefaults ua config =
     (let config = config\<lparr>rc_GroupVersion := Some SchemeGroupVersion, rc_APIPath := ''/apis'',
            rc_NegotiatedSerializer := Some ''DirectCodecFactory''\<rparr>
      in (None, if rc_UserAgent config = [] then config\<lparr>rc_UserAgent := ua\<rparr> else config))"

record 'r LvscontrollerV1alpha1Client =
  restClient :: 'r

definition LvscontrollerV1alpha1Client_New :: "'r \<Rightarrow> 'r LvscontrollerV1alpha1Client" where
  "LvscontrollerV1alpha1Client_New c = \<lparr>restClient = c\<rparr>"

definition LvscontrollerV1alpha1Client_NewForConfig :: "string \<Rightarrow> ('h rest_config \<Rightarrow> error option) \<Rightarrow> 'h rest_config
    \<Rightarrow> limiters \<Rightarrow> (error + 'h RESTClient LvscontrollerV1alpha1Client) \<times> limiters" where
  "LvscontrollerV1alpha1Client_NewForConfig ua connect c w =
     (case setConfigDefaults ua c of
        (Some err, _) \<Rightarrow> (Inl err, w)
      | (None, config) \<Rightarrow>
          (case RESTClientFor connect config w of
             (Inl err, w1) \<Rightarrow> (Inl err, w1)
           | (Inr client, w1) \<Rightarrow> (Inr \<lparr>restClient = client\<rparr>, w1)))"

text \<open>The functions \<open>OrDie\<close> panic (\<open>None\<close>) on an error.\<close>

definition or_die :: "(error + 'a) \<times> 'w \<Rightarrow> ('a \<times> 'w) option" where
  "or_die r = (case r of (Inl err, w) \<Rightarrow> None | (Inr x, w) \<Rightarrow> Some (x, w))"

definition LvscontrollerV1alpha1Client_NewForConfigOrDie :: "string \<Rightarrow> ('h rest_config \<Rightarrow> error option) \<Rightarrow> 'h rest_config
    \<Rightarrow> limiters \<Rightarrow> ('h RESTClient LvscontrollerV1alpha1Client \<times> limiters) option" where
  "LvscontrollerV1alpha1Client_NewForConfigOrDie ua connect c w =
     or_die (LvscontrollerV1alpha1Client_NewForConfig ua connect c w)"

text \<open>A nil receiver gives the nil interface.\<close>

definition LvscontrollerV1alpha1Client_RESTClient :: "'r LvscontrollerV1alpha1Client option \<Rightarrow> 'r option" where
  "LvscontrollerV1alpha1Client_RESTClient c = (case c of None \<Rightarrow> None | Some c \<Rightarrow> Some (restClient c))"

record 'r configurations =
  cn_client :: "'r option"
  cn_ns :: string

definition newConfigurations :: "'r LvscontrollerV1alpha1Client option \<Rightarrow> string \<Rightarrow> 'r configurations" where
  "newConfigurations c namespace = \<lparr>cn_client = LvscontrollerV1alpha1Client_RESTClient c, cn_ns = namespace\<rparr>"

definition LvscontrollerV1alpha1Client_Configurations :: "'r LvscontrollerV1alpha1Client option \<Rightarrow> string
    \<Rightarrow> 'r configurations" where
  "LvscontrollerV1alpha1Client_Configurations c namespace = newConfigurations c namespace"

section \<open>The client set\<close>

text \<open>\<open>cs_DiscoveryClient\<close> is the REST client of the discovery client.\<close>

record 'r Clientset =
  cs_DiscoveryClient :: 'r
  cs_lvscontrollerV1alpha1 :: "'r LvscontrollerV1alpha1Client"

text \<open>A nil client set: its discovery client is nil, the other two methods panic.\<close>

definition Clientset_Discovery :: "'r Clientset option \<Rightarrow> 'r option" where
  "Clientset_Discovery c = (case c of None \<Rightarrow> None | Some c \<Rightarrow> Some (cs_DiscoveryClient c))"

definition Clientset_LvscontrollerV1alpha1 :: "'r Clientset option \<Rightarrow> 'r LvscontrollerV1alpha1Client option" where
  "Clientset_LvscontrollerV1alpha1 c = map_option cs_lvscontrollerV1alpha1 c"

definition Clientset_Lvscontroller :: "'r Clientset option \<Rightarrow> 'r LvscontrollerV1alpha1Client option" where
  "Clientset_Lvscontroller c = map_option cs_lvscontrollerV1alpha1 c"

definition share_limiter :: "'h rest_config \<Rightarrow> limiters \<Rightarrow> 'h rest_config \<times> limiters" where
  "share_limiter c w =
     (if rc_RateLimiter c = None \<and> rc_QPS c > 0
      then (let (l, w1) = NewTokenBucketRateLimiter (rc_QPS c) (rc_Burst c) w in (c\<lparr>rc_RateLimiter := Some l\<rparr>, w1))
      else (c, w))"

definition Clientset_NewForConfig :: "string \<Rightarrow> ('h rest_config \<Rightarrow> error option) \<Rightarrow> 'h rest_config \<Rightarrow> limiters
    \<Rightarrow> (error + 'h RESTClient Clientset) \<times> limiters" where
  "Clientset_NewForConfig ua connect c w =
     (let (configShallowCopy, w1) = share_limiter c w in
      case LvscontrollerV1alpha1Client_NewForConfig ua connect configShallowCopy w1 of
        (Inl err, w2) \<Rightarrow> (Inl err, w2)
      | (Inr cl, w2) \<Rightarrow>
          (case NewDiscoveryClientForConfig ua connect configShallowCopy w2 of
             (Inl err, w3) \<Rightarrow> (Inl err, w3)
           | (Inr d, w3) \<Rightarrow> (Inr \<lparr>cs_DiscoveryClient = d, cs_lvscontrollerV1alpha1 = cl\<rparr>, w3)))"

definition Clientset_NewForConfigOrDie :: "string \<Rightarrow> ('h rest_config \<Rightarrow> error option) \<Rightarrow> 'h rest_config \<Rightarrow> limiters
    \<Rightarrow> ('h RESTClient Clientset \<times> limiters) option" where
  "Clientset_NewForConfigOrDie ua connect c w = do {
     (cl, w1) \<leftarrow> LvscontrollerV1alpha1Client_NewForConfigOrDie ua connect c w;
     (d, w2) \<leftarrow> or_die (NewDiscoveryClientForConfig ua connect c w1);
     Some (\<lparr>cs_DiscoveryClient = d, cs_lvscontrollerV1alpha1 = cl\<rparr>, w2)
   }"

definition Clientset_New :: "'r \<Rightarrow> 'r Clientset" where
  "Clientset_New c = \<lparr>cs_DiscoveryClient = c, cs_lvscontrollerV1alpha1 = LvscontrollerV1alpha1Client_New c\<rparr>"

section \<open>What is constructed\<close>

lemma Split_apis: "Split ''/apis'' (CHR ''/'') = [[], ''apis'']" "Split [] (CHR ''/'') = [[]]"
  by code_simp+

text \<open>The typed client's paths begin as its requests do; those of the discovery client are empty.\<close>

lemma versioned_paths [simp]:
  "DefaultVersionedAPIPath ''/apis'' SchemeGroupVersion = api_prefix"
  "DefaultVersionedAPIPath [] \<lparr>gv_Group = [], gv_Version = []\<rparr> = []"
  by code_simp+

text \<open>The throttle of the typed and of the discovery client, for a config with or without a limiter.\<close>

definition throttle :: "rat \<Rightarrow> int \<Rightarrow> nat option \<Rightarrow> limiters \<Rightarrow> nat option \<times> limiters" where
  "throttle qps burst l w = (if qps > 0 \<and> l = None then (Some (length w), w @ [(qps, burst)]) else (l, w))"

lemma typed_client_built:
  assumes "\<And>config. connect config = None"
  shows "LvscontrollerV1alpha1Client_NewForConfig ua connect c w =
    (let (t, w1) = throttle (if rc_QPS c = 0 then 5 else rc_QPS c) (if rc_Burst c = 0 then 10 else rc_Burst c) (rc_RateLimiter c) w
     in (Inr \<lparr>restClient = \<lparr>re_Transport = rc_Transport c, re_versionedAPIPath = api_prefix, re_GroupVersion = SchemeGroupVersion,
        re_UserAgent = (if rc_UserAgent c = [] then ua else rc_UserAgent c), re_Throttle = t\<rparr>\<rparr>, w1))"
  using assms
  by (simp add: LvscontrollerV1alpha1Client_NewForConfig_def setConfigDefaults_def RESTClientFor_def NewRESTClient_def
      NewTokenBucketRateLimiter_def throttle_def Let_def)

lemma discovery_client_built:
  assumes "\<And>config. connect config = None"
  shows "NewDiscoveryClientForConfig ua connect c w =
    (let (t, w1) = throttle (rc_QPS c) (rc_Burst c) (rc_RateLimiter c) w
     in (Inr \<lparr>re_Transport = rc_Transport c, re_versionedAPIPath = [], re_GroupVersion = \<lparr>gv_Group = ''meta.k8s.io'', gv_Version = ''v1''\<rparr>,
        re_UserAgent = (if rc_UserAgent c = [] then ua else rc_UserAgent c), re_Throttle = t\<rparr>, w1))"
  using assms
  by (simp add: NewDiscoveryClientForConfig_def setDiscoveryDefaults_def UnversionedRESTClientFor_def NewRESTClient_def
      NewTokenBucketRateLimiter_def throttle_def Let_def)

end
