(* ===== verification/Client_Side.thy ===== *)
theory Client_Side
  imports Deep_Copy Cache_History Tracker_Server Api_Scheme Clientset
begin

text \<open>
  The properties of the client-side packages: typed client, fake client set, scheme, listers,
  deep copies, shared informers and the construction of client sets.
\<close>

section \<open>Clients\<close>

text \<open>The objects of the witnesses.\<close>

definition sample_object :: "string \<Rightarrow> string \<Rightarrow> unit object" where
  "sample_object ns n = \<lparr>ob_Namespace = ns, ob_Name = n, ob_Labels = [(''app'', n)], ob_Body = ()\<rparr>"

definition no_merge :: "bytes \<Rightarrow> unit object \<Rightarrow> api_error + unit object" where
  "no_merge patch ob = Inr ob"

definition sample_options :: GetOptions where
  "sample_options = \<lparr>go_ResourceVersion = [], go_IncludeUninitialized = False\<rparr>"

lemma proper_samples: "proper ''default''" "proper ''web''" "proper ''db''"
  by code_simp+






definition sample_list_options :: ListOptions where
  "sample_list_options = \<lparr>lo_LabelSelector = [], lo_FieldSelector = [], lo_IncludeUninitialized = False, lo_Watch = False,
     lo_ResourceVersion = [], lo_TimeoutSeconds = None, lo_Limit = 0, lo_Continue = []\<rparr>"


section \<open>The scheme\<close>

text \<open>
  C35. Registration of the API types. In whatever scheme, where adding the types does not panic
  it gives no error, keeps what was registered, registers both kinds of the group for their
  types, and keeps the two maps of the scheme inverse to each other: a new object of any kind of
  a type has that type.
\<close>

theorem scheme_registers:
  assumes "scheme_ok s" and "AddToScheme s = Some (err, s')"
  shows "err = None \<and> scheme_ok s' \<and> gvkToType s \<subseteq>\<^sub>m gvkToType s' \<and>
    (\<forall>n \<in> {''Configuration'', ''ConfigurationList''}. scheme_New s' (WithKind SchemeGroupVersion n) = Inr (v1alpha1 n)) \<and>
    (\<forall>t gvks u. ObjectKinds s' t = Inr (gvks, u) \<longrightarrow> (\<forall>gvk \<in> set gvks. scheme_New s' gvk = Inr t))"
  using AddToScheme_registers [OF assms] ObjectKinds_New [of s']
  by (auto simp: scheme_le_def scheme_New_def)

theorem scheme_registers_witness:
  "\<exists>s s'. AddToGroupVersion \<lparr>gv_Group = [], gv_Version = ''v1''\<rparr> NewScheme = Some s \<and> AddToScheme s = Some (None, s') \<and>
    scheme_New s' (WithKind SchemeGroupVersion ''Configuration'') = Inr (v1alpha1 ''Configuration'')"
proof -
  from scheme_init_Some obtain s err s' where s: "AddToGroupVersion \<lparr>gv_Group = [], gv_Version = ''v1''\<rparr> NewScheme = Some s"
    "AddToScheme s = Some (err, s')"
    by (auto simp: scheme_init_def split: bind_splits)
  have "scheme_ok s" using scheme_ok_AddToGroupVersion [OF scheme_ok_new s(1)] by blast
  from scheme_registers [OF this s(2)] s show ?thesis by auto
qed

section \<open>Listers\<close>

text \<open>
  C36. The listers answer from the map of objects. After any events applied to an informer's
  store, and in whatever order its maps are ranged over, the lister of all namespaces gives each
  selected object of the map once, and the lister of a namespace those of its namespace.
\<close>

theorem listers_list_the_map:
  assumes "fair_orders ord"
  shows "map_of (items (run_ops ops)) = spec_ops ops \<and>
    (\<exists>ret. configurationLister_List ord (NewConfigurationLister (run_ops ops)) sel = (None, ret) \<and> distinct ret \<and>
      set ret = {ob. (\<exists>key. spec_ops ops key = Some ob) \<and> sel (ob_Labels ob)}) \<and>
    (\<exists>ret. configurationNamespaceLister_List ord
        (configurationLister_Configurations (NewConfigurationLister (run_ops ops)) ns) sel = (None, ret) \<and> distinct ret \<and>
      set ret = {ob. (\<exists>key. spec_ops ops key = Some ob) \<and> (ns = [] \<or> ob_Namespace ob = ns) \<and> sel (ob_Labels ob)})"
  by (intro conjI lister_List [OF assms] namespace_lister_List [OF assms] conjunct2 [OF run_ops_refines])

definition sample_ops :: "unit cache_op list" where
  "sample_ops = [OpReplace [sample_object ''kube'' ''dns'', sample_object ''default'' ''web''],
     OpAdd (sample_object ''default'' ''db''), OpDelete (sample_object ''default'' ''web'')]"

lemma sample_names: "ob_Namespace (sample_object ns n) = ns" "ob_Name (sample_object ns n) = n"
  by (simp_all add: sample_object_def)

lemma spec_sample:
  "spec_ops sample_ops = [''default/db'' \<mapsto> sample_object ''default'' ''db'', ''kube/dns'' \<mapsto> sample_object ''kube'' ''dns'']"
  by (auto simp: spec_ops_def sample_ops_def sample_object_def MetaNamespaceKeyFunc_def fun_eq_iff)

theorem listers_list_the_map_witness:
  "configurationNamespaceLister_List id_orders
    (configurationLister_Configurations (NewConfigurationLister (run_ops sample_ops)) ''default'') (\<lambda>_. True) =
    (None, [sample_object ''default'' ''db''])"
proof -
  have "{ob. (\<exists>key. spec_ops sample_ops key = Some ob) \<and> (''default'' = [] \<or> ob_Namespace ob = ''default'')} =
      {sample_object ''default'' ''db''}"
    by (auto simp: spec_sample sample_object_def split: if_splits)
  then obtain ret where "configurationNamespaceLister_List id_orders
      (configurationLister_Configurations (NewConfigurationLister (run_ops sample_ops)) ''default'') (\<lambda>_. True) = (None, ret)"
    "distinct ret" "set ret = {sample_object ''default'' ''db''}"
    using listers_list_the_map [OF fair_id_orders, of sample_ops "\<lambda>_. True" "''default''"] by auto
  with distinct_singleton_list show ?thesis by simp
qed

text \<open>
  Reading by name. After any events, where the names of the cached objects and the
  namespace have no slash, a lister of a namespace finds an object exactly if it is in the map
  with this namespace and name, and gives the error not-found otherwise. A lister of all
  namespaces (the empty one) finds nothing.
\<close>

theorem lister_gets_the_map:
  assumes "\<forall>key ob. spec_ops ops key = Some ob \<longrightarrow> CHR ''/'' \<notin> set (ob_Namespace ob) \<and> CHR ''/'' \<notin> set (ob_Name ob)"
    and "CHR ''/'' \<notin> set ns"
  defines "get \<equiv> configurationNamespaceLister_Get (configurationLister_Configurations (NewConfigurationLister (run_ops ops)) ns)"
  shows "(get name = Inr ob \<longleftrightarrow> ns \<noteq> [] \<and> (\<exists>key. spec_ops ops key = Some ob) \<and> ob_Namespace ob = ns \<and> ob_Name ob = name) \<and>
    (get name = Inl (NotFound ''configuration'' name) \<longleftrightarrow>
      (\<forall>key ob. spec_ops ops key = Some ob \<longrightarrow> ns = [] \<or> ob_Namespace ob \<noteq> ns \<or> ob_Name ob \<noteq> name))"
proof -
  note g = namespace_lister_Get [OF assms(1,2), of name, folded get_def]
  have "get name = Inl (NotFound ''configuration'' name) \<or> (\<exists>ob. get name = Inr ob)"
    by (auto simp: get_def configurationNamespaceLister_Get_def split: option.split)
  with g show ?thesis by (metis sum.distinct(1))
qed

theorem lister_gets_the_map_witness:
  "configurationNamespaceLister_Get (configurationLister_Configurations (NewConfigurationLister (run_ops sample_ops)) ''default'')
      ''db'' = Inr (sample_object ''default'' ''db'') \<and>
   configurationNamespaceLister_Get (configurationLister_Configurations (NewConfigurationLister (run_ops sample_ops)) ''default'')
      ''web'' = Inl (NotFound ''configuration'' ''web'')"
proof -
  have p: "\<forall>key ob. spec_ops sample_ops key = Some ob \<longrightarrow> CHR ''/'' \<notin> set (ob_Namespace ob) \<and> CHR ''/'' \<notin> set (ob_Name ob)"
    and n: "CHR ''/'' \<notin> set ''default''"
    by (auto simp: spec_sample sample_object_def split: if_splits)
  have "\<exists>key. spec_ops sample_ops key = Some (sample_object ''default'' ''db'')"
    by (rule exI [of _ "''default/db''"]) (simp add: spec_sample)
  moreover have "\<forall>key ob. spec_ops sample_ops key = Some ob \<longrightarrow>
      ''default'' = [] \<or> ob_Namespace ob \<noteq> ''default'' \<or> ob_Name ob \<noteq> ''web''"
    by (auto simp: spec_sample sample_object_def split: if_splits)
  ultimately show ?thesis
    using lister_gets_the_map [OF p n, of "''db''" "sample_object ''default'' ''db''"]
      iffD2 [OF conjunct2 [OF lister_gets_the_map [OF p n, of "''web''"]]]
    by (simp add: sample_names)
qed

section \<open>Deep copies\<close>

text \<open>
  C37. Deep copies are equal and independent. Copying a list of configurations gives a new list
  that reads as the same tree, leaves the old memory as it was, and shares no address with the
  original: whatever is written to one of the two later, the other reads as before. A nil
  pointer is copied to the nil object.
\<close>

theorem deep_copy_list:
  assumes "fair_orders ord" and "read_ptr kConfigurationList read_ConfigurationList h (Some p) = Some (t, A)"
  defines "rd \<equiv> read_ptr kConfigurationList read_ConfigurationList"
  shows "ConfigurationList_DeepCopyObject ord None h = Some (None, h) \<and>
    (\<exists>q h' A'. ConfigurationList_DeepCopyObject ord (Some p) h = Some (Some (ObjConfigurationList (Some q)), h') \<and>
      extends h h' \<and> rd h' (Some q) = Some (t, A') \<and> set A \<inter> set A' = {} \<and>
      (\<forall>h''. agrees (set A') h' h'' \<longrightarrow> rd h'' (Some q) = Some (t, A')) \<and>
      (\<forall>h''. agrees (set A) h' h'' \<longrightarrow> rd h'' (Some p) = Some (t, A)))"
proof -
  have D: "deep_copier rd (ConfigurationList_DeepCopy ord)"
    unfolding rd_def ConfigurationList_DeepCopy_def by (rule deep_ptr [OF deep_ConfigurationList [OF assms(1)] kinds_ok(17)])
  have r: "rd h (Some p) = Some (t, A)" using assms(2) by (simp add: rd_def)
  obtain y h' where c: "ConfigurationList_DeepCopy ord (Some p) h = Some (y, h')" "extends h h'"
    using deep_copier.copies [OF D r] by blast
  then obtain q where q: "y = Some q"
    by (auto simp: ConfigurationList_DeepCopy_def copy_ptr_def split: bind_splits prod.splits)
  have "ConfigurationList_DeepCopyObject ord (Some p) h = Some (Some (ObjConfigurationList (Some q)), h')"
    using c(1) q by (simp add: ConfigurationList_DeepCopyObject_def)
  moreover have "ConfigurationList_DeepCopyObject ord None h = Some (None, h)"
    by (simp add: ConfigurationList_DeepCopyObject_def ConfigurationList_DeepCopy_def copy_ptr_def)
  ultimately show ?thesis using deep_copier.independent [OF D r c(1)] c(2) q by blast
qed

text \<open>Two configurations that share an array of tcp services, with labels and marked ports.\<close>

definition sample_heap :: "obj heap" where
  "sample_heap =
    [ConfigurationLists [zero_ConfigurationList\<lparr>cl_Items := Some (1, 0, 2)\<rparr>],
     Configurations [zero_Configuration\<lparr>cf_ObjectMeta := zero_ObjectMeta\<lparr>om_Name := ''web'', om_Labels := Some 2\<rparr>,
       cf_TCPEndpoints := Some (3, 0, 1)\<rparr>, zero_Configuration\<lparr>cf_TCPEndpoints := Some (3, 0, 1)\<rparr>],
     StrMap [[(''app'', ''nginx'')]],
     TCPServices [zero_TCPService\<lparr>ts_Port := ''80'', ts_Iptables := Some (4, 0, 1)\<rparr>],
     IptablesMangles [zero_IptablesMangle\<lparr>im_Port := Some (5, 0, 2)\<rparr>],
     Uint32s [80, 443, 0]]"

lemma sample_heap_reads: "\<exists>t A. read_ptr kConfigurationList read_ConfigurationList sample_heap (Some (0, 0)) = Some (t, A)"
proof -
  have "\<not> Option.is_none (read_ptr kConfigurationList read_ConfigurationList sample_heap (Some (0, 0)))" by code_simp
  then show ?thesis by (auto simp: Option.is_none_def)
qed

theorem deep_copy_list_witness:
  "\<exists>q h' t A A'. ConfigurationList_DeepCopyObject id_orders (Some (0, 0)) sample_heap =
      Some (Some (ObjConfigurationList (Some q)), h') \<and>
    read_ptr kConfigurationList read_ConfigurationList sample_heap (Some (0, 0)) = Some (t, A) \<and>
    read_ptr kConfigurationList read_ConfigurationList h' (Some q) = Some (t, A') \<and> set A \<inter> set A' = {}"
proof -
  obtain t A where r: "read_ptr kConfigurationList read_ConfigurationList sample_heap (Some (0, 0)) = Some (t, A)"
    using sample_heap_reads by blast
  from deep_copy_list [OF fair_id_orders r] r show ?thesis by blast
qed

section \<open>Shared informers\<close>

text \<open>
  C38. Every informer runs once. After any calls of a factory's methods, in any order, starting
  it leaves every informer it has made running, each started exactly once, however often it is
  started; and waiting for the caches reports on exactly these informers.
\<close>

theorem informers_run_once:
  assumes "factory_run f w" and "fair_orders ord" and "Start ord f w = (f', w')"
  shows "factory_run f' w' \<and> distinct (fw_runs w') \<and> set (fw_runs w') = ran (map_of (fa_informers f')) \<and>
    fa_informers f' = fa_informers f \<and> Start ord f' w' = (f', w') \<and>
    map_of (WaitForCacheSync ord synced f') = (\<lambda>t. map_option synced (map_of (fa_informers f') t))"
proof -
  note s = Start_all [OF factory_run_ok [OF assms(1)] assms(2,3)]
  have "map_of (WaitForCacheSync ord synced f') = (\<lambda>t. map_option synced (map_of (fa_informers f') t))"
    using s by (auto simp: WaitForCacheSync_started [OF assms(2)] fun_eq_iff domIff)
  with s assms(2) factory_run.start [OF assms] show ?thesis by blast
qed

definition sample_world :: "unit fworld" where
  "sample_world = \<lparr>fw_informers = [], fw_runs = []\<rparr>"

definition sample_factory :: "unit sharedInformerFactory" where
  "sample_factory = NewFilteredSharedInformerFactory () 30 ''default'' None"

theorem informers_run_once_witness:
  "\<exists>r f w f' w'. ForResource (WithResource SchemeGroupVersion ''configurations'') sample_factory sample_world = (r, f, w) \<and>
    Start id_orders f w = (f', w') \<and> fw_runs w' = [0] \<and> Start id_orders f' w' = (f', w')"
proof -
  have new: "factory_run sample_factory sample_world"
    by (rule factory_run.new) (simp_all add: sample_factory_def sample_world_def NewFilteredSharedInformerFactory_def
        NewSharedInformerFactoryWithOptions_def WithNamespace_def WithTweakListOptions_def)
  obtain r f w where r: "ForResource (WithResource SchemeGroupVersion ''configurations'') sample_factory sample_world = (r, f, w)"
    by (metis prod_cases3)
  obtain f' w' where s: "Start id_orders f w = (f', w')" by (metis surj_pair)
  have i: "fa_informers f = [(TypeConfiguration, 0)]"
    using r by (auto simp: ForResource_def Informer_def InformerFor_def sample_factory_def sample_world_def defaultInformer_def
      NewFilteredConfigurationInformer_def alloc_def NewFilteredSharedInformerFactory_def
      NewSharedInformerFactoryWithOptions_def WithNamespace_def WithTweakListOptions_def go_put_def)
  note t = informers_run_once [OF factory_run.for_resource [OF new r] fair_id_orders s]
  then have "distinct (fw_runs w')" "set (fw_runs w') = {0}" by (simp_all add: i)
  then have "fw_runs w' = [0]" by (rule distinct_singleton_list)
  with r s t show ?thesis by blast
qed

text \<open>
  C39. One informer, which lists through the client. The informer a filtered factory gives for
  the resource is the one its group, version and configurations accessors give, and it lists and
  watches the configurations of the factory's namespace through the typed client, with the
  factory's changes to the options; a watch always asks for a watch. Any other resource is an error.
\<close>

theorem informer_lists_through_client:
  fixes serve :: "'v http \<Rightarrow> 'w \<Rightarrow> 'v response \<times> 'w" and watch :: "'v http \<Rightarrow> 'w \<Rightarrow> (api_error + 'i) \<times> 'w"
  assumes "proper ns"
    and "ForResource (WithResource SchemeGroupVersion res)
      (NewFilteredSharedInformerFactory (serve, watch) resync ns tweak) w = (r, f1, w1)"
  defines "request \<equiv> \<lambda>opts. \<lparr>ht_verb = ''GET'', ht_path = collection_path ns, ht_params = [PList opts], ht_body = None\<rparr>"
  shows "(res \<noteq> ''configurations'' \<longrightarrow> (\<exists>e. r = Inl e) \<and> w1 = w) \<and>
    (res = ''configurations'' \<longrightarrow> (\<exists>g. r = Inr g \<and>
      Informer (version_Configurations (group_V1alpha1 (Lvscontroller f1))) f1 w1 = (gi_informer g, f1, w1) \<and>
      in_resync (fw_informers w1 ! gi_informer g) = resync \<and>
      ListFunc (\<lambda>(serve, watch). configurations_List serve) (fw_informers w1 ! gi_informer g) opts x =
        (let (resp, x') = serve (request (tweaked tweak opts)) x in (IntoList resp, x')) \<and>
      WatchFunc (\<lambda>(serve, watch). configurations_Watch watch) (fw_informers w1 ! gi_informer g) opts x =
        watch (request ((tweaked tweak opts)\<lparr>lo_Watch := True\<rparr>)) x))"
proof (cases "res = ''configurations''")
  case False
  with assms(2) show ?thesis by (auto simp: ForResource_def WithResource_def)
next
  case True
  let ?f = "NewFilteredSharedInformerFactory (serve, watch) resync ns tweak"
  have f: "map_of (fa_informers ?f) TypeConfiguration = None" "fa_client ?f = (serve, watch)" "fa_namespace ?f = ns"
    "fa_tweakListOptions ?f = tweak" "fa_customResync ?f = []" "fa_defaultResync ?f = resync"
    by (simp_all add: NewFilteredSharedInformerFactory_def NewSharedInformerFactoryWithOptions_def WithNamespace_def
        WithTweakListOptions_def)
  let ?s = "version_Configurations (group_V1alpha1 (Lvscontroller ?f))"
  obtain f' w' where i: "Informer ?s ?f w = (length (fw_informers w), f', w')"
    "map_of (fa_informers f') TypeConfiguration = Some (length (fw_informers w))"
    "fw_informers w' = fw_informers w @ [\<lparr>in_client = (serve, watch), in_namespace = ns, in_tweak = tweak,
      in_type = TypeConfiguration, in_resync = resync, in_indexers = [NamespaceIndex \<mapsto> MetaNamespaceIndexFunc]\<rparr>]"
    using Informer_first [OF f(1), of ?s w] unfolding f scope_of_factory by (simp add: f) blast
  with assms(2) True have r: "r = Inr \<lparr>gi_informer = length (fw_informers w),
      gi_resource = (gvr_Group (WithResource SchemeGroupVersion res), gvr_Resource (WithResource SchemeGroupVersion res))\<rparr>"
    "f1 = f'" "w1 = w'"
    by (auto simp: ForResource_def)
  have p: "IsValidPathSegmentName ns" "ns \<noteq> []" using assms(1) by (simp_all add: proper_def)
  have "configurations_List serve ns (tweaked tweak opts) x =
      (let (resp, x') = serve (request (tweaked tweak opts)) x in (IntoList resp, x'))"
    using p by (simp add: configurations_List_def base_request_valid req_VersionedParams_def req_Do_def sent_def req_URL_def
        request_def collection_path_def)
  moreover have "configurations_Watch watch ns (tweaked tweak opts) x =
      watch (request ((tweaked tweak opts)\<lparr>lo_Watch := True\<rparr>)) x"
    using p by (simp add: configurations_Watch_def base_request_valid req_VersionedParams_def sent_def req_URL_def
        request_def collection_path_def Let_def)
  moreover have "Informer (version_Configurations (group_V1alpha1 (Lvscontroller f'))) f' w' = (length (fw_informers w), f', w')"
    by (rule Informer_again [OF i(2)])
  ultimately show ?thesis
    using True by (simp add: r i(3) ListFunc_def WatchFunc_def)
qed

theorem informer_lists_through_client_witness:
  "\<exists>g f1 w1. ForResource (WithResource SchemeGroupVersion ''configurations'')
      (NewFilteredSharedInformerFactory
        (\<lambda>(h :: unit http) (x :: unit). (RespList [] [sample_object ''default'' ''web''], x),
         \<lambda>(h :: unit http) (x :: unit). (Inr () :: api_error + unit, x)) 30 ''default'' None)
      \<lparr>fw_informers = [], fw_runs = []\<rparr> = (Inr g, f1, w1) \<and>
    ListFunc (\<lambda>(serve, watch). configurations_List serve) (fw_informers w1 ! gi_informer g) sample_list_options () =
      (((Some [], [sample_object ''default'' ''web'']), None), ())"
proof -
  let ?serve = "\<lambda>(h :: unit http) (x :: unit). (RespList [] [sample_object ''default'' ''web''], x)"
  let ?watch = "\<lambda>(h :: unit http) (x :: unit). (Inr () :: api_error + unit, x)"
  obtain r f1 w1 where r: "ForResource (WithResource SchemeGroupVersion ''configurations'')
      (NewFilteredSharedInformerFactory (?serve, ?watch) 30 ''default'' None) \<lparr>fw_informers = [], fw_runs = []\<rparr> = (r, f1, w1)"
    by (metis prod_cases3)
  from informer_lists_through_client [OF proper_samples(1) r, of sample_list_options "()"] r show ?thesis
    by (auto simp: IntoList_def)
qed

section \<open>Client sets\<close>



end
