(* ===== verification/Spec2Isabelle.thy ===== *)
theory Spec2Isabelle
  imports Startup_Run Informed_Bounded Findings Ipvsdr_Faults Client_Side
begin

text \<open>
  The lvs-nginx controller: it watches the nginx pods of a Kubernetes namespace and the configmaps
  that list the ports these pods serve, and programs the kernel's IPVS table so that a virtual
  address forwards each of these ports to each of these pods. This development models the
  program's own Go code (under \<open>src/cmd\<close> and \<open>src/pkg\<close>) and the vendored libraries its state lives
  in, and proves what the parts do alone and together.

  The controller, from the flags to the kernel:
    \<^item> \<open>App\<close> is the command (\<open>cmd/lvs-controller\<close>, \<open>pkg/config\<close>): the flags, \<open>main\<close> with the status
      the process ends with, and \<open>RunController\<close>. It builds the controller, calls \<open>Initial\<close> once
      and then \<open>Run\<close>.
    \<^item> \<open>Controller\<close> is \<open>pkg/controller/controller.go\<close>. The record \<open>lbc\<close> is the struct
      \<open>LoadBalancerController\<close>: two item stores shared by pointer, the queue \<open>lbstore\<close> of at most three
      items (a buffered channel), the mutex and condition variable, and the tables of tracked and new
      ports. Its functions are \<open>Initial\<close>, the informer handlers (\<open>updatePorts\<close>, \<open>addrAddFunc\<close>,
      \<open>addrUpdateFunc\<close>) and \<open>processFunc\<close>, the worker's turn. A function that would wait says so in
      its outcome (\<open>Lock_waits\<close>, \<open>Cond_waits\<close>, \<open>Chan_waits\<close>); a panic is an outcome too.
    \<^item> \<open>Goroutines\<close> composes the handlers and the workers as a step relation with one mutex and
      one condition variable, with signal and broadcast as steps of their own; \<open>Bounded_Run\<close> bounds
      what such runs do.
    \<^item> \<open>Delta_Fifo\<close>, \<open>Informer_Run\<close> and \<open>Informer_Correct\<close> are the informers the controller creates
      (\<open>vendor/k8s.io/client-go/tools/cache\<close>): the queue of deltas, what a reflector puts into it, and
      the process loop that keeps the store and calls the handlers. \<open>Pod_Events\<close> has the handlers as
      \<open>NewLoadBalancerController\<close> registers them.
    \<^item> \<open>Informed_Run\<close>, \<open>Informed_Correct\<close> and \<open>Informed_Bounded\<close> put the informers, the wait for
      their caches and the goroutines together: the whole of \<open>Run\<close>. \<open>Spaced_Run\<close>, \<open>Served_Run\<close>
      and \<open>Startup_Run\<close> follow one event, one modified object of the API server, and the start, until
      everything rests again.
    \<^item> \<open>LB_Store\<close> is \<open>pkg/controller/utils.go\<close>: the item store, \<open>L4Compare\<close>, the two validators.
    \<^item> \<open>Ipvsdr\<close> is \<open>pkg/provider/ipvs/ipvsdr.go\<close>: the manager with \<open>Init\<close>, \<open>Add\<close>, \<open>Del\<close> and
      \<open>DelRServer\<close>, which call a handle to the kernel.
    \<^item> \<open>Libipvs\<close> and \<open>Ipvs_Handle\<close> are \<open>vendor/github.com/mqliang/libipvs\<close>: the netlink encoding and
      the methods of the handle over a socket, which is a parameter.
    \<^item> \<open>Ipvs_Kernel\<close> is a reference kernel behind that socket. It shows that the laws asked of the
      handle can hold, and is what the concrete runs use.

  The client side (generated from the API types, under \<open>pkg/apis\<close> and \<open>pkg/client\<close>):
    \<^item> \<open>Go_Heap\<close>, \<open>Api_Types\<close> and \<open>Deep_Copy\<close>: the API structs and their deep-copy functions over a
      memory of arrays, with pointers, slices and maps as references into it.
    \<^item> \<open>Api_Scheme\<close>: the registration of the API types in a scheme.
    \<^item> \<open>Indexer\<close>, \<open>Lister\<close> and \<open>Cache_History\<close>: the object cache with its indices, the listers over it,
      and the cache after any history of events.
    \<^item> \<open>Informers\<close>: the shared informer factory, its options, accessors and the generic informer.
    \<^item> \<open>Client_Contract\<close>, \<open>Typed_Client\<close>, \<open>Clientset\<close>, \<open>Fake_Client\<close>, \<open>Fake_Correct\<close> and
      \<open>Tracker_Server\<close>: the contract of a configurations client, the REST client over a server, the
      construction of client sets with their rate limiters, and the fake client set for tests.

  Shared by all: \<open>Lvs_Prelude\<close> (integers, byte slices, maps, errors) and \<open>Go_Lib\<close> (the functions of
  the standard library). A Go map is an association list with different keys, and a function
  that ranges over a map takes the order as a parameter; every theorem holds for all orders. A
  panic is \<open>None\<close> unless a function has its own outcomes; an error is a value.

  The interfaces, each a locale with an interpretation on the model's definitions: \<open>ipvs_handle\<close>
  and \<open>reliable_handle\<close> (what a handle does to the kernel's table; the netlink client over the
  reference kernel), \<open>lvs_ready\<close> and \<open>real_servers\<close> (what the manager offers the worker),
  \<open>controller_env\<close> and \<open>boot_env\<close> (the environment of a run; \<open>Reference_World\<close>), \<open>object_store\<close>
  (what a lister needs of the cache), \<open>reflector_store\<close> and \<open>informer_queue\<close> (what a reflector fills
  and a process loop drains: the queue of deltas, and a plain cache), \<open>deep_copier\<close> (each copied type), \<open>configurations_client\<close>
  and \<open>api_server\<close> (the fake, and the typed client over a server).

  What the theorems show (those without an id are further facts of the same parts):
    \<^item> The whole system (C1 to C4, C27, C28; \<open>Sync\<close>, \<open>Quiet_Run\<close>, \<open>Spaced_Run\<close>,
      \<open>Served_Run\<close>, \<open>Startup_Run\<close>): if each event finds the goroutines at rest, then on every
      interleaving the kernel's table at rest is exactly the wanted one; the start comes to such a
      rest, and from there a modified configmap or pod at the API server leads to the next one,
      with the table its new version asks for; and what goes wrong in other runs.
    \<^item> \<open>Run\<close> with its informers (C5 to C7): in all runs the kernel's table only gets real servers the
      API server named and nothing panics; what the informers are told is delivered and
      processed once the workers run; and a start-up that never gets to the workers.
    \<^item> The goroutines (C8 to C11): runs without new events end, no wake-up is lost, no goroutine
      blocks on the channel, and a failed first synchronisation stops the program for good. How
      the process ends is C24.
    \<^item> The manager (C12 to C16, C29; \<open>Ipvsdr_Correct\<close>, \<open>Ipvsdr_Faults\<close>): each operation
      refines its specification on the kernel's table, and what is left of that over a handle that fails.
    \<^item> The netlink client (C17): it meets the contract of the handle.
    \<^item> The worker, the port tables and the validators (C18 to C20, C25, C26; \<open>Worker\<close>,
      \<open>Port_Tables\<close>, \<open>Controller_Correct\<close>).
    \<^item> The informers (C21 to C23, C30, C31): their calls follow each other, a drained informer has
      what the server told, \<open>HasSynced\<close> means the first list was delivered, what a relist may
      lose, and which pods the update handler never hears of.
    \<^item> The client side (C32 to C40; \<open>Client_Side\<close>): the contracts of the two clients, what the
      listers answer, deep copies that share nothing, informers that run once, and client sets.
  \<open>Findings\<close> has the proofs of the departures of the code from what it means to do.

  Bounds and fuel. Ports, lengths and flags are machine words of their Go width; \<open>ValidatePort\<close> wraps as
  the code does (C25). No recursion needs fuel: the loops run over lists that get shorter, and
  the loop of the worker is the step relation, whose runs are bounded by \<open>effort\<close> (C8) and \<open>work_left\<close> (C6). The
  theorems hold for any number of workers, pods, ports and objects.

  Not modelled: logging and the 60 ms sleeps; the retry of \<open>wait.Until\<close> after a worker returns (it
  never does); the set-up of the netlink socket and its policies; the construction of the
  Kubernetes clients in \<open>main.go\<close>, which is a parameter, and the server behind them; the pprof
  endpoints and the goroutine statistics of \<open>main.go\<close>, which share no state with the
  controller; of the reflectors the requests, resource versions, back-off and metrics, so what they read
  from the API server is any sequence of lists and watch events; the distribution of a shared
  informer's calls to several listeners;
  conversion and defaulting functions of schemes, and codecs; setting up connections and the timing
  of rate limiters; the panic of a fake watcher with more than 100 unread events; build and deployment files.
\<close>

section \<open>The system as a whole\<close>

text \<open>
  The table is the wanted one. In every run in which the worker takes its turn after each
  event, from the start on, the kernel's table holds exactly the real servers the cluster asks
  for: each pod address under each tcp and udp port of the configmaps, and the controller
  tracks exactly these ports.
\<close>

theorem quiet_run_table:
  assumes "boot_env h view invar svc_ok dst_ok hst cfg v kube"
    and "\<And>w w'. elsewhere w w' \<Longrightarrow> invar w \<Longrightarrow> invar w' \<and> view w' = view w"
    and "quiet_run invar elsewhere kube hst cfg s A T U"
  shows "rs_of (view (snd s)) = want v A T U \<and> lbstore (fst s) = [] \<and>
    map_of (ExTcp (fst s)) = port_set protoTcp T \<and> map_of (ExUdp (fst s)) = port_set protoUdp U"
  using boot_env.quiet_run_settled [OF assms] boot_env.settled_def [OF assms(1)]
  by (simp add: at_rest_def tracked_def)

theorem quiet_run_table_witness:
  "\<exists>s. ref_run s ref_addrs {80, 443} {53} \<and>
    rs_of (kern_view (snd s)) = want ref_vip ref_addrs {80, 443} {53}"
proof -
  obtain s where s: "ref_run s ref_addrs {80, 443} {53}" using ref_started by blast
  from quiet_run_table [OF ref.boot_env_axioms cluster_change_quiet s] s show ?thesis by blast
qed

text \<open>
  A run goes on. Whenever a run is at rest and a tcp configmap event changes the ports, the
  handler and the worker both return, and the run continues with the new ports.
\<close>

theorem quiet_run_continues:
  assumes "boot_env h view invar svc_ok dst_ok hst cfg v kube"
    and "\<And>w w'. elsewhere w w' \<Longrightarrow> invar w \<Longrightarrow> invar w' \<and> view w' = view w"
    and "quiet_run invar elsewhere kube hst cfg (lbc, w) A T U"
    and "fair_orders ord" and "fair_orders ord'"
    and "cm_event kube tcpService A T N old cm lbc w"
  shows "\<exists>s. turn kube hst ord ord' (CmEvent old cm) lbc w = Returns s \<and>
    quiet_run invar elsewhere kube hst cfg s A N U"
  using boot_env.settled_tcp [OF assms(1) boot_env.quiet_run_settled [OF assms(1-3)] assms(4-6)]
    quiet_run.tcp [OF assms(3-6)] by blast

theorem quiet_run_continues_witness: "\<exists>s. ref_run s ref_addrs {80} {53}"
proof -
  obtain lbc w where e: "ref_run (lbc, w) ref_addrs {80, 443} {53}"
    "cm_event ref_kube tcpService ref_addrs {80, 443} {80} (port_cm tcpService [80, 443]) (port_cm tcpService [80]) lbc w"
    using ref_event by blast
  from quiet_run_continues [OF ref.boot_env_axioms cluster_change_quiet e(1) fair_id_orders fair_id_orders e(2)]
  show ?thesis by blast
qed

text \<open>
  C8. Every run of the goroutines without new events ends: from a reachable state there are at
  most \<open>effort n s\<close> steps, and where no step is left (and nothing panicked) the queue is empty,
  the informers are idle and the workers parked. So every item put into the queue is processed.
\<close>

theorem goroutines_drain:
  assumes "reachable kube hst n s" and "0 < n"
  shows "(\<forall>k s'. (internal kube hst n ^^ k) s s' \<longrightarrow> k \<le> effort n s) \<and>
    (\<forall>k s'. (internal kube hst n ^^ k) s s' \<and> (\<nexists>s''. internal kube hst n s' s'') \<and> \<not> crashed s' \<longrightarrow> drained n s')"
proof -
  have ok: "sys_ok n s" by (rule reachable_ok [OF assms])
  show ?thesis
    using run_length [OF _ ok assms(2)] stuck_drained by (meson add_leD1)
qed

text \<open>The workers of the witness start with an empty queue.\<close>

lemma fresh_reachable: "reachable kube hst n (running (fresh cfg lm) w)"
  by (rule reachable.init)
     (auto simp: started_def fresh_ok running_def set_informers set_workers)

theorem goroutines_drain_witness:
  "{k. \<exists>s'. (internal ref_kube (ref_host rr) 5 ^^ k) (running (fresh ref_cfg ref_manager) ref_world) s'} \<subseteq>
    {..effort 5 (running (fresh ref_cfg ref_manager) ref_world)}"
  using goroutines_drain [OF fresh_reachable [of ref_kube "ref_host rr" 5 ref_cfg ref_manager ref_world]]
  by auto

text \<open>
  C9. No wake-up is lost. In every reachable state: a parked informer has a full queue before
  it or a broadcast on its way, and if all workers are parked then for every queued item a signal
  is on its way; the mutex is free between steps and the controller is well-formed.
\<close>

theorem no_lost_wakeup:
  assumes "reachable kube hst n s" and "0 < n"
  shows "sys_inv n (ctl s) (pcs s)"
  using reachable_ok [OF assms] by (simp add: sys_ok_def)

theorem no_lost_wakeup_witness:
  "sys_inv 5 (fresh ref_cfg ref_manager) (pcs (running (fresh ref_cfg ref_manager) ref_world))"
  using no_lost_wakeup [OF fresh_reachable [of ref_kube "ref_host rr" 5 ref_cfg ref_manager ref_world]]
  by (simp add: running_def)

text \<open>
  C10. A failed first synchronisation stops the program for good. \<open>Initial\<close> returns its error
  with the mutex held, \<open>RunController\<close> goes on (\<open>Fatalf\<close> does not exit), and whatever happens
  afterwards, the caches filled, no goroutine ever takes a step and the queue stays empty.
\<close>

theorem failed_initial_deadlock:
  assumes "NewLoadBalancerController hst (Cfg opts) w = Some (lbc, w1)"
    and "Initial kube ord lbc w1 = Returns (Some e, lbc', w2)"
    and "BuildConfigFromFlags (Kubeconfig opts) = Inr rc" and "NewForConfig rc = Inr kube"
  shows "\<exists>s. RunController BuildConfigFromFlags NewForConfig True hst ord opts w = Running s \<and>
    (\<forall>s'. (\<lambda>a b. internal kube hst 5 a b \<or> external a b)\<^sup>*\<^sup>* s s' \<longrightarrow>
       (\<forall>s''. \<not> internal kube hst 5 s' s'') \<and> lbstore (ctl s') = [])"
proof -
  have l: "cond_L lbc'" "lbstore lbc' = []"
    using Initial_new [OF assms(1), of kube ord] assms(2) by auto
  have "dead 5 (running lbc' w2)"
    using l(1) by (auto simp: dead_def running_def set_informers set_workers)
  moreover have "lbstore (ctl (running lbc' w2)) = []" using l(2) by (simp add: running_def)
  ultimately show ?thesis
    using assms dead_forever dead_stuck by (fastforce simp: RunController_def Run_def)
qed

text \<open>The API server of the witness refuses to list the configmaps.\<close>

definition refusing_kube :: "cworld kube" where
  "refusing_kube = ref_kube\<lparr>list_cms := (\<lambda>ns w. (Inl (Errorp ''forbidden''), w))\<rparr>"

definition ref_opts :: Options where
  "ref_opts = NewOptions\<lparr>Cfg := ref_cfg\<rparr>"

theorem failed_initial_deadlock_witness:
  "\<exists>s. RunController (\<lambda>_. Inr ()) (\<lambda>_. Inr refusing_kube) True (ref_host rr) id_orders ref_opts ref_world = Running s \<and>
    (\<forall>s''. \<not> internal refusing_kube (ref_host rr) 5 s s'')"
proof -
  have new: "NewLoadBalancerController (ref_host rr) (Cfg ref_opts) ref_world = Some (fresh ref_cfg ref_manager, ref_world0)"
    by (simp add: ref_opts_def ref_New)
  have ini: "Initial refusing_kube id_orders (fresh ref_cfg ref_manager) ref_world0 =
      Returns (Some (Errorf ''Failed to initial list l4 configmaps'' (Errorf ''Failed to list cm'' (Errorp ''forbidden''))),
        (fresh ref_cfg ref_manager)\<lparr>cond_L := True\<rparr>, ref_world0)"
    by (simp add: Initial_def critical_def full_def Initial_body_def listCm_def refusing_kube_def)
  from failed_initial_deadlock [OF new ini, of "\<lambda>_. Inr ()" "()" "\<lambda>_. Inr refusing_kube"]
  show ?thesis by auto
qed

text \<open>
  C11. No goroutine blocks on the channel, and the controller stays well-formed: its tables are
  maps and its queue has at most 3 items. This holds of every handler and of the worker.
\<close>

theorem handlers_keep_wf:
  assumes "wf_lbc lbc"
  shows "fine (updatePorts kube ord oldCm cm lbc w) \<and> fine (OnUpdate_pod kube ord p q lbc w) \<and>
    fine (processFunc hst ord lbc w) \<and> wf_lbc (addrAddFunc pod lbc)"
  using handlers_fine [OF assms] by blast

theorem handlers_keep_wf_witness:
  "fine (processFunc (ref_host rr) id_orders (fresh ref_cfg ref_manager) ref_world)"
  using handlers_keep_wf [OF fresh_ok(1) [of ref_cfg ref_manager], of ref_kube id_orders "port_cm tcpService []"
      "port_cm tcpService [80]" ref_world "quad_pod ''a'' 10 0 0 11 False" "quad_pod ''a'' 10 0 0 11 False"
      "ref_host rr" "quad_pod ''a'' 10 0 0 11 False"] by blast


section \<open>The manager of the kernel's table\<close>

text \<open>The address and the world of the witnesses.\<close>

abbreviation ref_ip :: net_IP where
  "ref_ip \<equiv> Some (bytes_of_string (dotted_quad 10 0 0 11))"

lemma ref_ip4: "addr4 ref_ip = Some [10, 0, 0, 11]"
  by (rule addr4_dotted_quad)

lemma ref_good: "good_world ref_vip kern_view kern_ok ref_world"
  using ref_world_ok by (simp add: good_world_def)

lemmas ref_ready = ref.env.lvs_ready_axioms [of "[]", folded ref_manager_def]

text \<open>
  C12. \<open>Add\<close> implements its specification: it returns no error, the service of the virtual
  address, protocol and port exists afterwards, and the real server is added to it; nothing
  else changes.
\<close>

theorem Add_refines:
  fixes hst :: "'w host"
  assumes "lvs_ready h view invar svc_ok dst_ok lm v" and "good_world v view invar w"
    and "addr4 ip = Some a" and "port \<noteq> 0" and "proto = TCP \<or> proto = UDP"
  shows "\<exists>w'. Add hst lm ip port proto w = Some (None, w') \<and> good_world v view invar w' \<and>
    view w' = spec_add (vip_key v proto port) (a, port) (view w)"
  by (rule lvs_ready.add_spec [OF assms])

theorem Add_refines_witness:
  "\<exists>w'. Add (ref_host rr) ref_manager ref_ip 80 TCP ref_world = Some (None, w') \<and>
    kern_view w' = [vip_key ref_vip TCP 80 \<mapsto> {([10, 0, 0, 11], 80)}]"
proof -
  have "spec_add (vip_key ref_vip TCP 80) ([10, 0, 0, 11], 80) (kern_view ref_world) =
      [vip_key ref_vip TCP 80 \<mapsto> {([10, 0, 0, 11], 80)}]"
    by (simp add: ref_world_ok spec_add_def)
  with Add_refines [OF ref_ready ref_good ref_ip4, of 80 TCP "ref_host rr"] show ?thesis by auto
qed

text \<open>
  C13. \<open>Del\<close> implements its specification: the real server is removed if it was there, the
  service goes with its last real server, and nothing else changes; it returns no error, also
  where there was nothing to delete.
\<close>

theorem Del_refines:
  fixes hst :: "'w host"
  assumes "lvs_ready h view invar svc_ok dst_ok lm v" and "good_world v view invar w"
    and "addr4 ip = Some a" and "port \<noteq> 0" and "proto = TCP \<or> proto = UDP"
  shows "\<exists>w'. Del hst lm ip port proto w = Some (None, w') \<and> good_world v view invar w' \<and>
    view w' = spec_del (vip_key v proto port) (a, port) (view w)"
  by (rule lvs_ready.del_spec [OF assms])

theorem Del_refines_witness:
  "\<exists>w'. Del (ref_host rr) ref_manager ref_ip 80 TCP ref_world = Some (None, w') \<and> kern_view w' = Map.empty"
  using Del_refines [OF ref_ready ref_good ref_ip4, of 80 TCP "ref_host rr"]
  by (auto simp: ref_world_ok spec_del_def)

text \<open>
  C14. \<open>DelRServer\<close> implements its specification: the real servers with the address go from
  every service, and so does every service left without real servers.
\<close>

theorem DelRServer_refines:
  assumes "lvs_ready h view invar svc_ok dst_ok lm v" and "good_world v view invar w" and "addr4 ip = Some a"
  shows "\<exists>w'. DelRServer lm ip w = Some (None, w') \<and> good_world v view invar w' \<and> view w' = spec_delrs a (view w)"
  by (rule lvs_ready.delrs_spec [OF assms])

theorem DelRServer_refines_witness:
  "\<exists>w'. DelRServer ref_manager ref_ip ref_world = Some (None, w') \<and> kern_view w' = spec_delrs [10, 0, 0, 11] Map.empty"
  using DelRServer_refines [OF ref_ready ref_good ref_ip4] by (auto simp: ref_world_ok)

text \<open>
  C15. Failures of the kernel. Over a handle any of whose calls may fail, \<open>Add\<close> returns (it
  does not panic) and leaves the table unchanged, or with the new empty service, or with the
  real server added; no other service is touched and nothing is removed.
\<close>

theorem Add_under_faults:
  fixes hst :: "'w host"
  assumes "ipvs_handle h view invar" and "lm_handle lm = Some h" and "\<not> lm_marked lm"
    and "To4 (lm_vip lm) = Some v" and "invar w" and "addr4 ip = Some a" and "port \<noteq> 0"
    and "proto = TCP \<or> proto = UDP"
  shows "\<exists>e w'. Add hst lm ip port proto w = Some (e, w') \<and> invar w' \<and>
    add_partial (vip_key v proto port) (a, port) (view w) (view w')"
  by (rule ipvs_handle.Add_any [OF assms])

lemma ref_manager_sel:
  "lm_handle ref_manager = Some (ref_handle rr)" "\<not> lm_marked ref_manager" "To4 (lm_vip ref_manager) = Some ref_vip"
  by (simp_all add: ref_manager_def init_manager_def quad_config_def ParseIP_dotted_quad)

theorem Add_under_faults_witness:
  "\<exists>e w'. Add (ref_host rr) ref_manager ref_ip 80 TCP ref_world = Some (e, w') \<and> kern_ok w'"
  using Add_under_faults [OF ref.ipvs_handle_axioms ref_manager_sel ref_world_ok(1) ref_ip4,
      of 80 TCP "ref_host rr"] by auto

text \<open>
  C16. Likewise \<open>Del\<close> over a handle that may fail: it returns without an error whatever
  happened, and only the named real server, and its service once empty, may be gone.
\<close>

theorem Del_under_faults:
  fixes hst :: "'w host"
  assumes "ipvs_handle h view invar" and "lm_handle lm = Some h" and "\<not> lm_marked lm"
    and "To4 (lm_vip lm) = Some v" and "invar w" and "addr4 ip = Some a" and "port \<noteq> 0"
    and "proto = TCP \<or> proto = UDP"
  shows "\<exists>w'. Del hst lm ip port proto w = Some (None, w') \<and> invar w' \<and>
    del_partial (vip_key v proto port) (a, port) (view w) (view w')"
  by (rule ipvs_handle.Del_any [OF assms])

theorem Del_under_faults_witness:
  "\<exists>w'. Del (ref_host rr) ref_manager ref_ip 80 TCP ref_world = Some (None, w') \<and> kern_ok w'"
  using Del_under_faults [OF ref.ipvs_handle_axioms ref_manager_sel ref_world_ok(1) ref_ip4,
      of 80 TCP "ref_host rr"] by auto


section \<open>The worker\<close>

text \<open>
  C18. The worker applies a store to the table: over operations that keep the contract
  \<open>real_servers\<close>, the loops of \<open>processFunc\<close> add exactly \<open>store_adds\<close> and remove exactly
  \<open>store_dels\<close>, whatever the order of the range loops.
\<close>

theorem worker_applies_store:
  assumes "real_servers add del delrs table ok v"
    and "ok w" and "fair_orders ord" and "store_ok v lb"
  shows "\<exists>w'. sync_addrs add del delrs ord lb (name_order ord 0 (go_keys (Addr lb))) w = Some w' \<and> ok w' \<and>
    table w' = upd (store_adds v lb) (store_dels v lb) (table w)"
  by (rule real_servers.sync_store_ok [OF assms])

definition ref_store :: LBStore where
  "ref_store = \<lparr>Addr = [(''adding_a'', ref_ip)], Tcp = [(80, addition), (443, deletion)], Udp = []\<rparr>"

theorem worker_applies_store_witness:
  "\<exists>w'. sync_addrs (Add (ref_host rr) ref_manager) (Del (ref_host rr) ref_manager) (DelRServer ref_manager)
      id_orders ref_store (name_order id_orders 0 (go_keys (Addr ref_store))) ref_world = Some w' \<and>
    rs_of (kern_view w') = want ref_vip {[10, 0, 0, 11]} {80} {}"
proof -
  have w: "addrs_with addition ref_store {[10, 0, 0, 11]}"
    using hd_Split_key(1) [of "''a''"] by (simp add: addrs_with_def ref_store_def)
  have ok: "store_ok ref_vip ref_store"
    by (rule store_ok_adding [OF w]) (simp_all add: ref_store_def)
  have "delta_steps (Tcp ref_store) {} {80}" "delta_steps (Udp ref_store) {} {}"
    by (simp_all add: delta_steps_def ref_store_def)
  from upd_want_delta [OF w this, of ref_vip]
  have u: "upd (store_adds ref_vip ref_store) (store_dels ref_vip ref_store) {} = want ref_vip {[10, 0, 0, 11]} {80} {}"
    by (simp add: want_def)
  have "real_servers (Add (ref_host rr) ref_manager) (Del (ref_host rr) ref_manager) (DelRServer ref_manager)
      (\<lambda>w. rs_of (kern_view w)) (good_world ref_vip kern_view kern_ok) ref_vip"
    using ref.env.rs.real_servers_axioms [of "[]"] by (simp add: ref_manager_def)
  from worker_applies_store [OF this ref_good fair_id_orders ok] u ref_world_ok(2) show ?thesis
    by auto
qed

section \<open>The tables of the controller\<close>

text \<open>
  C19. \<open>L4Compare\<close>. On tables that differ, the old table becomes the new one, the new one is
  emptied, and the delta asks for the addition of the ports only the new one has and the
  deletion of the ports only the old one has; on equal tables nothing changes, whatever the
  order of its five range loops.
\<close>

theorem L4Compare_correct:
  assumes "go_wf old" and "go_wf new" and "fair_orders ord"
    and "L4Compare ord old new delta = (old', new', delta')"
  shows "if map_of old = map_of new then old' = old \<and> new' = new \<and> delta' = delta
    else map_of old' = map_of new \<and> new' = [] \<and> map_of delta' = port_delta old new"
  using L4Compare_unchanged [OF assms(1,2)] L4Compare_changed [OF assms(1-3) _ assms(4)] assms(4)
  by auto

theorem L4Compare_correct_witness:
  "map_of (snd (snd (L4Compare id_orders [(80, TCP)] [(443, TCP)] []))) =
    port_delta [(80, TCP)] [(443, TCP)]"
proof -
  obtain o' n' d' where L: "L4Compare id_orders [(80, TCP)] [(443, TCP)] [] = (o', n', d')"
    by (metis prod_cases3)
  have "map_of [(80 :: u16, TCP)] 80 \<noteq> map_of [(443 :: u16, TCP)] 80" by simp
  then have "map_of [(80 :: u16, TCP)] \<noteq> map_of [(443 :: u16, TCP)]" by metis
  with L4Compare_correct [OF _ _ fair_id_orders L] L show ?thesis
    by (simp add: go_wf_def split: if_splits)
qed

text \<open>
  C20. The tcp handler. When the pods can be listed, \<open>updatePorts\<close> returns with \<open>ExTcp\<close> equal
  to the ports of the event together with those left over in \<open>NwTcp\<close>, with a delta that leads
  from the old ports to the new ones, with all pod addresses to be served, and with one item
  more in the queue.
\<close>

theorem updatePorts_tracks:
  assumes "\<not> cond_L lbc" and "ready_to_send lbc" and "fair_orders ord"
    and "tracked lbc T U" and "leftover lbc L M"
    and "\<not> data_eq (cm_Data old) (cm_Data cm)" and "cm_Name cm = tcpService"
    and "list_pods kube (nginxServer lbc) w = (Inr pods, w')" and "good_pods pods"
  shows "\<exists>lbc'. updatePorts kube ord old cm lbc w = Returns (lbc', w') \<and>
    tracked lbc' (L \<union> valid_ports (data_keys cm)) U \<and>
    delta_steps (Tcp (clbdata lbc')) T (L \<union> valid_ports (data_keys cm)) \<and>
    addrs_with addition (clbdata lbc') (pod_addrs pods) \<and> lbstore lbc' = lbstore lbc @ [CLB]"
proof -
  let ?l = "lbc\<lparr>cond_L := True\<rparr>"
  have "ready_to_send ?l" "tracked ?l T U" "leftover ?l L M" "list_pods kube (nginxServer ?l) w = (Inr pods, w')"
    using assms by (simp_all add: ready_to_send_def tracked_def leftover_def)
  from updateTcp_tracks [OF this(1) assms(3) this(2-4) assms(9), of cm]
  show ?thesis using updatePorts_tcp [OF assms(1,2,6,7)] by auto
qed

definition all_pods_kube :: "cworld kube" where
  "all_pods_kube = ref_kube\<lparr>list_pods := (\<lambda>ns w. (Inr (w_pods w), w))\<rparr>"

lemma all_pods: "list_pods all_pods_kube ns ref_world = (Inr ref_pods, ref_world)"
  by (simp add: all_pods_kube_def ref_world_def)

lemma fresh_ready: "ready_to_send (fresh cfg lm)"
  by (simp add: ready_to_send_def fresh_ok)

lemma cm_change: "\<not> data_eq (cm_Data (port_cm tcpService [])) (cm_Data (port_cm tcpService [80]))"
  by (simp add: port_cm_def data_eq_def go_map_eq_def)

theorem updatePorts_tracks_witness:
  "\<exists>lbc'. updatePorts all_pods_kube id_orders (port_cm tcpService []) (port_cm tcpService [80])
      (fresh ref_cfg ref_manager) ref_world = Returns (lbc', ref_world) \<and> lbstore lbc' = [CLB]"
  using updatePorts_tracks [OF _ fresh_ready fair_id_orders fresh_ok(2,3) cm_change port_cm_keys(2) all_pods ref_pods_ok(1)]
  by auto

text \<open>
  The construction. \<open>NewLoadBalancerController\<close> returns and leaves the kernel's table
  empty, whatever was in it before.
\<close>

theorem New_flushes:
  assumes "boot_env h view invar svc_ok dst_ok hst cfg v kube" and "invar w"
  shows "\<exists>lbc w'. NewLoadBalancerController hst cfg w = Some (lbc, w') \<and> invar w' \<and> view w' = Map.empty"
  by (rule boot_env.quiet_run_start [OF assms])

theorem New_flushes_witness:
  "\<exists>lbc w'. NewLoadBalancerController (ref_host rr) ref_cfg ref_world = Some (lbc, w') \<and> kern_view w' = Map.empty"
  using New_flushes [OF ref.boot_env_axioms ref_world_ok(1)] by blast

text \<open>
  C25. The validator of ports accepts what \<open>Atoi\<close> reads as 0 to 99999, and its result is that
  number modulo 65536: 65616 is accepted as port 80, and 65536 as port 0.
\<close>

theorem ValidatePort_wraps:
  "(\<forall>s p. ValidatePort s = (True, p) \<longleftrightarrow> (\<exists>i. Atoi s = (i, None) \<and> 0 \<le> i \<and> i \<le> 99999 \<and> p = of_int i)) \<and>
    ValidatePort ''65616'' = (True, 80) \<and> ValidatePort ''65536'' = (True, 0) \<and> fst (ValidatePort ''100000'') = False"
proof -
  have "\<forall>s p. ValidatePort s = (True, p) \<longleftrightarrow> (\<exists>i. Atoi s = (i, None) \<and> 0 \<le> i \<and> i \<le> 99999 \<and> p = of_int i)"
    by (auto simp: ValidatePort_eq split: prod.splits option.splits)
  moreover have "Atoi ''65616'' = (65616, None)" "Atoi ''65536'' = (65536, None)" "Atoi ''100000'' = (100000, None)"
    by code_simp+
  then have "ValidatePort ''65616'' = (True, 80)" "ValidatePort ''65536'' = (True, 0)" "fst (ValidatePort ''100000'') = False"
    by (simp_all add: ValidatePort_eq)
  ultimately show ?thesis by blast
qed

text \<open>
  C26. The validator of addresses accepts every dotted quad, returns the text as bytes, and
  \<open>Base\<close> reads these bytes back as the four octets; but it also accepts text that is no address,
  which \<open>Base\<close> turns into nil.
\<close>

theorem ValidateIPv4_roundtrip:
  "(\<forall>a b c d. \<exists>ip. ValidateIPv4 (dotted_quad a b c d) = (True, ip) \<and> addr4 ip = Some [a, b, c, d]) \<and>
    (\<exists>ip. ValidateIPv4 ''1.2.3.4.5'' = (True, ip) \<and> addr4 ip = None)"
proof -
  have "ValidateIPv4 ''1.2.3.4.5'' = (True, Some (bytes_of_string ''1.2.3.4.5''))" "ParseIP ''1.2.3.4.5'' = None"
    by code_simp+
  then show ?thesis by (simp add: ValidateIPv4_quad) (simp add: addr4_def To4_def)
qed

section \<open>Departures from the intended behaviour\<close>

text \<open>
  C27. A port that is never removed. After an event that leaves the tcp ports \<open>T\<close> as they are
  (a changed backend, say), the next event of the tcp configmap keeps all of \<open>T\<close> tracked,
  even the ports it has taken out.
\<close>

theorem stale_ports_kept:
  assumes "wf_lbc lbc" "\<not> cond_L lbc" "\<not> lb_closed lbc" "lbstore lbc = []"
    and "fair_orders ord1" "fair_orders ord2" and "tracked lbc T U" and "leftover lbc {} M"
    and "\<not> data_eq (cm_Data old1) (cm_Data cm1)" "cm_Name cm1 = tcpService" "valid_ports (data_keys cm1) = T"
    and "\<not> data_eq (cm_Data old2) (cm_Data cm2)" "cm_Name cm2 = tcpService"
    and "list_pods kube (nginxServer lbc) w = (Inr pods1, w1)" "good_pods pods1"
    and "list_pods kube (nginxServer lbc) w1 = (Inr pods2, w2)" "good_pods pods2"
  shows "\<exists>lbc1 lbc2. updatePorts kube ord1 old1 cm1 lbc w = Returns (lbc1, w1) \<and>
    updatePorts kube ord2 old2 cm2 lbc1 w1 = Returns (lbc2, w2) \<and>
    map_of (ExTcp lbc2) = port_set protoTcp (T \<union> valid_ports (data_keys cm2))"
  by (rule stale_ports [OF assms])

text \<open>The controller of the witness tracks port 80; the events are a new backend, then no port at all.\<close>

definition port80_ctl :: "cworld LoadBalancerController" where
  "port80_ctl = (fresh ref_cfg ref_manager)\<lparr>ExTcp := [(80, protoTcp)]\<rparr>"

theorem stale_ports_kept_witness:
  "\<exists>lbc1 lbc2. updatePorts all_pods_kube id_orders (port_cm tcpService [80])
      \<lparr>cm_Name = tcpService, cm_Data = Some [(''80'', ''default/other'')]\<rparr> port80_ctl ref_world = Returns (lbc1, ref_world) \<and>
    updatePorts all_pods_kube id_orders (port_cm tcpService [80]) (port_cm tcpService []) lbc1 ref_world = Returns (lbc2, ref_world) \<and>
    map_of (ExTcp lbc2) = port_set protoTcp {80}"
proof -
  have d: "dec 80 = ''80''" and "Atoi ''80'' = (80, None)" by code_simp+
  then have vp: "ValidatePort ''80'' = (True, 80)" by (simp add: ValidatePort_eq)
  have c: "wf_lbc port80_ctl" "\<not> cond_L port80_ctl" "\<not> lb_closed port80_ctl" "lbstore port80_ctl = []"
    "tracked port80_ctl {80} {}" "leftover port80_ctl {} {}"
    using fresh_ok [of ref_cfg ref_manager]
    by (auto simp: port80_ctl_def wf_lbc_def go_wf_def tracked_def leftover_def port_set_def delta_steps_def NewLBStore_def)
  show ?thesis
    using stale_ports_kept [OF c(1-4) fair_id_orders fair_id_orders c(5,6), of "port_cm tcpService [80]"
        "\<lparr>cm_Name = tcpService, cm_Data = Some [(''80'', ''default/other'')]\<rparr>" "port_cm tcpService [80]" "port_cm tcpService []"
        all_pods_kube ref_world ref_pods ref_world ref_pods ref_world]
    by (simp add: all_pods ref_pods_ok port_cm_def data_eq_def go_map_eq_def data_keys_def d vp)
qed

text \<open>
  C28. A pod that is never added. Two pod events that come before the worker's turn queue the
  same store twice, so the worker applies the second event twice and the first one never: the
  table has the address \<open>b\<close> of the second pod and nothing of the first.
\<close>

theorem first_pod_lost:
  assumes "controller_env h view invar svc_ok dst_ok lm v kube"
    and "at_rest v A T U (view w) lbc" and "lvsManager lbc = lm" and "good_world v view invar w"
    and "fair_orders o1" "fair_orders o2" "fair_orders o3" "fair_orders o4"
    and "pod_Namespace p1 = nginxServer lbc" "pod_PodIP p1 \<noteq> []" "fst (ValidateIPv4 (pod_PodIP p1))" "pod_addr p1 = Some a"
    and "pod_Namespace p2 = nginxServer lbc" "pod_PodIP p2 \<noteq> []" "fst (ValidateIPv4 (pod_PodIP p2))" "pod_addr p2 = Some b"
      "\<not> pod_Deleted p2"
    and "list_cms kube (nginxServer lbc) w = (Inr cms1, w1)" "good_cms cms1"
    and "list_cms kube (nginxServer lbc) w1 = (Inr cms2, w2)" "good_cms cms2"
      "cm_ports tcpService cms2 = T" "cm_ports udpService cms2 = U"
  shows "\<exists>lbc1 lbc2 lbc3 w3 lbc4 w4. OnUpdate_pod kube o1 p1 n1 lbc w = Returns (lbc1, w1) \<and>
    OnUpdate_pod kube o2 p2 n2 lbc1 w1 = Returns (lbc2, w2) \<and>
    processFunc hst o3 lbc2 w2 = Returns (lbc3, w3) \<and> processFunc hst o4 lbc3 w3 = Returns (lbc4, w4) \<and>
    lbstore lbc4 = [] \<and> rs_of (view w4) = want v (A \<union> {b}) T U"
  by (rule controller_env.lost_pod [OF assms])

lemma ref_at_rest:
  "\<exists>lbc (w :: cworld) ifc. at_rest ref_vip ref_addrs {80, 443} {53} (kern_view w) lbc \<and>
     lvsManager lbc = init_manager ref_cfg (ref_handle rr) ifc \<and> good_world ref_vip kern_view kern_ok w \<and>
     w_cms w = ref_cms"
proof -
  obtain lbc w where r: "ref_run (lbc, w) ref_addrs {80, 443} {53}" using ref_started by (metis surj_pair)
  have "ref_run (lbc, w\<lparr>w_cms := ref_cms\<rparr>) ref_addrs {80, 443} {53}"
    by (rule quiet_run.elsewhere [OF r]) (simp add: cluster_change_def)
  from ref.quiet_run_settled [OF cluster_change_quiet this]
  have "at_rest ref_vip ref_addrs {80, 443} {53} (kern_view (w\<lparr>w_cms := ref_cms\<rparr>)) lbc"
    "good_world ref_vip kern_view kern_ok (w\<lparr>w_cms := ref_cms\<rparr>)"
    "\<exists>ifc. lvsManager lbc = init_manager ref_cfg (ref_handle rr) ifc"
    by (simp_all add: ref.settled_def)
  moreover have "w_cms (w\<lparr>w_cms := ref_cms\<rparr>) = ref_cms" by simp
  ultimately show ?thesis by blast
qed

definition pod_in :: "string \<Rightarrow> u8 \<Rightarrow> Pod" where
  "pod_in ns d = \<lparr>pod_Name = ''nginx-ingress-controller-x'', pod_Namespace = ns,
     pod_PodIP = dotted_quad 10 0 0 d, pod_Deleted = False\<rparr>"

lemma pod_in_ok:
  "pod_Namespace (pod_in ns d) = ns" "pod_PodIP (pod_in ns d) \<noteq> []" "fst (ValidateIPv4 (pod_PodIP (pod_in ns d)))"
  "pod_addr (pod_in ns d) = Some [10, 0, 0, d]" "\<not> pod_Deleted (pod_in ns d)"
  by (simp_all add: pod_in_def ValidateIPv4_quad pod_addr_def ParseIP_dotted_quad)

theorem first_pod_lost_witness:
  "\<exists>(lbc4 :: cworld LoadBalancerController) (w4 :: cworld). lbstore lbc4 = [] \<and>
    rs_of (kern_view w4) = want ref_vip (ref_addrs \<union> {[10, 0, 0, 22]}) {80, 443} {53} \<and>
    (vip_key ref_vip TCP 80, ([10, 0, 0, 21], 80)) \<notin> rs_of (kern_view w4)"
proof -
  obtain lbc and w :: cworld and ifc where r: "at_rest ref_vip ref_addrs {80, 443} {53} (kern_view w) lbc"
    "lvsManager lbc = init_manager ref_cfg (ref_handle rr) ifc" "good_world ref_vip kern_view kern_ok w" "w_cms w = ref_cms"
    using ref_at_rest by blast
  have l: "list_cms ref_kube (nginxServer lbc) w = (Inr ref_cms, w)" by (simp add: ref_lists r(4))
  note p = pod_in_ok [of "nginxServer lbc"]
  obtain lbc4 :: "cworld LoadBalancerController" and w4 :: cworld where x: "lbstore lbc4 = []"
    "rs_of (kern_view w4) = want ref_vip (ref_addrs \<union> {[10, 0, 0, 22]}) {80, 443} {53}"
    using first_pod_lost [OF ref.env.controller_env_axioms [of ifc] r(1-3) fair_id_orders fair_id_orders fair_id_orders fair_id_orders
        p(1-4) [of 21] p(1-5) [of 22] l ref_cms_ports(3) l ref_cms_ports(3,1,2)]
    by blast
  then show ?thesis by (intro exI [of _ lbc4] exI [of _ w4]) (simp add: x in_want)
qed

text \<open>
  The pod handler reads the old pod. Its result does not depend on the new object of the
  event; an event by which a pod gets its first address changes nothing.
\<close>

theorem pod_handler_reads_old:
  "OnUpdate_pod kube ord old new lbc w = OnUpdate_pod kube ord old new' lbc w \<and>
    (pod_PodIP old = [] \<longrightarrow> OnUpdate_pod kube ord old new lbc w = Returns (lbc, w))"
  by (simp add: OnUpdate_pod_def addrUpdateFunc_def)

theorem pod_handler_reads_old_witness:
  "OnUpdate_pod ref_kube id_orders ((pod_in nginxDefault 11)\<lparr>pod_PodIP := []\<rparr>) (pod_in nginxDefault 11)
    (fresh ref_cfg ref_manager) ref_world = Returns (fresh ref_cfg ref_manager, ref_world)"
  using pod_handler_reads_old [of ref_kube id_orders "(pod_in nginxDefault 11)\<lparr>pod_PodIP := []\<rparr>" "pod_in nginxDefault 11"
      "fresh ref_cfg ref_manager" ref_world] by simp



text \<open>
  The marking rule never names its port: \<open>Fwmark\<close> runs one iptables command, and the text
  it puts after \<open>-dport\<close> is not the decimal number of the port, for any port.
\<close>

theorem Fwmark_port_text:
  "\<exists>mark w1. rand_Intn hst 100 w = (mark, w1) \<and>
    Fwmark hst lm dport w = (of_nat mark, snd (run_sh hst (MarkRule (lm_vip lm) (lm_intf lm) (rune_string dport) mark) w1)) \<and>
    rune_string dport \<noteq> dec (unat dport)"
  by (cases "rand_Intn hst 100 w") (simp add: Fwmark_def rune_not_decimal split: prod.split)

text \<open>
  The idle timeout of the documentation, \<open>120-50-50\<close>, is read as 0: the manager keeps the
  result of a failed conversion.
\<close>

theorem documented_timeout_is_0:
  assumes "Init hst cfg NewLvsManager w = Some (lm, w')" and "cfg_Idle_Timeout cfg = ''120-50-50''"
  shows "lm_timeout lm = 0"
proof -
  have "Atoi ''120-50-50'' = (0, Some ErrSyntax)" by code_simp
  with Init_manager [OF assms(1)] assms(2) show ?thesis by (auto simp: init_manager_def)
qed

theorem documented_timeout_is_0_witness:
  "\<exists>lm w'. Init (ref_host rr) (ref_cfg\<lparr>cfg_Idle_Timeout := ''120-50-50''\<rparr>) NewLvsManager ref_world = Some (lm, w') \<and>
    lm_timeout lm = 0"
proof -
  let ?cfg = "ref_cfg\<lparr>cfg_Idle_Timeout := ''120-50-50''\<rparr>"
  have f: "Flush (ref_handle rr) w = Some (None, w\<lparr>w_table := []\<rparr>)" for w :: cworld
    by (simp add: ref_handle_def netlink_handle_def kern_Flush)
  obtain i e where "Atoi ''120-50-50'' = (i, e)" by (cases "Atoi ''120-50-50''")
  then obtain lm w' where i: "Init (ref_host rr) ?cfg NewLvsManager ref_world = Some (lm, w')"
    by (auto simp: Init_def NewLvsManager_def Intf_def ref_host_def initIptables_def f split: prod.split)
  then have "lm_timeout lm = 0" by (rule documented_timeout_is_0) simp
  with i show ?thesis by blast
qed

text \<open>
  The forwarding method. The request by which the program adds a real server asks for
  forwarding method 0, masquerading, and for weight 0; direct routing, the mode of the
  documentation, is method 3.
\<close>

theorem base_destination_masquerades:
  "destination_attrs True (base_destination ip port) =
    map_option (\<lambda>a. [(IPVS_DEST_ATTR_ADDR_FAMILY, U16 AF_INET), (IPVS_DEST_ATTR_ADDR, Bin a),
      (IPVS_DEST_ATTR_PORT, packPort port), (IPVS_DEST_ATTR_FWD_METHOD, U32 IP_VS_CONN_F_MASQ),
      (IPVS_DEST_ATTR_WEIGHT, U32 0), (IPVS_DEST_ATTR_U_THRESH, U32 0), (IPVS_DEST_ATTR_L_THRESH, U32 0)]) (addr4 ip) \<and>
    IP_VS_CONN_F_MASQ \<noteq> IP_VS_CONN_F_DROUTE"
  by (cases "addr4 ip")
     (simp_all add: destination_attrs_def base_destination_def packAddr_def addr4_def zero_Destination_def
       IP_VS_CONN_F_MASQ_def IP_VS_CONN_F_DROUTE_def)

section \<open>Errors, encodings, flags\<close>

text \<open>
  An unsupported protocol is an error of \<open>Add\<close> and \<open>Del\<close>, and the world is unchanged.
\<close>

theorem unsupported_protocol:
  assumes "proto \<noteq> TCP" and "proto \<noteq> UDP"
  shows "\<exists>e e'. Add hst lm ip port proto w = Some (Some e, w) \<and> Del hst lm ip port proto w = Some (Some e', w)"
  using assms by (simp add: Add_def Del_def Base_def)

theorem unsupported_protocol_witness:
  "\<exists>e e'. Add (ref_host rr) ref_manager ref_ip 80 ''sctp'' ref_world = Some (Some e, ref_world) \<and>
    Del (ref_host rr) ref_manager ref_ip 80 ''sctp'' ref_world = Some (Some e', ref_world)"
  by (rule unsupported_protocol) (simp_all add: TCP_def UDP_def)

text \<open>
  The encodings of the netlink client: byte order, addresses (also padded ones) and flags
  decode to what was encoded.
\<close>

theorem codec_roundtrips:
  "ntohs (htons port) = port \<and> unpack_Flags (pack_Flags f) = Inr f \<and>
    (\<forall>b. packAddr af ip = Some b \<longrightarrow> unpackAddr (b @ pad) af = Inr b \<and> packAddr af (Some b) = Some b)"
  using unpackAddr_packAddr packAddr_packAddr by simp

theorem codec_roundtrips_witness:
  "unpackAddr ([10, 0, 0, 1] @ replicate 12 0) AF_INET = Inr [10, 0, 0, 1]"
  using codec_roundtrips [of 0 zero_Flags AF_INET "Some [10, 0, 0, 1]" "replicate 12 0"]
  by (simp add: packAddr_def To4_def)

text \<open>
  What the kernel dumps for a service or a real server of a well-formed table, the client
  unpacks to a struct with the same identity.
\<close>

theorem dump_unpack:
  assumes "service_ok s" and "dest_ok d"
  shows "(\<exists>svc. unpackService (dump_service s) = Some (Inr svc) \<and> svc_key svc = Some (ks_key s)) \<and>
    (\<exists>dst. unpackDest (dump_dest d) af = Some (Inr dst) \<and> dst_key dst = Some (kd_key d))"
  using unpack_dump_service [OF assms(1)] svc_key_client [OF assms(1)] unpack_dump_dest [OF assms(2)]
    dst_key_client [OF assms(2)] by blast

definition ref_ks :: kservice where
  "ref_ks = \<lparr>ks_key = VipKey AF_INET 6 [10, 0, 0, 1] 80, ks_sched = ''rr'', ks_flags = replicate 8 0,
     ks_timeout = 0, ks_netmask = 0, ks_dests = []\<rparr>"

definition ref_kd :: kdest where
  "ref_kd = \<lparr>kd_af = AF_INET, kd_addr = [10, 0, 0, 11], kd_port = 80, kd_fwd = 0, kd_weight = 0,
     kd_uthresh = 0, kd_lthresh = 0\<rparr>"

theorem dump_unpack_witness:
  "\<exists>svc. unpackService (dump_service ref_ks) = Some (Inr svc) \<and> svc_key svc = Some (VipKey AF_INET 6 [10, 0, 0, 1] 80)"
proof -
  have "service_ok ref_ks" by (simp add: service_ok_def key_ok_def ref_ks_def)
  moreover have "dest_ok ref_kd" by (simp add: dest_ok_def ref_kd_def)
  ultimately show ?thesis using dump_unpack [of ref_ks ref_kd AF_INET] by (simp add: ref_ks_def)
qed

text \<open>
  The flags. Whatever the order \<open>main\<close> sorts them into, parsing a command line gives the
  same options.
\<close>

theorem flags_order_irrelevant:
  assumes "mset flags = mset (Options_AddFlags [])"
  shows "parse_args flags args NewOptions = parse_args (Options_AddFlags []) args NewOptions"
  by (rule parse_args_perm [OF assms])

theorem flags_order_irrelevant_witness:
  "parse_args (rev (Options_AddFlags [])) [StrArg ''vip'' ''10.0.0.1''] NewOptions =
    Some (NewOptions\<lparr>Cfg := (Cfg NewOptions)\<lparr>cfg_Vip := ''10.0.0.1''\<rparr>\<rparr>)"
proof -
  have "mset (rev (Options_AddFlags [])) = mset (Options_AddFlags [])" by simp
  from flags_order_irrelevant [OF this] show ?thesis
    by (simp add: Options_AddFlags_def Config_AddFlags_def parse_args_def NewOptions_def)
qed

text \<open>
  The first error message of a response ends a command: what comes after it is not read.
\<close>

theorem doCmd_first_error:
  assumes "sync \<lparr>nl_cmd = cmd, nl_type = ty, nl_attrs = attrs\<rparr> w = (Inr (replicate k MsgDone @ MsgError n # rest), w')"
    and "n \<noteq> 0"
  shows "doCmd sync cmd ty attrs rh acc w = Some ((Some (Errno n), acc), w')"
proof -
  have "run_responses rh (replicate k MsgDone @ MsgError n # rest) acc = Some (Some (Errno n), acc)"
    using assms(2) by (induction k) simp_all
  with assms(1) show ?thesis by (simp add: doCmd_def)
qed

theorem doCmd_first_error_witness:
  "doCmd (\<lambda>r w. (Inr [MsgError 17, MsgError 0], w)) 1 4 [] (None :: unit handler option) () (0 :: nat) =
    Some ((Some (Errno 17), ()), 0)"
  by (rule doCmd_first_error [where k = 0]) simp_all

end
